(* ===== verification/Prelude.thy ===== *)
theory Prelude
  imports Main "HOL-Library.Word"
begin

text \<open>
  Shared material of the development: the machine types of the C++ sources, the
  little-endian memory image of integers and of packed structs, a generic codec
  interface, and a generic invariant interface for step functions.

  The memory images are those of the platform the program targets (little-endian,
  natural alignment); \<open>conntdb_lib.py\<close> and \<open>keydb_lib.py\<close> spell out the same layouts.
\<close>

unbundle bit_operations_syntax

type_synonym u8 = "8 word"
type_synonym u16 = "16 word"
type_synonym u32 = "32 word"
type_synonym u64 = "64 word"
type_synonym byte = "8 word"
type_synonym bytes = "8 word list"

text \<open>
  Wall-clock time: \<open>time_seconds()\<close> is \<open>gettimeofday\<close> as a double of seconds. The models
  carry the exact number of microseconds (\<open>tv_sec * 10^6 + tv_usec\<close>) as an integer, and
  every threshold in seconds is multiplied accordingly; rounding of IEEE doubles is
  not modelled.
\<close>

type_synonym usec = int

definition seconds :: "int \<Rightarrow> usec" where
  "seconds s = s * 1000000"

named_theorems codec_simps \<open>lengths and round trips of memory images\<close>
named_theorems step_defs \<open>definitions of the state-changing operations\<close>
named_theorems frame_simps \<open>fields an operation leaves unchanged\<close>

section \<open>Integers in memory\<close>

fun le_nat :: "bytes \<Rightarrow> nat" where
  "le_nat [] = 0"
| "le_nat (b # bs) = unat b + 256 * le_nat bs"

fun nat_le :: "nat \<Rightarrow> nat \<Rightarrow> bytes" where
  "nat_le 0 v = []"
| "nat_le (Suc n) v = word_of_nat (v mod 256) # nat_le n (v div 256)"

lemma length_nat_le [simp, codec_simps]: "length (nat_le n v) = n"
  by (induction n arbitrary: v) auto

lemma le_nat_nat_le: "le_nat (nat_le n v) = v mod 256 ^ n"
proof (induction n arbitrary: v)
  case 0
  show ?case by simp
next
  case (Suc n)
  have "unat (word_of_nat (v mod 256) :: byte) = v mod 256"
    by (simp add: unat_of_nat)
  then show ?case
    by (simp add: Suc.IH mod_mult2_eq mult.commute)
qed

lemma le_nat_bound: "le_nat bs < 256 ^ length bs"
proof (induction bs)
  case Nil
  show ?case by simp
next
  case (Cons b bs)
  have "unat b < 256"
    using unsigned_less [of b, where ?'a = nat] by simp
  with Cons.IH show ?case by simp
qed

lemma nat_le_le_nat [simp]: "nat_le (length bs) (le_nat bs) = bs"
proof (induction bs)
  case Nil
  show ?case by simp
next
  case (Cons b bs)
  have "unat b < 256"
    using unsigned_less [of b, where ?'a = nat] by simp
  with Cons.IH show ?case by simp
qed

definition word_le :: "'a::len word \<Rightarrow> bytes" where
  "word_le w = nat_le (LENGTH('a) div 8) (unat w)"

definition le_word :: "bytes \<Rightarrow> 'a::len word" where
  "le_word bs = word_of_nat (le_nat bs)"

lemma length_word_le [simp, codec_simps]:
  "length (word_le (w :: 'a::len word)) = LENGTH('a) div 8"
  by (simp add: word_le_def)

lemma pow_256: "(256::nat) ^ n = 2 ^ (8 * n)"
  by (simp add: power_mult)

lemma le_word_word_le:
  assumes "8 * (LENGTH('a) div 8) = LENGTH('a)"
  shows "le_word (word_le (w :: 'a::len word)) = w"
proof -
  have "unat w mod 256 ^ (LENGTH('a) div 8) = unat w"
    using assms unsigned_less [of w, where ?'a = nat] by (simp add: pow_256)
  then show ?thesis
    by (simp add: le_word_def word_le_def le_nat_nat_le)
qed

lemma le_word_word_le_8 [simp, codec_simps]: "le_word (word_le (w :: u8)) = w"
  by (rule le_word_word_le) simp

lemma le_word_word_le_16 [simp, codec_simps]: "le_word (word_le (w :: u16)) = w"
  by (rule le_word_word_le) simp

lemma le_word_word_le_32 [simp, codec_simps]: "le_word (word_le (w :: u32)) = w"
  by (rule le_word_word_le) simp

lemma le_word_word_le_64 [simp, codec_simps]: "le_word (word_le (w :: u64)) = w"
  by (rule le_word_word_le) simp

lemma word_le_inject_32: "word_le (v :: u32) = word_le w \<longleftrightarrow> v = w"
  by (metis le_word_word_le_32)

lemma word_le_le_word:
  assumes "8 * length bs = LENGTH('a)"
  shows "word_le (le_word bs :: 'a::len word) = bs"
proof -
  have n: "LENGTH('a) div 8 = length bs"
    using assms by simp
  have "le_nat bs < 2 ^ LENGTH('a)"
    using le_nat_bound [of bs] assms by (simp add: pow_256)
  then have "unat (word_of_nat (le_nat bs) :: 'a word) = le_nat bs"
    by (simp add: unat_of_nat)
  then show ?thesis
    by (simp add: word_le_def le_word_def n)
qed

section \<open>Structs in memory\<close>

text \<open>The bytes \<open>[off, off + n)\<close> of an image: one field of a struct.\<close>

definition field :: "bytes \<Rightarrow> nat \<Rightarrow> nat \<Rightarrow> bytes" where
  "field bs off n = take n (drop off bs)"

lemma field_app_skip [codec_simps]:
  "length xs \<le> off \<Longrightarrow> field (xs @ ys) off n = field ys (off - length xs) n"
  by (simp add: field_def)

lemma field_app_take [codec_simps]:
  "length xs = n \<Longrightarrow> field (xs @ ys) 0 n = xs"
  by (simp add: field_def)

lemma field_all [codec_simps]: "length xs = n \<Longrightarrow> field xs 0 n = xs"
  by (simp add: field_def)

lemma field_take: "off + k \<le> n \<Longrightarrow> field (take n bs) off k = field bs off k"
  by (simp add: field_def drop_take min_def)

text \<open>
  \<open>memset(&s, 0, sizeof(s)); memcpy(&s, data, min(dsize, sizeof(s)))\<close>: the image of a
  struct of \<open>n\<close> bytes read from a record of any length.
\<close>

definition zero_pad :: "nat \<Rightarrow> bytes \<Rightarrow> bytes" where
  "zero_pad n bs = (let copy = min (length bs) n in take copy bs @ replicate (n - copy) 0)"

lemma length_zero_pad [simp, codec_simps]: "length (zero_pad n bs) = n"
  by (simp add: zero_pad_def Let_def)

lemma zero_pad_long: "n \<le> length bs \<Longrightarrow> zero_pad n bs = take n bs"
  by (simp add: zero_pad_def Let_def)

lemma zero_pad_exact [simp]: "length bs = n \<Longrightarrow> zero_pad n bs = bs"
  by (simp add: zero_pad_def)

lemma field_zero_pad_beyond:
  assumes "length bs \<le> off" and "off + k \<le> n"
  shows "field (zero_pad n bs) off k = replicate k 0"
  using assms by (simp add: field_def zero_pad_def Let_def min_def)

lemma field_zero_pad_within:
  "off + k \<le> length bs \<Longrightarrow> off + k \<le> n \<Longrightarrow> field (zero_pad n bs) off k = field bs off k"
  by (simp add: field_def zero_pad_def Let_def min_def drop_take)

lemma le_nat_zeros [simp]: "le_nat (replicate n 0) = 0"
  by (induction n) auto

lemma le_word_zeros [simp]: "le_word (replicate n 0) = 0"
  by (simp add: le_word_def)

section \<open>Codecs\<close>

text \<open>
  A memory image or a wire format: \<open>dec\<close> reads back what \<open>enc\<close> wrote, whatever follows it.
\<close>

locale codec =
  fixes enc :: "'a \<Rightarrow> bytes"
    and dec :: "bytes \<Rightarrow> 'a"
    and wf :: "'a \<Rightarrow> bool"
  assumes dec_enc: "wf x \<Longrightarrow> dec (enc x @ rest) = x"
begin

lemma dec_enc_exact: "wf x \<Longrightarrow> dec (enc x) = x"
  using dec_enc [of x "[]"] by simp

lemma enc_inject: "wf x \<Longrightarrow> wf y \<Longrightarrow> enc x = enc y \<longleftrightarrow> x = y"
  using dec_enc_exact by metis

lemma enc_prefix_free: "wf x \<Longrightarrow> wf y \<Longrightarrow> enc x @ s = enc y @ t \<Longrightarrow> x = y \<and> s = t"
  using dec_enc [of x s] dec_enc [of y t] by auto

end

section \<open>Invariants of step functions\<close>

text \<open>
  A component driven by a sequence of inputs: an invariant that holds initially and is
  kept by each step holds after every run.
\<close>

locale inductive_invariant =
  fixes step :: "'e \<Rightarrow> 's \<Rightarrow> 's"
    and inv :: "'s \<Rightarrow> bool"
    and ok :: "'e \<Rightarrow> bool"
  assumes step_inv: "inv s \<Longrightarrow> ok e \<Longrightarrow> inv (step e s)"
begin

lemma run_inv: "inv s \<Longrightarrow> (\<And>e. e \<in> set es \<Longrightarrow> ok e) \<Longrightarrow> inv (fold step es s)"
  by (induction es arbitrary: s) (auto intro: step_inv)

end

section \<open>Small facts on lists, maps and words\<close>

lemma nth_list_update_if:
  "i < length xs \<Longrightarrow> xs[i := v] ! j = (if i = j then v else xs ! j)"
  by (simp add: nth_list_update)

lemma length_filter_upt_le: "length (filter P [0..<n]) \<le> n"
  by (metis length_filter_le length_upt diff_zero)

lemma fun_upd_None_dom: "dom (m(k := None)) = dom m - {k}"
  by auto

lemma unat_less_of_nat: "(x :: u32) < y \<longleftrightarrow> unat x < unat y"
  by (simp add: word_less_nat_alt)

lemma unat_le_of_nat: "(x :: u32) \<le> y \<longleftrightarrow> unat x \<le> unat y"
  by (simp add: word_le_nat_alt)

lemma word_less_inc:
  assumes "(x :: 'a::len word) \<noteq> - 1"
  shows "x < x + 1"
proof -
  have "unat x \<noteq> 2 ^ LENGTH('a) - 1"
    using assms by (metis word_eq_iff_unsigned unsigned_minus_1_eq_mask mask_eq_exp_minus_1)
  moreover have "unat x < 2 ^ LENGTH('a)"
    by (rule unsigned_less)
  ultimately have "Suc (unat x) < 2 ^ LENGTH('a)"
    by linarith
  then show ?thesis
    by (simp add: word_less_nat_alt unat_word_ariths)
qed

end
