(* ===== verification/Session.thy ===== *)
theory Session
  imports Prelude
begin

text \<open>
  \<open>session.cpp\<close>: the path helpers shared by the two log writers. A disk maps path strings to
  file contents. The results of \<open>mkdir\<close> and \<open>opendir\<close>/\<open>readdir\<close>, and the local date, are
  arguments.
\<close>

type_synonym disk = "string \<Rightarrow> bytes option"

section \<open>Decimal printing and scanning\<close>

definition digit :: "nat \<Rightarrow> char" where
  "digit d = char_of (48 + d)"

fun dec_str :: "nat \<Rightarrow> string" where
  "dec_str n = (if n < 10 then [digit n] else dec_str (n div 10) @ [digit (n mod 10)])"

declare dec_str.simps [simp del]

definition is_digit :: "char \<Rightarrow> bool" where
  "is_digit c \<longleftrightarrow> 48 \<le> (of_char c :: nat) \<and> (of_char c :: nat) \<le> 57"

definition digit_val :: "char \<Rightarrow> nat" where
  "digit_val c = of_char c - 48"

definition dec_val :: "string \<Rightarrow> nat" where
  "dec_val = foldl (\<lambda>acc c. 10 * acc + digit_val c) 0"

lemma of_char_digit: "d < 10 \<Longrightarrow> (of_char (digit d) :: nat) = 48 + d"
  by (simp add: digit_def)

lemma digit_facts [simp]: "d < 10 \<Longrightarrow> is_digit (digit d)" "d < 10 \<Longrightarrow> digit_val (digit d) = d"
  by (simp_all add: is_digit_def digit_val_def of_char_digit)

lemma dec_str_digits: "c \<in> set (dec_str n) \<Longrightarrow> is_digit c"
proof (induction n rule: dec_str.induct)
  case (1 n)
  then show ?case
    by (cases "n < 10") (auto simp: dec_str.simps [of n])
qed

lemma dec_str_not_Nil [simp]: "dec_str n \<noteq> []"
  by (subst dec_str.simps) simp

lemma dec_val_append: "dec_val (xs @ [c]) = 10 * dec_val xs + digit_val c"
  by (simp add: dec_val_def)

lemma dec_val_dec_str [simp]: "dec_val (dec_str n) = n"
proof (induction n rule: dec_str.induct)
  case (1 n)
  show ?case
  proof (cases "n < 10")
    case True
    then show ?thesis by (subst dec_str.simps) (simp add: dec_val_def)
  next
    case False
    then show ?thesis
      using 1 by (subst dec_str.simps) (simp add: dec_val_append)
  qed
qed

lemma dec_str_inject: "dec_str m = dec_str n \<longleftrightarrow> m = n"
  by (metis dec_val_dec_str)

text \<open>
  \<open>%u\<close> of \<open>scanf\<close>: skip white space, an optional sign, then digits, converted by \<open>strtoul\<close> to a
  64-bit \<open>unsigned long\<close> (saturating) and stored in an \<open>unsigned\<close>.
\<close>

definition is_space :: "char \<Rightarrow> bool" where
  "is_space c \<longleftrightarrow> of_char c = (32::nat) \<or> 9 \<le> (of_char c :: nat) \<and> (of_char c :: nat) \<le> 13"

definition strtoul :: "bool \<Rightarrow> string \<Rightarrow> u64" where
  "strtoul neg ds =
     (let v = dec_val ds in
      if v \<ge> 2 ^ 64 then 2 ^ 64 - 1 else if neg then - word_of_nat v else word_of_nat v)"

definition scan_u :: "string \<Rightarrow> u32 option" where
  "scan_u s =
     (let s1 = dropWhile is_space s;
          (neg, s2) = (case s1 of [] \<Rightarrow> (False, [])
                       | c # cs \<Rightarrow> if c = CHR ''-'' then (True, cs)
                                   else if c = CHR ''+'' then (False, cs) else (False, c # cs));
          ds = takeWhile is_digit s2
      in if ds = [] then None else Some (ucast (strtoul neg ds)))"

text \<open>
  \<open>sscanf(name, "session%u.tlog", &n) == 1\<close>: the conversion happens before the suffix is
  looked at, so \<open>sscanf\<close> returns 1 whatever follows the number.
\<close>

definition sscanf_u :: "string \<Rightarrow> string \<Rightarrow> string \<Rightarrow> u32 option" where
  "sscanf_u pre suf name =
     (if take (length pre) name = pre then scan_u (drop (length pre) name) else None)"

lemma takeWhile_dec_str:
  "rest = [] \<or> \<not> is_digit (hd rest) \<Longrightarrow> takeWhile is_digit (dec_str n @ rest) = dec_str n"
proof -
  assume rest: "rest = [] \<or> \<not> is_digit (hd rest)"
  have "takeWhile is_digit (dec_str n @ rest) = dec_str n @ takeWhile is_digit rest"
    by (rule takeWhile_append2) (rule dec_str_digits)
  also have "takeWhile is_digit rest = []"
    using rest by (cases rest) auto
  finally show ?thesis by simp
qed

lemma scan_u_dec_str:
  assumes "n < 2 ^ 32" and "rest = [] \<or> \<not> is_digit (hd rest)"
  shows "scan_u (dec_str n @ rest) = Some (word_of_nat n)"
proof -
  obtain c cs where ds: "dec_str n = c # cs"
    by (cases "dec_str n") simp_all
  then have c: "is_digit c"
    using dec_str_digits [of c n] by simp
  then have "\<not> is_space c" and "c \<noteq> CHR ''-''" and "c \<noteq> CHR ''+''"
    by (auto simp: is_digit_def is_space_def)
  moreover have "(ucast (strtoul False (dec_str n)) :: u32) = word_of_nat n"
  proof -
    have "n < 2 ^ 64" using assms(1) by simp
    then show ?thesis
      by (simp add: strtoul_def unsigned_of_nat take_bit_nat_eq_self assms(1)
          unat_of_nat flip: word_of_nat_eq_iff)
  qed
  ultimately show ?thesis
    using takeWhile_dec_str [OF assms(2), of n] ds by (simp add: scan_u_def Let_def)
qed

section \<open>mkdir -p\<close>

datatype mkdir_result = Mkdir_ok | Mkdir_exists | Mkdir_error

text \<open>
  The path prefixes at which the loop of \<open>mkpath_0700\<close> calls \<open>mkdir\<close>: for \<open>i = 1 .. n\<close>, where
  the \<open>i\<close>-th character is a slash or the terminating NUL.
\<close>

definition mkpath_prefixes :: "string \<Rightarrow> string list" where
  "mkpath_prefixes tmp =
     map (\<lambda>i. take i tmp)
       (filter (\<lambda>i. i = length tmp \<or> tmp ! i = CHR ''/'') [1..<Suc (length tmp)])"

text \<open>The calls in order, stopping at the first error other than \<open>EEXIST\<close>; the calls made are recorded.\<close>

fun mkdir_all :: "(string \<Rightarrow> mkdir_result) \<Rightarrow> string list \<Rightarrow> int \<times> string list" where
  "mkdir_all mkdir [] = (0, [])"
| "mkdir_all mkdir (d # ds) =
     (if mkdir d = Mkdir_error then (-1, [d])
      else (let (r, calls) = mkdir_all mkdir ds in (r, d # calls)))"

definition mkpath_0700 :: "(string \<Rightarrow> mkdir_result) \<Rightarrow> string \<Rightarrow> int \<times> string list" where
  "mkpath_0700 mkdir path = mkdir_all mkdir (mkpath_prefixes (take 1023 path))"

section \<open>Session directories and files\<close>

record tm =
  tm_year :: nat
  tm_mon :: nat
  tm_mday :: nat

definition pad0 :: "nat \<Rightarrow> string \<Rightarrow> string" where
  "pad0 w s = replicate (w - length s) (CHR ''0'') @ s"

text \<open>\<open>snprintf(dir, 768, "%s/%u/%04d-%02d-%02d", base_dir, port2, ...)\<close>\<close>

definition session_dir :: "string \<Rightarrow> u32 \<Rightarrow> tm \<Rightarrow> string" where
  "session_dir base_dir port2 tm_now =
     take 767 (base_dir @ ''/'' @ dec_str (unat port2) @ ''/'' @
       pad0 4 (dec_str (tm_year tm_now + 1900)) @ ''-'' @
       pad0 2 (dec_str (tm_mon tm_now + 1)) @ ''-'' @ pad0 2 (dec_str (tm_mday tm_now)))"

definition session_name :: "u32 \<Rightarrow> string \<Rightarrow> string" where
  "session_name n ext = ''session'' @ dec_str (unat n) @ ext"

definition session_path :: "string \<Rightarrow> u32 \<Rightarrow> string \<Rightarrow> string" where
  "session_path dir n ext = take 1023 (dir @ ''/'' @ session_name n ext)"

text \<open>\<open>next_session_n\<close> on the names \<open>readdir\<close> returns (\<open>None\<close>: \<open>opendir\<close> failed).\<close>

definition session_match :: "string \<Rightarrow> u32 option" where
  "session_match name =
     (case sscanf_u ''session'' ''.tlog'' name of
        Some n \<Rightarrow> Some n
      | None \<Rightarrow> sscanf_u ''session'' ''.bin'' name)"

definition session_highest :: "string list \<Rightarrow> u32" where
  "session_highest names =
     foldl (\<lambda>highest name. case session_match name of
              None \<Rightarrow> highest
            | Some n \<Rightarrow> if n > highest then n else highest) 0 names"

definition next_session_n :: "string list option \<Rightarrow> u32" where
  "next_session_n listing =
     (case listing of None \<Rightarrow> 1 | Some names \<Rightarrow> session_highest names + 1)"

lemma session_match_name:
  assumes "ext = [] \<or> \<not> is_digit (hd ext)"
  shows "session_match (session_name n ext) = Some n"
proof -
  have "unat n < 2 ^ 32"
    using unsigned_less [of n, where ?'a = nat] by simp
  from scan_u_dec_str [OF this assms] show ?thesis
    by (simp add: session_match_def sscanf_u_def session_name_def)
qed

lemma session_highest_ge:
  "name \<in> set names \<Longrightarrow> session_match name = Some n \<Longrightarrow> n \<le> session_highest names"
proof (induction names rule: rev_induct)
  case Nil
  then show ?case by simp
next
  case (snoc x xs)
  have step: "session_highest (xs @ [x]) =
      (case session_match x of None \<Rightarrow> session_highest xs
       | Some m \<Rightarrow> if m > session_highest xs then m else session_highest xs)"
    by (simp add: session_highest_def split: option.split)
  show ?case
  proof (cases "name = x")
    case True
    then show ?thesis
      using snoc.prems(2) step by (simp add: not_less)
  next
    case False
    then have "n \<le> session_highest xs"
      using snoc by simp
    then show ?thesis
      using step by (auto split: option.split)
  qed
qed

lemma next_session_n_above:
  assumes "name \<in> set names" and "session_match name = Some n" and "session_highest names \<noteq> - 1"
  shows "n < next_session_n (Some names)"
proof -
  have "n \<le> session_highest names"
    using assms session_highest_ge by blast
  moreover have "session_highest names < session_highest names + 1"
    using assms(3) by (rule word_less_inc)
  ultimately show ?thesis
    by (simp add: next_session_n_def)
qed

section \<open>Properties\<close>

text \<open>
  the number \<open>next_session_n\<close> returns is fresh: neither the \<open>.tlog\<close> nor the \<open>.bin\<close> of that
  session exists in the directory yet, so a new pair of session files never overwrites an older
  one (as long as the 32-bit counter has not reached its maximum).
\<close>

theorem next_session_n_fresh:
  assumes "session_highest names \<noteq> - 1" and "ext \<in> {''.tlog'', ''.bin''}"
  shows "session_name (next_session_n (Some names)) ext \<notin> set names"
proof
  assume mem: "session_name (next_session_n (Some names)) ext \<in> set names"
  have "session_match (session_name (next_session_n (Some names)) ext) = Some (next_session_n (Some names))"
    by (rule session_match_name) (use assms(2) in \<open>auto simp: is_digit_def\<close>)
  from next_session_n_above [OF mem this assms(1)] show False
    by simp
qed

theorem next_session_n_fresh_witness:
  "session_name (next_session_n (Some [''session2.tlog'', ''session1.bin'', ''notes.txt''])) ''.bin''
     \<notin> set [''session2.tlog'', ''session1.bin'', ''notes.txt'']
   \<and> next_session_n (Some [''session2.tlog'', ''session1.bin'', ''notes.txt'']) = 3"
proof
  have highest: "session_highest [''session2.tlog'', ''session1.bin'', ''notes.txt''] = 2"
    by (simp add: session_highest_def session_match_def sscanf_u_def scan_u_def strtoul_def
        is_space_def is_digit_def dec_val_def digit_val_def)
  then show "next_session_n (Some [''session2.tlog'', ''session1.bin'', ''notes.txt'']) = 3"
    by (simp add: next_session_n_def)
  show "session_name (next_session_n (Some [''session2.tlog'', ''session1.bin'', ''notes.txt''])) ''.bin''
     \<notin> set [''session2.tlog'', ''session1.bin'', ''notes.txt'']"
    by (rule next_session_n_fresh) (simp_all add: highest)
qed

end
