(* ===== verification/Tlog.thy ===== *)
theory Tlog
  imports Session
begin

text \<open>
  \<open>tlog.h\<close> and \<open>tlog.cpp\<close>: the telemetry-log writer. A record of the file is an 8-byte
  big-endian microsecond timestamp followed by one MAVLink frame.
\<close>

record tlog_writer =
  tl_fp :: "string option"   \<comment> \<open>the path of the open file; \<open>None\<close>: \<open>fp == nullptr\<close>\<close>

definition tlog_init :: tlog_writer where
  "tlog_init = \<lparr>tl_fp = None\<rparr>"

definition tlog_is_open :: "tlog_writer \<Rightarrow> bool" where
  "tlog_is_open t \<longleftrightarrow> tl_fp t \<noteq> None"

text \<open>What the operating system answers while a log file is opened.\<close>

record open_env =
  oe_tm :: tm
  oe_mkdir :: "string \<Rightarrow> mkdir_result"
  oe_fopen :: "string \<Rightarrow> bool"

text \<open>\<open>fopen(path, "ab")\<close> keeps an existing file and creates a missing one.\<close>

definition tlog_open ::
  "open_env \<Rightarrow> u32 \<Rightarrow> u32 \<Rightarrow> string \<Rightarrow> tlog_writer \<times> disk \<Rightarrow> (tlog_writer \<times> disk) \<times> bool" where
  "tlog_open env port2 session_n base_dir st =
     (case st of (t, disk) \<Rightarrow>
       if tl_fp t \<noteq> None then ((t, disk), True)
       else let dir = session_dir base_dir port2 (oe_tm env) in
         if fst (mkpath_0700 (oe_mkdir env) dir) < 0 then ((t, disk), False)
         else let path = session_path dir session_n ''.tlog'' in
           if \<not> oe_fopen env path then ((t, disk), False)
           else ((t\<lparr>tl_fp := Some path\<rparr>,
                  disk(path \<mapsto> (case disk path of None \<Rightarrow> [] | Some c \<Rightarrow> c))), True))"

text \<open>\<open>uint8_t((us >> ((7 - i) * 8)) & 0xff)\<close> for \<open>i = 0 .. 7\<close>\<close>

definition tlog_header :: "u64 \<Rightarrow> bytes" where
  "tlog_header us = map (\<lambda>i. ucast (drop_bit ((7 - i) * 8) us AND 0xff)) [0..<8]"

text \<open>\<open>fwrite\<close> on the unbuffered file: \<open>Some n\<close> bytes were written, or all of them.\<close>

definition fwritten :: "nat option \<Rightarrow> bytes \<Rightarrow> bytes" where
  "fwritten short bs = (case short of None \<Rightarrow> bs | Some n \<Rightarrow> take n bs)"

definition append_file :: "string \<Rightarrow> bytes \<Rightarrow> disk \<Rightarrow> disk" where
  "append_file path bs disk = disk(path \<mapsto> (case disk path of None \<Rightarrow> [] | Some c \<Rightarrow> c) @ bs)"

text \<open>\<open>write_frame\<close>; \<open>tv_sec\<close> and \<open>tv_usec\<close> come from \<open>gettimeofday\<close>.\<close>

definition tlog_write_frame ::
  "u64 \<Rightarrow> u64 \<Rightarrow> nat option \<Rightarrow> nat option \<Rightarrow> bytes \<Rightarrow> tlog_writer \<times> disk \<Rightarrow> tlog_writer \<times> disk" where
  "tlog_write_frame tv_sec tv_usec short1 short2 frame st =
     (case st of (t, disk) \<Rightarrow>
       case tl_fp t of
         None \<Rightarrow> (t, disk)
       | Some path \<Rightarrow>
           if length frame = 0 then (t, disk)
           else let us = tv_sec * 1000000 + tv_usec;
                    disk1 = append_file path (fwritten short1 (tlog_header us)) disk
                in (t, append_file path (fwritten short2 frame) disk1))"

definition tlog_close :: "tlog_writer \<Rightarrow> tlog_writer" where
  "tlog_close t = (if tl_fp t \<noteq> None then t\<lparr>tl_fp := None\<rparr> else t)"

section \<open>The file format\<close>

text \<open>The reader's view of the format: a timestamp, then a frame whose length it knows.\<close>

definition read_header :: "bytes \<Rightarrow> u64" where
  "read_header bs = le_word (rev (take 8 bs))"

function tlog_read :: "(bytes \<Rightarrow> nat) \<Rightarrow> bytes \<Rightarrow> (u64 \<times> bytes) list" where
  "tlog_read frame_len bs =
     (if length bs < 8 then []
      else let body = drop 8 bs; n = frame_len body
           in (read_header bs, take n body) # tlog_read frame_len (drop n body))"
  by pat_completeness auto
termination
  by (relation "measure (\<lambda>(_, bs). length bs)") auto

declare tlog_read.simps [simp del]

lemma nat_le_nth: "i < n \<Longrightarrow> nat_le n v ! i = word_of_nat (v div 256 ^ i mod 256)"
proof (induction n arbitrary: v i)
  case 0
  then show ?case by simp
next
  case (Suc n)
  show ?case
    using Suc by (cases i) (simp_all add: div_mult2_eq)
qed

lemma header_byte:
  "ucast (drop_bit (8 * k) us AND 0xff :: u64) = (word_of_nat (unat us div 256 ^ k mod 256) :: byte)"
proof -
  have mask: "(m :: nat) AND 255 = m mod 256" for m
    using take_bit_eq_mask [of 8 m] by (simp add: mask_eq_exp_minus_1 take_bit_eq_mod)
  have "unat (drop_bit (8 * k) us AND 0xff :: u64) = drop_bit (8 * k) (unat us) AND 255"
    using unsigned_less [of us, where ?'a = nat]
    by (simp add: unsigned_and_eq unsigned_drop_bit_eq take_bit_nat_eq_self)
  also have "\<dots> = unat us div 256 ^ k mod 256"
    by (simp add: mask drop_bit_eq_div power_mult)
  finally have "unat (drop_bit (8 * k) us AND 0xff :: u64) = unat us div 256 ^ k mod 256" .
  then show ?thesis
    by (metis of_nat_unat)
qed

lemma tlog_header_rev: "tlog_header us = rev (word_le us)"
proof (rule nth_equalityI)
  show "length (tlog_header us) = length (rev (word_le us))"
    by (simp add: tlog_header_def)
  fix i
  assume "i < length (tlog_header us)"
  then have i: "i < 8"
    by (simp add: tlog_header_def)
  have "tlog_header us ! i = ucast (drop_bit (8 * (7 - i)) us AND 0xff :: u64)"
    using i by (simp add: tlog_header_def mult.commute)
  also have "\<dots> = rev (word_le us) ! i"
    using i by (simp add: header_byte rev_nth word_le_def nat_le_nth)
  finally show "tlog_header us ! i = rev (word_le us) ! i" .
qed

lemma length_tlog_header [simp, codec_simps]: "length (tlog_header us) = 8"
  by (simp add: tlog_header_def)

interpretation tlog_codec: codec tlog_header read_header "\<lambda>_. True"
  by unfold_locales (simp add: read_header_def, simp add: tlog_header_rev)

definition tlog_image :: "(u64 \<times> bytes) list \<Rightarrow> bytes" where
  "tlog_image recs = concat (map (\<lambda>(us, frame). tlog_header us @ frame) recs)"

lemma tlog_read_image:
  assumes "\<And>us frame rest. (us, frame) \<in> set recs \<Longrightarrow> frame_len (frame @ rest) = length frame"
  shows "tlog_read frame_len (tlog_image recs) = recs"
  using assms
proof (induction recs)
  case Nil
  show ?case by (simp add: tlog_image_def tlog_read.simps)
next
  case (Cons r recs)
  obtain us frame where r: "r = (us, frame)"
    by (rule prod.exhaust)
  have image: "tlog_image ((us, frame) # recs) = tlog_header us @ frame @ tlog_image recs"
    by (simp add: tlog_image_def)
  have len: "frame_len (frame @ tlog_image recs) = length frame"
    using Cons.prems r by auto
  have IH: "tlog_read frame_len (tlog_image recs) = recs"
    using Cons by auto
  show ?case
    unfolding r by (subst tlog_read.simps) (simp add: image len IH tlog_codec.dec_enc)
qed

section \<open>Writing a session\<close>

text \<open>Frames with their \<open>gettimeofday\<close> readings, written one after the other.\<close>

definition tlog_write_all ::
  "(u64 \<times> u64 \<times> bytes) list \<Rightarrow> tlog_writer \<times> disk \<Rightarrow> tlog_writer \<times> disk" where
  "tlog_write_all fs = fold (\<lambda>(s, us, frame). tlog_write_frame s us None None frame) fs"

definition tlog_records :: "(u64 \<times> u64 \<times> bytes) list \<Rightarrow> (u64 \<times> bytes) list" where
  "tlog_records fs = map (\<lambda>(s, us, frame). (s * 1000000 + us, frame)) (filter (\<lambda>(_, _, frame). frame \<noteq> []) fs)"

lemma tlog_write_all_disk:
  "tl_fp t = Some path \<Longrightarrow> disk path = Some c \<Longrightarrow>
   tlog_write_all fs (t, disk) = (t, disk(path \<mapsto> c @ tlog_image (tlog_records fs)))"
proof (induction fs arbitrary: disk c)
  case Nil
  then show ?case
    by (auto simp: tlog_write_all_def tlog_image_def tlog_records_def fun_eq_iff)
next
  case (Cons f fs)
  obtain s us frame where f: "f = (s, us, frame)"
    by (rule prod_cases3)
  have cons: "tlog_write_all (f # fs) (t, disk)
      = tlog_write_all fs (tlog_write_frame s us None None frame (t, disk))"
    by (simp add: tlog_write_all_def f)
  show ?case
  proof (cases "frame = []")
    case True
    then have "tlog_write_frame s us None None frame (t, disk) = (t, disk)"
      and "tlog_records (f # fs) = tlog_records fs"
      using Cons.prems by (simp_all add: tlog_write_frame_def tlog_records_def f)
    then show ?thesis
      using Cons cons by simp
  next
    case False
    let ?disk = "disk(path \<mapsto> c @ tlog_header (s * 1000000 + us) @ frame)"
    have "tlog_write_frame s us None None frame (t, disk) = (t, ?disk)"
      using False Cons.prems
      by (simp add: tlog_write_frame_def append_file_def fwritten_def Let_def fun_eq_iff)
    moreover have "tlog_image (tlog_records (f # fs))
        = tlog_header (s * 1000000 + us) @ frame @ tlog_image (tlog_records fs)"
      using False by (simp add: tlog_image_def tlog_records_def f)
    moreover have "tlog_write_all fs (t, ?disk)
        = (t, ?disk(path \<mapsto> (c @ tlog_header (s * 1000000 + us) @ frame) @ tlog_image (tlog_records fs)))"
      by (rule Cons.IH) (simp_all add: Cons.prems(1))
    ultimately show ?thesis
      by (simp only: cons fun_upd_upd append_assoc)
  qed
qed

section \<open>Properties\<close>

text \<open>
  C40: a telemetry log reads back as written: after any sequence of frames on a freshly opened
  file, a reader that can tell the length of each frame recovers every frame, in order, with its
  microsecond timestamp, and nothing else.
\<close>

theorem tlog_roundtrip:
  assumes "tl_fp t = Some path" and "disk path = Some []"
    and "\<And>s us frame rest. (s, us, frame) \<in> set fs \<Longrightarrow> frame_len (frame @ rest) = length frame"
  shows "\<exists>content. snd (tlog_write_all fs (t, disk)) path = Some content
    \<and> tlog_read frame_len content = tlog_records fs"
proof -
  have "tlog_read frame_len (tlog_image (tlog_records fs)) = tlog_records fs"
    by (rule tlog_read_image) (use assms(3) in \<open>auto simp: tlog_records_def\<close>)
  then show ?thesis
    using tlog_write_all_disk [where disk = disk, OF assms(1,2), of fs] by simp
qed

text \<open>The concrete frames of the example carry their length in the second byte.\<close>

theorem tlog_roundtrip_witness:
  "\<exists>content. snd (tlog_write_all [(1, 2, [0xFD, 3, 9]), (1, 7, []), (2, 0, [0xFD, 2])]
       (\<lparr>tl_fp = Some ''x.tlog''\<rparr>, [''x.tlog'' \<mapsto> []])) ''x.tlog'' = Some content
    \<and> tlog_read (\<lambda>bs. case bs of _ # n # _ \<Rightarrow> unat n | _ \<Rightarrow> 0) content
      = [(1000002, [0xFD, 3, 9]), (2000000, [0xFD, 2])]"
proof -
  let ?fs = "[(1, 2, [0xFD, 3, 9]), (2, 0, [0xFD, 2])] :: (u64 \<times> u64 \<times> bytes) list"
  have "\<exists>content. snd (tlog_write_all ?fs
       (\<lparr>tl_fp = Some ''x.tlog''\<rparr>, [''x.tlog'' \<mapsto> []])) ''x.tlog'' = Some content
    \<and> tlog_read (\<lambda>bs. case bs of _ # n # _ \<Rightarrow> unat n | _ \<Rightarrow> 0) content = tlog_records ?fs"
    by (rule tlog_roundtrip) auto
  then show ?thesis
    by (simp add: tlog_records_def tlog_write_all_def tlog_write_frame_def)
qed

end
