(* ===== verification/Logdir.thy ===== *)
theory Logdir
  imports Session
begin

text \<open>
  The log directory of one port pair, \<open>logs/<port2>/<YYYY-MM-DD>/*\<close>, as \<open>opendir\<close>,
  \<open>readdir\<close> and \<open>stat\<close> show it to a scan. Used by the quota bookkeeping of the binary-log
  writer and by the cleanup worker.
\<close>

record stat_res =
  st_dev :: nat
  st_ino :: nat
  st_size :: int
  st_mtime :: int

record dir_file =
  df_name :: string
  df_stat :: "stat_res option"       \<comment> \<open>\<open>None\<close>: \<open>stat\<close> fails\<close>

record date_dir =
  dd_name :: string
  dd_isdir :: bool                   \<comment> \<open>\<open>stat\<close> succeeds and says it is a directory\<close>
  dd_files :: "dir_file list option" \<comment> \<open>\<open>None\<close>: \<open>opendir\<close> fails\<close>

text \<open>The entries of \<open>logs/<port2>\<close>; \<open>None\<close>: \<open>opendir\<close> fails.\<close>

type_synonym port_listing = "date_dir list option"

definition ends_with :: "string \<Rightarrow> string \<Rightarrow> bool" where
  "ends_with suf name \<longleftrightarrow> length name > length suf \<and> drop (length name - length suf) name = suf"

definition is_session_file :: "string \<Rightarrow> bool" where
  "is_session_file name \<longleftrightarrow> ends_with ''.tlog'' name \<or> ends_with ''.bin'' name"

definition hidden :: "string \<Rightarrow> bool" where
  "hidden name \<longleftrightarrow> name \<noteq> [] \<and> hd name = CHR ''.''"

definition listing_dirs :: "port_listing \<Rightarrow> date_dir list" where
  "listing_dirs l = (case l of None \<Rightarrow> [] | Some ds \<Rightarrow> ds)"

definition dir_files :: "date_dir \<Rightarrow> dir_file list" where
  "dir_files d = (case dd_files d of None \<Rightarrow> [] | Some fs \<Rightarrow> fs)"

text \<open>A listing as the operating system produces it: no file has a negative size.\<close>

definition ok_listing :: "port_listing \<Rightarrow> bool" where
  "ok_listing l \<longleftrightarrow> (\<forall>d \<in> set (listing_dirs l). \<forall>f \<in> set (dir_files d).
     \<forall>s. df_stat f = Some s \<longrightarrow> 0 \<le> st_size s)"

lemma session_names_are_session_files:
  "is_session_file (session_name n ''.tlog'')" "is_session_file (session_name n ''.bin'')"
  by (simp_all add: is_session_file_def ends_with_def session_name_def)

end
