(* ===== verification/Binlog.thy ===== *)
theory Binlog
  imports Tlog Logdir
begin

text \<open>
  \<open>binlog.h\<close> and \<open>binlog.cpp\<close>: \<open>BinlogWriter\<close>, which stores the 200-byte blocks of an ArduPilot
  binary log at offset \<open>seqno * 200\<close>, acknowledges them, asks again for missing ones, and
  rotates to a new file when the flight controller reboots.

  The generated MAVLink code (a submodule) is a parameter: the decoders of the two messages it
  reads, and the link that packs and sends \<open>REMOTE_LOG_BLOCK_STATUS\<close>. What the operating
  system and the clock answer during one call is an argument of that call.
\<close>

section \<open>Messages and constants\<close>

record mavlink_msg =
  m_incompat_flags :: u8
  m_seq :: u8
  m_sysid :: u8
  m_compid :: u8
  m_msgid :: u32
  m_payload :: bytes
  m_signature :: bytes

text \<open>Numbers assigned by the MAVLink message set.\<close>

definition MAVLINK_MSG_ID_SYSTEM_TIME :: u32 where "MAVLINK_MSG_ID_SYSTEM_TIME = 2"
definition MAVLINK_MSG_ID_REMOTE_LOG_DATA_BLOCK :: u32 where "MAVLINK_MSG_ID_REMOTE_LOG_DATA_BLOCK = 184"
definition MAVLINK_MSG_ID_REMOTE_LOG_BLOCK_STATUS :: u32 where "MAVLINK_MSG_ID_REMOTE_LOG_BLOCK_STATUS = 185"
definition MAV_COMP_ID_AUTOPILOT1 :: u8 where "MAV_COMP_ID_AUTOPILOT1 = 1"
definition MAV_REMOTE_LOG_DATA_BLOCK_START :: u32 where "MAV_REMOTE_LOG_DATA_BLOCK_START = 2147483646"
definition MAV_REMOTE_LOG_DATA_BLOCK_NACK :: u8 where "MAV_REMOTE_LOG_DATA_BLOCK_NACK = 0"
definition MAV_REMOTE_LOG_DATA_BLOCK_ACK :: u8 where "MAV_REMOTE_LOG_DATA_BLOCK_ACK = 1"
definition PROXY_SYSID :: u8 where "PROXY_SYSID = 255"
definition PROXY_COMPID :: u8 where "PROXY_COMPID = 155"

definition BLOCK_BYTES :: nat where "BLOCK_BYTES = 200"
definition MAX_NACKS_PER_TICK :: nat where "MAX_NACKS_PER_TICK = 10"
definition NACK_REPEAT :: usec where "NACK_REPEAT = 100000"
definition NACK_GIVEUP :: usec where "NACK_GIVEUP = seconds 60"
definition NACK_GIVEUP_BLOCKS :: u32 where "NACK_GIVEUP_BLOCKS = 200"
definition START_REPEAT :: usec where "START_REPEAT = seconds 1"
definition START_KEEPALIVE :: usec where "START_KEEPALIVE = seconds 5"
definition REBOOT_TIME_BACKWARD_MS :: u32 where "REBOOT_TIME_BACKWARD_MS = 10000"
definition MAX_FORWARD_JUMP_BYTES :: int where "MAX_FORWARD_JUMP_BYTES = 100 * 1024 * 1024"
definition MAX_PER_PORT2_BYTES :: int where "MAX_PER_PORT2_BYTES = 1024 * 1024 * 1024"

section \<open>The writer\<close>

text \<open>A \<open>std::vector<uint8_t>\<close>: its size and its elements.\<close>

record byte_vec =
  bv_size :: nat
  bv_at :: "nat \<Rightarrow> byte"

definition vec_empty :: byte_vec where
  "vec_empty = \<lparr>bv_size = 0, bv_at = (\<lambda>_. 0)\<rparr>"

definition vec_resize :: "nat \<Rightarrow> byte_vec \<Rightarrow> byte_vec" where
  "vec_resize n v = \<lparr>bv_size = n, bv_at = (\<lambda>i. if i < bv_size v then bv_at v i else 0)\<rparr>"

definition vec_set :: "nat \<Rightarrow> byte \<Rightarrow> byte_vec \<Rightarrow> byte_vec" where
  "vec_set i x v = v\<lparr>bv_at := (bv_at v)(i := x)\<rparr>"

record nack_state =
  ns_first_seen :: usec
  ns_last_sent :: usec    \<comment> \<open>0: never sent yet\<close>

record binlog_writer =
  bw_fp :: "string option"
  bw_seen_bitmap :: byte_vec
  bw_highest_seen :: u32
  bw_any_block_seen :: bool
  bw_last_start_sent :: usec
  bw_target_system :: u8
  bw_target_component :: u8
  bw_pending_acks :: "u32 list"
  bw_nack_state :: "u32 \<Rightarrow> nack_state option"
  bw_port2 :: u32
  bw_base_dir :: string
  bw_current_file_size :: int
  bw_other_sessions_bytes :: int
  bw_writes_since_quota_refresh :: nat
  bw_fc_sysid_filter :: u8
  bw_last_system_time_boot_ms :: u32
  bw_pending_session_n :: u32

definition binlog_init :: binlog_writer where
  "binlog_init = \<lparr>bw_fp = None, bw_seen_bitmap = vec_empty, bw_highest_seen = 0,
     bw_any_block_seen = False, bw_last_start_sent = 0, bw_target_system = 0,
     bw_target_component = 0, bw_pending_acks = [], bw_nack_state = Map.empty, bw_port2 = 0,
     bw_base_dir = [], bw_current_file_size = 0, bw_other_sessions_bytes = 0,
     bw_writes_since_quota_refresh = 0, bw_fc_sysid_filter = 0,
     bw_last_system_time_boot_ms = 0, bw_pending_session_n = 0\<rparr>"

definition set_fc_sysid_filter :: "u8 \<Rightarrow> binlog_writer \<Rightarrow> binlog_writer" where
  "set_fc_sysid_filter sysid b = b\<lparr>bw_fc_sysid_filter := sysid\<rparr>"

section \<open>The set of seen sequence numbers\<close>

definition bitmap_seen :: "byte_vec \<Rightarrow> u32 \<Rightarrow> bool" where
  "bitmap_seen v seqno =
     (let byte = unat (drop_bit 3 seqno) in
      if byte \<ge> bv_size v then False
      else bv_at v byte AND push_bit (unat (seqno AND 7)) 1 \<noteq> 0)"

definition bitmap_mark :: "byte_vec \<Rightarrow> u32 \<Rightarrow> byte_vec" where
  "bitmap_mark v seqno =
     (let byte = unat (drop_bit 3 seqno);
          v1 = (if byte \<ge> bv_size v
                then (let want = byte + 1; round = (want + 65535) div 65536 * 65536
                      in vec_resize round v)
                else v)
      in vec_set byte (bv_at v1 byte OR push_bit (unat (seqno AND 7)) 1) v1)"

definition seqno_seen :: "binlog_writer \<Rightarrow> u32 \<Rightarrow> bool" where
  "seqno_seen b seqno = bitmap_seen (bw_seen_bitmap b) seqno"

definition mark_seqno_seen :: "u32 \<Rightarrow> binlog_writer \<Rightarrow> binlog_writer" where
  "mark_seqno_seen seqno b = b\<lparr>bw_seen_bitmap := bitmap_mark (bw_seen_bitmap b) seqno\<rparr>"

section \<open>Opening, closing and the quota baseline\<close>

text \<open>
  \<open>refresh_other_sessions_bytes\<close>: the total size of the session files of the port pair other
  than the open one; \<open>own\<close> is the \<open>fstat\<close> of the open file (device and inode).
\<close>

definition counted_file :: "(nat \<times> nat) option \<Rightarrow> dir_file \<Rightarrow> int" where
  "counted_file own f =
     (if \<not> is_session_file (df_name f) then 0
      else case df_stat f of
             None \<Rightarrow> 0
           | Some st \<Rightarrow> if own = Some (st_dev st, st_ino st) then 0 else st_size st)"

definition refresh_other_sessions_bytes ::
  "(nat \<times> nat) option \<Rightarrow> port_listing \<Rightarrow> binlog_writer \<Rightarrow> binlog_writer" where
  "refresh_other_sessions_bytes own listing b =
     b\<lparr>bw_other_sessions_bytes :=
        (if bw_base_dir b = [] \<or> bw_port2 b = 0 then 0
         else (\<Sum>d\<leftarrow>filter (\<lambda>d. \<not> hidden (dd_name d)) (listing_dirs listing).
                 \<Sum>f\<leftarrow>dir_files d. counted_file (if bw_fp b \<noteq> None then own else None) f))\<rparr>"

record block_env =
  be_now :: usec
  be_open :: open_env
  be_listing_open :: port_listing      \<comment> \<open>the directory when the file is opened\<close>
  be_listing_refresh :: port_listing   \<comment> \<open>the directory at the periodic re-scan\<close>
  be_own :: "(nat \<times> nat) option"
  be_seek_ok :: bool
  be_short :: "nat option"             \<comment> \<open>\<open>Some n\<close>: \<open>fwrite\<close> wrote only \<open>n\<close> bytes\<close>

definition binlog_open ::
  "block_env \<Rightarrow> u32 \<Rightarrow> u32 \<Rightarrow> string \<Rightarrow> binlog_writer \<times> disk \<Rightarrow> (binlog_writer \<times> disk) \<times> bool" where
  "binlog_open env port2 session_n base_dir st =
     (case st of (b, disk) \<Rightarrow>
       if bw_fp b \<noteq> None then ((b, disk), True)
       else let dir = session_dir base_dir port2 (oe_tm (be_open env)) in
         if fst (mkpath_0700 (oe_mkdir (be_open env)) dir) < 0 then ((b, disk), False)
         else let path = session_path dir session_n ''.bin'' in
           if \<not> oe_fopen (be_open env) path then ((b, disk), False)
           else let b1 = b\<lparr>bw_fp := Some path, bw_port2 := port2, bw_base_dir := base_dir,
                            bw_current_file_size := 0\<rparr>;
                    b2 = refresh_other_sessions_bytes (be_own env) (be_listing_open env) b1
                in ((b2\<lparr>bw_writes_since_quota_refresh := 0\<rparr>, disk(path \<mapsto> [])), True))"

definition binlog_close :: "binlog_writer \<Rightarrow> binlog_writer" where
  "binlog_close b = (if bw_fp b \<noteq> None then b\<lparr>bw_fp := None\<rparr> else b)"

section \<open>Storing a block\<close>

text \<open>\<open>fseeko\<close> and \<open>fwrite\<close>: a write past the end leaves a hole of zeroes.\<close>

definition write_at :: "nat \<Rightarrow> bytes \<Rightarrow> bytes \<Rightarrow> bytes" where
  "write_at off bs f =
     (if bs = [] then f
      else take off (f @ replicate (off - length f) 0) @ bs @ drop (off + length bs) f)"

definition gap_seqnos :: "u32 \<Rightarrow> u32 \<Rightarrow> u32 list" where
  "gap_seqnos prev_highest new_seqno = map word_of_nat [unat (prev_highest + 1)..<unat new_seqno]"

definition queue_gap_nack :: "usec \<Rightarrow> u32 \<Rightarrow> binlog_writer \<Rightarrow> binlog_writer" where
  "queue_gap_nack now s b =
     (if seqno_seen b s then b
      else if bw_nack_state b s = None
           then b\<lparr>bw_nack_state := (bw_nack_state b)(s \<mapsto> \<lparr>ns_first_seen = now, ns_last_sent = 0\<rparr>)\<rparr>
           else b)"

definition queue_gap_nacks :: "u32 \<Rightarrow> u32 \<Rightarrow> usec \<Rightarrow> binlog_writer \<Rightarrow> binlog_writer" where
  "queue_gap_nacks prev_highest new_seqno now b =
     fold (queue_gap_nack now) (gap_seqnos prev_highest new_seqno) b"

text \<open>The strict-start gate: the file is opened by a block with sequence number 0 only.\<close>

definition block_gate ::
  "block_env \<Rightarrow> u32 \<Rightarrow> u32 \<Rightarrow> u32 \<Rightarrow> binlog_writer \<times> disk \<Rightarrow> (binlog_writer \<times> disk) option" where
  "block_gate env port2 session_n seqno st =
     (case st of (b, disk) \<Rightarrow>
       if bw_fp b \<noteq> None then Some (b, disk)
       else if seqno \<noteq> 0 then None
       else let n = (if bw_pending_session_n b \<noteq> 0 then bw_pending_session_n b else session_n) in
         (case binlog_open env port2 n ''logs'' (b, disk) of
            ((b1, disk1), ok) \<Rightarrow> if ok then Some (b1\<lparr>bw_pending_session_n := 0\<rparr>, disk1) else None))"

text \<open>The bookkeeping after a complete write.\<close>

definition block_written :: "block_env \<Rightarrow> u32 \<Rightarrow> int \<Rightarrow> binlog_writer \<Rightarrow> binlog_writer" where
  "block_written env seqno prospective b =
     (let b1 = b\<lparr>bw_current_file_size := prospective\<rparr>;
          w = Suc (bw_writes_since_quota_refresh b1);
          b2 = (if w \<ge> 10000
                then (refresh_other_sessions_bytes (be_own env) (be_listing_refresh env)
                        (b1\<lparr>bw_writes_since_quota_refresh := w\<rparr>))\<lparr>bw_writes_since_quota_refresh := 0\<rparr>
                else b1\<lparr>bw_writes_since_quota_refresh := w\<rparr>);
          was_seen = seqno_seen b2 seqno;
          b3 = mark_seqno_seen seqno b2;
          b4 = b3\<lparr>bw_nack_state := (bw_nack_state b3)(seqno := None)\<rparr>;
          b5 = (if bw_any_block_seen b4 \<and> seqno > bw_highest_seen b4 + 1
                   \<and> \<not> (bw_highest_seen b4 = 0 \<and> \<not> was_seen \<and> seqno = 0)
                then queue_gap_nacks (bw_highest_seen b4) seqno (be_now env) b4 else b4);
          b6 = (if seqno \<ge> bw_highest_seen b5 then b5\<lparr>bw_highest_seen := seqno\<rparr> else b5)
      in b6\<lparr>bw_pending_acks := bw_pending_acks b6 @ [seqno]\<rparr>)"

definition block_offset :: "u32 \<Rightarrow> int" where
  "block_offset seqno = int (unat seqno) * int BLOCK_BYTES"

definition prospective_size :: "binlog_writer \<Rightarrow> u32 \<Rightarrow> int" where
  "prospective_size b seqno = max (bw_current_file_size b) (block_offset seqno + int BLOCK_BYTES)"

text \<open>The vehicle's identity is taken from the first block that passes the caps.\<close>

definition latch_vehicle :: "mavlink_msg \<Rightarrow> binlog_writer \<Rightarrow> binlog_writer" where
  "latch_vehicle msg b =
     (if \<not> bw_any_block_seen b
      then b\<lparr>bw_target_system := m_sysid msg, bw_target_component := m_compid msg,
             bw_any_block_seen := True\<rparr>
      else b)"

definition block_store ::
  "block_env \<Rightarrow> mavlink_msg \<Rightarrow> u32 \<Rightarrow> bytes \<Rightarrow> binlog_writer \<times> disk \<Rightarrow> binlog_writer \<times> disk" where
  "block_store env msg seqno data st =
     (case st of (b, disk) \<Rightarrow>
       let prospective = prospective_size b seqno;
           expansion = prospective - bw_current_file_size b in
       if expansion > MAX_FORWARD_JUMP_BYTES then (b, disk)
       else if bw_other_sessions_bytes b + prospective > MAX_PER_PORT2_BYTES then (b, disk)
       else let b1 = latch_vehicle msg b in
         if \<not> be_seek_ok env then (b1, disk)
         else let wrote = (case be_short env of None \<Rightarrow> BLOCK_BYTES | Some n \<Rightarrow> min n BLOCK_BYTES);
                  path = (case bw_fp b of None \<Rightarrow> [] | Some p \<Rightarrow> p);
                  f = (case disk path of None \<Rightarrow> [] | Some c \<Rightarrow> c);
                  disk1 = disk(path \<mapsto> write_at (nat (block_offset seqno)) (take wrote data) f)
              in if wrote \<noteq> BLOCK_BYTES then (b1, disk1)
                 else (block_written env seqno prospective b1, disk1))"

definition handle_block ::
  "(mavlink_msg \<Rightarrow> u32 \<times> bytes) \<Rightarrow> block_env \<Rightarrow> u32 \<Rightarrow> u32 \<Rightarrow> mavlink_msg \<Rightarrow>
   binlog_writer \<times> disk \<Rightarrow> binlog_writer \<times> disk" where
  "handle_block decode env port2 session_n msg st =
     (let (seqno, data) = decode msg in
      case block_gate env port2 session_n seqno st of
        None \<Rightarrow> st
      | Some st1 \<Rightarrow> block_store env msg seqno data st1)"

section \<open>The periodic pump\<close>

text \<open>
  The user-side link: packing \<open>REMOTE_LOG_BLOCK_STATUS\<close> (source system and component, target
  system and component, sequence number, status) into wire bytes, and \<open>send_buf\<close>. The second
  component of the pump's state records the status messages handed to the link, in order, with
  \<open>True\<close> for those sent in full.
\<close>

record 'l user_link =
  ul_pack_status :: "'l \<Rightarrow> u8 \<Rightarrow> u8 \<Rightarrow> u8 \<Rightarrow> u8 \<Rightarrow> u32 \<Rightarrow> u8 \<Rightarrow> 'l \<times> bytes"
  ul_send_buf :: "'l \<Rightarrow> bytes \<Rightarrow> 'l \<times> int"

type_synonym 'l pump = "'l \<times> (u32 \<times> u8 \<times> bool) list"

definition pack_and_send ::
  "'l user_link \<Rightarrow> binlog_writer \<Rightarrow> u32 \<Rightarrow> u8 \<Rightarrow> 'l pump \<Rightarrow> 'l pump \<times> bool" where
  "pack_and_send ul b seqno status p =
     (case p of (l, out) \<Rightarrow>
       let (l1, buf) = ul_pack_status ul l PROXY_SYSID PROXY_COMPID
                         (bw_target_system b) (bw_target_component b) seqno status in
       if length buf = 0 then ((l1, out), False)
       else let (l2, r) = ul_send_buf ul l1 buf; ok = (r = int (length buf))
            in ((l2, out @ [(seqno, status, ok)]), ok))"

definition send_status ::
  "'l user_link \<Rightarrow> binlog_writer \<Rightarrow> u32 \<Rightarrow> u8 \<Rightarrow> 'l pump \<Rightarrow> 'l pump \<times> bool" where
  "send_status ul b seqno status p =
     (if \<not> bw_any_block_seen b then (p, False) else pack_and_send ul b seqno status p)"

definition send_start_packet ::
  "'l user_link \<Rightarrow> binlog_writer \<Rightarrow> 'l pump \<Rightarrow> 'l pump \<times> bool" where
  "send_start_packet ul b p =
     pack_and_send ul b MAV_REMOTE_LOG_DATA_BLOCK_START MAV_REMOTE_LOG_DATA_BLOCK_ACK p"

definition stale_nack :: "usec \<Rightarrow> binlog_writer \<Rightarrow> u32 \<Rightarrow> nack_state \<Rightarrow> bool" where
  "stale_nack now b s ns \<longleftrightarrow>
     (if seqno_seen b s then True
      else if now - ns_first_seen ns > NACK_GIVEUP then True
      else bw_highest_seen b \<ge> s \<and> bw_highest_seen b - s > NACK_GIVEUP_BLOCKS)"

definition drop_stale_nack_state :: "usec \<Rightarrow> binlog_writer \<Rightarrow> binlog_writer" where
  "drop_stale_nack_state now b =
     b\<lparr>bw_nack_state := (\<lambda>s. case bw_nack_state b s of
         None \<Rightarrow> None
       | Some ns \<Rightarrow> if stale_nack now b s ns then None else Some ns)\<rparr>"

fun drain_acks :: "'l user_link \<Rightarrow> binlog_writer \<Rightarrow> u32 list \<Rightarrow> 'l pump \<Rightarrow> 'l pump" where
  "drain_acks ul b [] p = p"
| "drain_acks ul b (s # ss) p =
     drain_acks ul b ss (fst (send_status ul b s MAV_REMOTE_LOG_DATA_BLOCK_ACK p))"

text \<open>The NACK loop, over the map's keys in its iteration order.\<close>

fun nack_loop ::
  "'l user_link \<Rightarrow> usec \<Rightarrow> nat \<Rightarrow> u32 list \<Rightarrow> binlog_writer \<times> 'l pump \<Rightarrow> binlog_writer \<times> 'l pump" where
  "nack_loop ul now budget [] st = st"
| "nack_loop ul now budget (s # ss) (b, p) =
     (if budget = 0 then (b, p)
      else case bw_nack_state b s of
             None \<Rightarrow> nack_loop ul now budget ss (b, p)
           | Some ns \<Rightarrow>
               if ns_last_sent ns \<noteq> 0 \<and> now - ns_last_sent ns < NACK_REPEAT
               then nack_loop ul now budget ss (b, p)
               else (case send_status ul b s MAV_REMOTE_LOG_DATA_BLOCK_NACK p of (p1, ok) \<Rightarrow>
                 if ok
                 then nack_loop ul now (budget - 1) ss
                        (b\<lparr>bw_nack_state := (bw_nack_state b)(s \<mapsto> ns\<lparr>ns_last_sent := now\<rparr>)\<rparr>, p1)
                 else nack_loop ul now budget ss (b, p1)))"

text \<open>The START throttle shared by both phases.\<close>

definition maybe_start ::
  "'l user_link \<Rightarrow> usec \<Rightarrow> usec \<Rightarrow> binlog_writer \<times> 'l pump \<Rightarrow> binlog_writer \<times> 'l pump" where
  "maybe_start ul now interval st =
     (case st of (b, p) \<Rightarrow>
       if now - bw_last_start_sent b \<ge> interval
       then (case send_start_packet ul b p of (p1, ok) \<Rightarrow>
               if ok then (b\<lparr>bw_last_start_sent := now\<rparr>, p1) else (b, p1))
       else (b, p))"

text \<open>\<open>order\<close> is the iteration order of \<open>nack_state\<close> after the stale entries are gone.\<close>

definition tick ::
  "'l user_link \<Rightarrow> usec \<Rightarrow> u32 list \<Rightarrow> binlog_writer \<times> 'l pump \<Rightarrow> binlog_writer \<times> 'l pump" where
  "tick ul now order st =
     (case st of (b, p) \<Rightarrow>
       if \<not> bw_any_block_seen b then maybe_start ul now START_REPEAT (b, p)
       else case maybe_start ul now START_KEEPALIVE (b, p) of (b1, p1) \<Rightarrow>
         if bw_fp b1 = None then (b1, p1)
         else let p2 = drain_acks ul b1 (bw_pending_acks b1) p1;
                  b2 = drop_stale_nack_state now (b1\<lparr>bw_pending_acks := []\<rparr>)
              in nack_loop ul now MAX_NACKS_PER_TICK order (b2, p2))"

section \<open>Reboot detection\<close>

definition rotate_for_reboot :: "string list option \<Rightarrow> binlog_writer \<Rightarrow> binlog_writer" where
  "rotate_for_reboot listing b =
     (let b1 = binlog_close b;
          b2 = b1\<lparr>bw_seen_bitmap := vec_empty, bw_highest_seen := 0, bw_pending_acks := [],
                  bw_nack_state := Map.empty, bw_last_start_sent := 0,
                  bw_last_system_time_boot_ms := 0\<rparr>
      in b2\<lparr>bw_pending_session_n := next_session_n listing\<rparr>)"

text \<open>\<open>decode_time\<close> reads \<open>time_boot_ms\<close>; \<open>listing\<close> is today's session directory if it rotates.\<close>

definition reboot_detected :: "binlog_writer \<Rightarrow> u32 \<Rightarrow> bool" where
  "reboot_detected b time_boot_ms \<longleftrightarrow>
     bw_last_system_time_boot_ms b \<noteq> 0
     \<and> time_boot_ms + REBOOT_TIME_BACKWARD_MS \<le> bw_last_system_time_boot_ms b
     \<and> bw_fp b \<noteq> None"

definition observe ::
  "(mavlink_msg \<Rightarrow> u32) \<Rightarrow> string list option \<Rightarrow> mavlink_msg \<Rightarrow> binlog_writer \<Rightarrow> binlog_writer" where
  "observe decode_time listing msg b =
     (if m_msgid msg \<noteq> MAVLINK_MSG_ID_SYSTEM_TIME then b
      else if m_compid msg \<noteq> MAV_COMP_ID_AUTOPILOT1 then b
      else if bw_fc_sysid_filter b \<noteq> 0 \<and> m_sysid msg \<noteq> bw_fc_sysid_filter b then b
      else let t = decode_time msg;
               b1 = (if reboot_detected b t then rotate_for_reboot listing b else b)
           in b1\<lparr>bw_last_system_time_boot_ms := t\<rparr>)"

end
