(* ===== verification/Tdb.thy ===== *)
theory Tdb
  imports Prelude "HOL-Library.AList"
begin

text \<open>
  The key-value database library (\<open>libtdb\<close>), which is not part of the repository: a record of
  the calls the program makes, the laws its documentation gives for them (the locale
  \<open>tdb\<close>), and the interface of a typed record table built on it (\<open>record_store\<close>), which
  \<open>keydb.cpp\<close> and \<open>conntdb.cpp\<close> both provide. A boolean result says that the call returned 0.
\<close>

record 'db tdb_api =
  tdb_fetch :: "'db \<Rightarrow> bytes \<Rightarrow> bytes option"
  tdb_store :: "'db \<Rightarrow> bytes \<Rightarrow> bytes \<Rightarrow> 'db \<times> bool"
  tdb_delete :: "'db \<Rightarrow> bytes \<Rightarrow> 'db \<times> bool"
  tdb_traverse :: "'db \<Rightarrow> (bytes \<times> bytes) list"
  tdb_transaction_start :: "'db \<Rightarrow> 'db \<times> bool"
  tdb_transaction_cancel :: "'db \<Rightarrow> 'db"
  tdb_transaction_commit :: "'db \<Rightarrow> 'db \<times> bool"

text \<open>The writes a client can make between the start and the end of a transaction.\<close>

inductive tdb_write :: "'db tdb_api \<Rightarrow> 'db \<Rightarrow> 'db \<Rightarrow> bool" for api where
  write_store: "tdb_write api db (fst (tdb_store api db k v))"
| write_delete: "tdb_write api db (fst (tdb_delete api db k))"

text \<open>
  \<open>saved db\<close> is what the file held when the open transaction started, \<open>in_txn db\<close> that
  there is one: both are ghosts of the specification.
\<close>

locale tdb =
  fixes api :: "'db tdb_api"
    and saved :: "'db \<Rightarrow> bytes \<Rightarrow> bytes option"
    and in_txn :: "'db \<Rightarrow> bool"
  assumes store_ok: "tdb_store api db k v = (db', True) \<Longrightarrow> tdb_fetch api db' = (tdb_fetch api db)(k \<mapsto> v)"
    and store_fail: "tdb_store api db k v = (db', False) \<Longrightarrow> tdb_fetch api db' = tdb_fetch api db"
    and delete_ok: "tdb_delete api db k = (db', True) \<Longrightarrow> tdb_fetch api db' = (tdb_fetch api db)(k := None)"
    and delete_fail: "tdb_delete api db k = (db', False) \<Longrightarrow> tdb_fetch api db' = tdb_fetch api db"
    and traverse_all: "map_of (tdb_traverse api db) = tdb_fetch api db"
    and traverse_distinct: "distinct (map fst (tdb_traverse api db))"
    and start_ok: "tdb_transaction_start api db = (db', True) \<Longrightarrow>
      tdb_fetch api db' = tdb_fetch api db \<and> saved db' = tdb_fetch api db \<and> in_txn db'"
    and write_saved: "tdb_write api db db' \<Longrightarrow> in_txn db \<Longrightarrow> saved db' = saved db \<and> in_txn db'"
    and cancel_saved: "in_txn db \<Longrightarrow> tdb_fetch api (tdb_transaction_cancel api db) = saved db"
    and commit_ok: "in_txn db \<Longrightarrow> tdb_transaction_commit api db = (db', True) \<Longrightarrow>
      tdb_fetch api db' = tdb_fetch api db"
    and commit_fail: "in_txn db \<Longrightarrow> tdb_transaction_commit api db = (db', False) \<Longrightarrow>
      tdb_fetch api db' = saved db"
begin

lemma traverse_iff: "(k, v) \<in> set (tdb_traverse api db) \<longleftrightarrow> tdb_fetch api db k = Some v"
  using traverse_distinct [of db] traverse_all [of db] by (metis map_of_is_SomeI map_of_SomeD)

lemma writes_saved: "(tdb_write api)\<^sup>*\<^sup>* db db' \<Longrightarrow> in_txn db \<Longrightarrow> saved db' = saved db \<and> in_txn db'"
  by (induction rule: rtranclp_induct) (use write_saved in auto)

lemma store_write: "tdb_store api db k v = (db', ok) \<Longrightarrow> (tdb_write api)\<^sup>*\<^sup>* db db'"
  by (metis fst_conv r_into_rtranclp write_store)

lemma delete_write: "tdb_delete api db k = (db', ok) \<Longrightarrow> (tdb_write api)\<^sup>*\<^sup>* db db'"
  by (metis fst_conv r_into_rtranclp write_delete)

text \<open>A cancelled transaction leaves no trace; a committed one is all or nothing.\<close>

lemma cancel_restores:
  assumes "tdb_transaction_start api db = (db1, True)" and "(tdb_write api)\<^sup>*\<^sup>* db1 db2"
  shows "tdb_fetch api (tdb_transaction_cancel api db2) = tdb_fetch api db"
proof -
  have "saved db2 = tdb_fetch api db" and "in_txn db2"
    using start_ok [OF assms(1)] writes_saved [OF assms(2)] by auto
  then show ?thesis
    using cancel_saved by simp
qed

lemma commit_atomic:
  assumes "tdb_transaction_start api db = (db1, True)" and "(tdb_write api)\<^sup>*\<^sup>* db1 db2"
    and "tdb_transaction_commit api db2 = (db3, ok)"
  shows "tdb_fetch api db3 = (if ok then tdb_fetch api db2 else tdb_fetch api db)"
proof -
  have "saved db2 = tdb_fetch api db" and "in_txn db2"
    using start_ok [OF assms(1)] writes_saved [OF assms(2)] by auto
  then show ?thesis
    using commit_ok commit_fail assms(3) by (cases ok) auto
qed

end

section \<open>The interface of a record table\<close>

text \<open>
  \<open>load\<close> reads the record of a key, \<open>save\<close> writes one; \<open>wf\<close> says which records survive.
\<close>

locale record_store =
  fixes load :: "'db \<Rightarrow> 'k \<Rightarrow> 'v option"
    and save :: "'db \<Rightarrow> 'k \<Rightarrow> 'v \<Rightarrow> 'db \<times> bool"
    and wf :: "'k \<Rightarrow> 'v \<Rightarrow> bool"
  assumes load_save: "wf k v \<Longrightarrow> save db k v = (db', True) \<Longrightarrow> load db' k = Some v"
    and load_save_other: "k' \<noteq> k \<Longrightarrow> save db k v = (db', ok) \<Longrightarrow> load db' k' = load db k'"
    and load_save_fail: "save db k v = (db', False) \<Longrightarrow> load db' = load db"
begin

lemma load_save_map:
  assumes "wf k v" and "save db k v = (db', ok)"
  shows "load db' = (if ok then (load db)(k \<mapsto> v) else load db)"
proof (cases ok)
  case True
  show ?thesis
  proof
    fix k'
    show "load db' k' = (if ok then (load db)(k \<mapsto> v) else load db) k'"
      using assms True by (cases "k' = k") (auto dest: load_save load_save_other)
  qed
next
  case False
  then show ?thesis
    using assms load_save_fail by simp
qed

text \<open>A read-modify-write of one record changes that record only.\<close>

lemma load_modify_save:
  assumes "load db k = Some v" and "wf k (f v)" and "save db k (f v) = (db', True)"
  shows "load db' = (load db)(k := map_option f (load db k))"
  using assms load_save_map [OF assms(2,3)] by simp

end

section \<open>A reference implementation\<close>

text \<open>
  An in-memory database that satisfies the laws: it shows that they are consistent, and the
  concrete examples of the development run on it.
\<close>

record mem_db =
  mem_recs :: "(bytes \<times> bytes) list"
  mem_saved :: "(bytes \<times> bytes) list"
  mem_txn :: bool

definition mem_api :: "mem_db tdb_api" where
  "mem_api = \<lparr>
     tdb_fetch = (\<lambda>db k. map_of (mem_recs db) k),
     tdb_store = (\<lambda>db k v. (db\<lparr>mem_recs := AList.update k v (mem_recs db)\<rparr>, True)),
     tdb_delete = (\<lambda>db k. if map_of (mem_recs db) k = None then (db, False)
                         else (db\<lparr>mem_recs := AList.delete k (mem_recs db)\<rparr>, True)),
     tdb_traverse = (\<lambda>db. AList.clearjunk (mem_recs db)),
     tdb_transaction_start = (\<lambda>db. if mem_txn db then (db, False)
                                   else (db\<lparr>mem_saved := mem_recs db, mem_txn := True\<rparr>, True)),
     tdb_transaction_cancel = (\<lambda>db. db\<lparr>mem_recs := mem_saved db, mem_txn := False\<rparr>),
     tdb_transaction_commit = (\<lambda>db. (db\<lparr>mem_txn := False\<rparr>, True))\<rparr>"

definition mem_empty :: mem_db where
  "mem_empty = \<lparr>mem_recs = [], mem_saved = [], mem_txn = False\<rparr>"

lemma mem_api_sel [simp]:
  "tdb_fetch mem_api db = map_of (mem_recs db)"
  "tdb_store mem_api db k v = (db\<lparr>mem_recs := AList.update k v (mem_recs db)\<rparr>, True)"
  "tdb_delete mem_api db k = (if map_of (mem_recs db) k = None then (db, False)
     else (db\<lparr>mem_recs := AList.delete k (mem_recs db)\<rparr>, True))"
  "tdb_traverse mem_api db = AList.clearjunk (mem_recs db)"
  "tdb_transaction_start mem_api db = (if mem_txn db then (db, False)
     else (db\<lparr>mem_saved := mem_recs db, mem_txn := True\<rparr>, True))"
  "tdb_transaction_cancel mem_api db = db\<lparr>mem_recs := mem_saved db, mem_txn := False\<rparr>"
  "tdb_transaction_commit mem_api db = (db\<lparr>mem_txn := False\<rparr>, True)"
  by (simp_all add: mem_api_def)

interpretation mem_tdb: tdb mem_api "\<lambda>db. map_of (mem_saved db)" mem_txn
proof unfold_locales
  fix db db' k v
  show "tdb_store mem_api db k v = (db', True) \<Longrightarrow>
      tdb_fetch mem_api db' = (tdb_fetch mem_api db)(k \<mapsto> v)"
    by (auto simp: update_conv')
  show "tdb_delete mem_api db k = (db', True) \<Longrightarrow>
      tdb_fetch mem_api db' = (tdb_fetch mem_api db)(k := None)"
    by (auto simp: delete_conv' split: if_splits)
  show "tdb_write mem_api db db' \<Longrightarrow> mem_txn db \<Longrightarrow>
      map_of (mem_saved db') = map_of (mem_saved db) \<and> mem_txn db'"
    by (auto elim!: tdb_write.cases split: if_splits)
qed (auto simp: map_of_clearjunk distinct_clearjunk split: if_splits)

end
