(* ===== verification/Keydb.thy ===== *)
theory Keydb
  imports Tdb
begin

text \<open>
  \<open>keydb.h\<close> and \<open>keydb.cpp\<close>: the records of \<open>keys.tdb\<close>, one per port pair, keyed by the
  engineer port \<open>port2\<close> as a 4-byte integer, in an append-only layout. \<open>int\<close> and \<open>float\<close>
  fields are carried as their 32 bits.
\<close>

definition KEY_MAGIC :: u64 where
  "KEY_MAGIC = 0x6b73e867a72cdd1f"

definition KEYENTRY_MIN_SIZE :: nat where
  "KEYENTRY_MIN_SIZE = 96"

definition KEY_FLAG_ADMIN :: u32 where
  "KEY_FLAG_ADMIN = push_bit 0 1"

definition KEY_FLAG_BIDI_SIGN :: u32 where
  "KEY_FLAG_BIDI_SIGN = push_bit 1 1"

definition KEY_FLAG_TLOG :: u32 where
  "KEY_FLAG_TLOG = push_bit 2 1"

definition KEY_FLAG_BINLOG :: u32 where
  "KEY_FLAG_BINLOG = push_bit 3 1"

record key_entry =
  ke_magic :: u64
  ke_timestamp :: u64
  ke_secret_key :: bytes
  ke_port1 :: u32
  ke_connections :: u32
  ke_count1 :: u32
  ke_count2 :: u32
  ke_name :: bytes
  ke_flags :: u32
  ke_log_retention_days :: u32
  ke_fc_sysid :: u32
  ke_reserved :: "u32 list"

definition sizeof_KeyEntry :: nat where
  "sizeof_KeyEntry = 168"

text \<open>The arrays of the struct have their declared lengths.\<close>

definition wf_KeyEntry :: "key_entry \<Rightarrow> bool" where
  "wf_KeyEntry ke \<longleftrightarrow>
     length (ke_secret_key ke) = 32 \<and> length (ke_name ke) = 32 \<and> length (ke_reserved ke) = 15"

definition enc_KeyEntry :: "key_entry \<Rightarrow> bytes" where
  "enc_KeyEntry ke =
     word_le (ke_magic ke) @ word_le (ke_timestamp ke) @ ke_secret_key ke @
     word_le (ke_port1 ke) @ word_le (ke_connections ke) @ word_le (ke_count1 ke) @
     word_le (ke_count2 ke) @ ke_name ke @ word_le (ke_flags ke) @
     word_le (ke_log_retention_days ke) @ word_le (ke_fc_sysid ke) @
     concat (map word_le (ke_reserved ke))"

definition dec_KeyEntry :: "bytes \<Rightarrow> key_entry" where
  "dec_KeyEntry bs = \<lparr>
     ke_magic = le_word (field bs 0 8),
     ke_timestamp = le_word (field bs 8 8),
     ke_secret_key = field bs 16 32,
     ke_port1 = le_word (field bs 48 4),
     ke_connections = le_word (field bs 52 4),
     ke_count1 = le_word (field bs 56 4),
     ke_count2 = le_word (field bs 60 4),
     ke_name = field bs 64 32,
     ke_flags = le_word (field bs 96 4),
     ke_log_retention_days = le_word (field bs 100 4),
     ke_fc_sysid = le_word (field bs 104 4),
     ke_reserved = map (\<lambda>i. le_word (field bs (108 + 4 * i) 4)) [0..<15]\<rparr>"

section \<open>The memory image\<close>

lemma length_concat_words:
  "length (concat (map word_le (ws :: u32 list))) = 4 * length ws"
  by (induction ws) auto

lemma concat_words_nth:
  "i < length ws \<Longrightarrow> field (concat (map word_le (ws :: u32 list)) @ rest) (4 * i) 4 = word_le (ws ! i)"
proof (induction ws arbitrary: i)
  case Nil
  then show ?case by simp
next
  case (Cons w ws)
  show ?case
  proof (cases i)
    case 0
    then show ?thesis by (simp add: codec_simps)
  next
    case (Suc j)
    then show ?thesis
      using Cons by (simp add: codec_simps)
  qed
qed

lemma concat_words_map:
  "map (\<lambda>i. le_word (field (concat (map word_le (ws :: u32 list)) @ rest) (4 * i) 4)) [0..<length ws] = ws"
  by (rule nth_equalityI) (simp_all add: concat_words_nth)

lemma length_enc_KeyEntry [codec_simps]:
  "wf_KeyEntry ke \<Longrightarrow> length (enc_KeyEntry ke) = sizeof_KeyEntry"
  by (simp add: enc_KeyEntry_def wf_KeyEntry_def sizeof_KeyEntry_def length_concat_words)

lemma dec_enc_KeyEntry:
  assumes "wf_KeyEntry ke"
  shows "dec_KeyEntry (enc_KeyEntry ke @ rest) = ke"
proof -
  have "map (\<lambda>i. le_word (field (enc_KeyEntry ke @ rest) (108 + 4 * i) 4)) [0..<15] = ke_reserved ke"
    using assms concat_words_map [of "ke_reserved ke" rest]
    by (simp add: enc_KeyEntry_def wf_KeyEntry_def codec_simps)
  then show ?thesis
    using assms by (simp add: dec_KeyEntry_def enc_KeyEntry_def wf_KeyEntry_def codec_simps)
qed

interpretation key_codec: codec enc_KeyEntry dec_KeyEntry wf_KeyEntry
  by unfold_locales (rule dec_enc_KeyEntry)

lemma wf_dec_KeyEntry: "sizeof_KeyEntry \<le> length bs \<Longrightarrow> wf_KeyEntry (dec_KeyEntry bs)"
  by (simp add: wf_KeyEntry_def dec_KeyEntry_def field_def sizeof_KeyEntry_def)

section \<open>Opening and closing\<close>

text \<open>
  \<open>tdb_open\<close> either fails (\<open>None\<close>) or gives a handle. \<open>db_open_transaction\<close> ignores the
  result of \<open>tdb_transaction_start\<close>; \<open>db_close_commit\<close> ignores that of the commit. What is
  left of the handle after \<open>tdb_close\<close> is the file.
\<close>

definition db_open :: "'db option \<Rightarrow> 'db option" where
  "db_open opened = opened"

definition db_open_transaction :: "'db tdb_api \<Rightarrow> 'db option \<Rightarrow> 'db option" where
  "db_open_transaction api opened =
     (case db_open opened of None \<Rightarrow> None | Some db \<Rightarrow> Some (fst (tdb_transaction_start api db)))"

definition db_close :: "'db \<Rightarrow> 'db" where
  "db_close db = db"

definition db_close_cancel :: "'db tdb_api \<Rightarrow> 'db \<Rightarrow> 'db" where
  "db_close_cancel api db = db_close (tdb_transaction_cancel api db)"

definition db_close_commit :: "'db tdb_api \<Rightarrow> 'db \<Rightarrow> 'db" where
  "db_close_commit api db = db_close (fst (tdb_transaction_commit api db))"

section \<open>Loading and saving a record\<close>

definition port_key :: "u32 \<Rightarrow> bytes" where
  "port_key port2 = word_le port2"

text \<open>The out-parameter \<open>key\<close> is passed in and returned: a failed magic check has overwritten it.\<close>

definition db_load_key :: "'db tdb_api \<Rightarrow> 'db \<Rightarrow> u32 \<Rightarrow> key_entry \<Rightarrow> bool \<times> key_entry" where
  "db_load_key api db port2 key =
     (case tdb_fetch api db (port_key port2) of
        None \<Rightarrow> (False, key)
      | Some d \<Rightarrow>
          if length d < KEYENTRY_MIN_SIZE then (False, key)
          else let key' = dec_KeyEntry (zero_pad sizeof_KeyEntry d)
               in (ke_magic key' = KEY_MAGIC, key'))"

text \<open>\<open>malloc_ok n\<close>: whether \<open>malloc(n)\<close> succeeds.\<close>

definition db_save_key ::
  "'db tdb_api \<Rightarrow> (nat \<Rightarrow> bool) \<Rightarrow> 'db \<Rightarrow> u32 \<Rightarrow> key_entry \<Rightarrow> 'db \<times> bool" where
  "db_save_key api malloc_ok db port2 ke =
     (let orig = (case tdb_fetch api db (port_key port2) of None \<Rightarrow> [] | Some d \<Rightarrow> d);
          tail_len = (if length orig > sizeof_KeyEntry then length orig - sizeof_KeyEntry else 0);
          total = sizeof_KeyEntry + tail_len
      in if \<not> malloc_ok total then (db, False)
         else tdb_store api db (port_key port2)
                (enc_KeyEntry ke @ take tail_len (drop sizeof_KeyEntry orig)))"

definition key_of :: "'db tdb_api \<Rightarrow> 'db \<Rightarrow> u32 \<Rightarrow> key_entry option" where
  "key_of api db port2 =
     (let (ok, ke) = db_load_key api db port2 (dec_KeyEntry []) in if ok then Some ke else None)"

lemma port_key_inject [simp]: "port_key p = port_key q \<longleftrightarrow> p = q"
  by (simp add: port_key_def word_le_inject_32)

lemma key_of_alt:
  "key_of api db port2 =
     (case tdb_fetch api db (port_key port2) of
        None \<Rightarrow> None
      | Some d \<Rightarrow> if length d \<ge> KEYENTRY_MIN_SIZE
                    \<and> ke_magic (dec_KeyEntry (zero_pad sizeof_KeyEntry d)) = KEY_MAGIC
                 then Some (dec_KeyEntry (zero_pad sizeof_KeyEntry d)) else None)"
  by (simp add: key_of_def db_load_key_def Let_def split: option.split)

lemma db_load_key_iff:
  "db_load_key api db port2 key = (True, ke) \<longleftrightarrow> key_of api db port2 = Some ke"
  by (auto simp: key_of_alt db_load_key_def Let_def split: option.splits if_splits)

lemma wf_key_of: "key_of api db port2 = Some ke \<Longrightarrow> wf_KeyEntry ke"
  by (auto simp: key_of_alt wf_dec_KeyEntry split: option.splits if_splits)

lemma save_image:
  "wf_KeyEntry ke \<Longrightarrow>
   zero_pad sizeof_KeyEntry (enc_KeyEntry ke @ rest) = enc_KeyEntry ke"
  by (simp add: zero_pad_long length_enc_KeyEntry)

lemma min_size_le [simp]: "KEYENTRY_MIN_SIZE \<le> sizeof_KeyEntry + n"
  by (simp add: KEYENTRY_MIN_SIZE_def sizeof_KeyEntry_def)

lemma min_size_le_0 [simp]: "KEYENTRY_MIN_SIZE \<le> sizeof_KeyEntry"
  by (simp add: KEYENTRY_MIN_SIZE_def sizeof_KeyEntry_def)

context tdb
begin

lemma db_save_key_cases:
  assumes "db_save_key api malloc_ok db port2 ke = (db', ok)"
  obtains (kept) "\<not> ok" and "tdb_fetch api db' = tdb_fetch api db"
  | (stored) rest where "ok" and
      "tdb_fetch api db' = (tdb_fetch api db)(port_key port2 \<mapsto> enc_KeyEntry ke @ rest)"
  using assms store_ok store_fail
  by (cases ok) (auto simp: db_save_key_def Let_def split: if_splits)

lemma db_save_key_write:
  "db_save_key api malloc_ok db port2 ke = (db', ok) \<Longrightarrow> (tdb_write api)\<^sup>*\<^sup>* db db'"
  by (auto simp: db_save_key_def Let_def intro: store_write split: if_splits)

lemma key_save_load:
  assumes "wf_KeyEntry ke" and "ke_magic ke = KEY_MAGIC"
    and "db_save_key api malloc_ok db port2 ke = (db', True)"
  shows "key_of api db' port2 = Some ke"
  using assms(3)
proof (cases rule: db_save_key_cases)
  case (stored rest)
  then show ?thesis
    using assms(1,2) key_codec.dec_enc_exact [OF assms(1)]
    by (simp add: key_of_alt save_image length_enc_KeyEntry)
qed simp

lemma db_save_key_fetch_other:
  assumes "p \<noteq> port2" and "db_save_key api malloc_ok db port2 ke = (db', ok)"
  shows "tdb_fetch api db' (port_key p) = tdb_fetch api db (port_key p)"
  using assms(2) by (cases rule: db_save_key_cases) (use assms(1) in simp_all)

lemma key_save_other:
  assumes "p \<noteq> port2" and "db_save_key api malloc_ok db port2 ke = (db', ok)"
  shows "key_of api db' p = key_of api db p"
  using db_save_key_fetch_other [OF assms] by (simp add: key_of_alt)

lemma key_save_fail:
  assumes "db_save_key api malloc_ok db port2 ke = (db', False)"
  shows "key_of api db' = key_of api db"
  using assms by (cases rule: db_save_key_cases) (simp_all add: key_of_alt fun_eq_iff)

text \<open>One transaction that changes the record of one port, or is given up.\<close>

lemma key_of_cong: "tdb_fetch api db' = tdb_fetch api db \<Longrightarrow> key_of api db' = key_of api db"
  by (simp add: key_of_alt fun_eq_iff)

lemma key_txn_cancel:
  assumes "tdb_transaction_start api db = (db1, True)" and "(tdb_write api)\<^sup>*\<^sup>* db1 db2"
  shows "key_of api (db_close_cancel api db2) = key_of api db"
  using cancel_restores [OF assms] by (intro key_of_cong) (simp add: db_close_cancel_def db_close_def)

lemma key_txn_commit:
  assumes start: "tdb_transaction_start api db = (db1, True)"
    and wf: "wf_KeyEntry ke" "ke_magic ke = KEY_MAGIC"
    and save: "db_save_key api malloc_ok db1 port2 ke = (db2, ok)"
    and commit: "tdb_transaction_commit api db2 = (db3, committed)"
  shows "key_of api (db_close_commit api db2) =
    (if ok \<and> committed then (key_of api db)(port2 \<mapsto> ke) else key_of api db)"
proof -
  have d1: "key_of api db1 = key_of api db"
    using start_ok [OF start] by (intro key_of_cong) simp
  have d2: "key_of api db2 = (if ok then (key_of api db1)(port2 \<mapsto> ke) else key_of api db1)"
  proof (cases ok)
    case True
    have "key_of api db2 p = (if p = port2 then Some ke else key_of api db1 p)" for p
      using True key_save_load [OF wf] key_save_other [of p port2] save by (cases "p = port2") auto
    then show ?thesis
      using True by (simp add: fun_eq_iff)
  next
    case False
    then show ?thesis
      using key_save_fail save by simp
  qed
  have at: "tdb_fetch api db3 = (if committed then tdb_fetch api db2 else tdb_fetch api db)"
    by (rule commit_atomic [OF start db_save_key_write [OF save] commit])
  have "key_of api db3 = (if committed then key_of api db2 else key_of api db)"
    using key_of_cong [of db3 db2] key_of_cong [of db3 db] at by (cases committed) simp_all
  moreover have "db_close_commit api db2 = db3"
    using commit by (simp add: db_close_commit_def db_close_def)
  ultimately show ?thesis
    using d1 d2 by simp
qed

end

sublocale tdb \<subseteq> keys: record_store "key_of api" "db_save_key api malloc_ok"
  "\<lambda>_ ke. wf_KeyEntry ke \<and> ke_magic ke = KEY_MAGIC" for malloc_ok
  by unfold_locales (auto intro: key_save_load key_save_other dest: key_save_fail)

section \<open>Traversals of the table\<close>

lemma port_key_iff: "length k = 4 \<and> le_word k = port2 \<longleftrightarrow> k = port_key port2"
  using word_le_le_word [of k, where ?'a = 32] by (auto simp: port_key_def)

text \<open>
  A \<open>tdb_traverse\<close> callback over \<open>keys.tdb\<close> that acts on the part of its state that belongs to
  the record's own port: \<open>view s p\<close> is that part, \<open>own p d v\<close> what a record with data \<open>d\<close> makes of it.
\<close>

locale port_traversal =
  fixes cb :: "bytes \<times> bytes \<Rightarrow> 's \<Rightarrow> 's"
    and view :: "'s \<Rightarrow> u32 \<Rightarrow> 'v"
    and own :: "u32 \<Rightarrow> bytes \<Rightarrow> 'v \<Rightarrow> 'v"
  assumes cb_other: "k \<noteq> port_key p \<Longrightarrow> view (cb (k, d) s) p = view s p"
    and cb_own: "view (cb (port_key p, d) s) p = own p d (view s p)"
begin

lemma fold_other: "port_key p \<notin> fst ` set recs \<Longrightarrow> view (fold cb recs s) p = view s p"
  by (induction recs arbitrary: s) (auto simp: cb_other)

lemma fold_view:
  assumes "distinct (map fst recs)"
  shows "view (fold cb recs s) p =
    (case map_of recs (port_key p) of None \<Rightarrow> view s p | Some d \<Rightarrow> own p d (view s p))"
  using assms
proof (induction recs arbitrary: s)
  case Nil
  then show ?case by simp
next
  case (Cons r recs)
  obtain k d where r: "r = (k, d)" by (rule prod.exhaust)
  show ?case
    using Cons fold_other [of p recs]
    by (cases "k = port_key p") (auto simp: r cb_own cb_other split: option.split)
qed

end

section \<open>Properties\<close>

text \<open>A record with every field set, for the concrete examples.\<close>

definition sample_entry :: key_entry where
  "sample_entry = \<lparr>ke_magic = KEY_MAGIC, ke_timestamp = 7, ke_secret_key = replicate 32 9,
     ke_port1 = 10001, ke_connections = 3, ke_count1 = 4, ke_count2 = 5,
     ke_name = replicate 32 65, ke_flags = 12, ke_log_retention_days = 1,
     ke_fc_sysid = 1, ke_reserved = replicate 15 8\<rparr>"

lemma wf_sample_entry [simp]: "wf_KeyEntry sample_entry" "ke_magic sample_entry = KEY_MAGIC"
  by (simp_all add: sample_entry_def wf_KeyEntry_def)

text \<open>
  C38: a successful \<open>db_save_key\<close> of a well-formed entry makes \<open>db_load_key\<close> return exactly that
  entry for its port, and changes what is loaded for no other port.
\<close>

theorem db_save_key_then_load:
  assumes "tdb api saved in_txn" and "wf_KeyEntry ke" and "ke_magic ke = KEY_MAGIC"
    and "db_save_key api malloc_ok db port2 ke = (db', True)"
  shows "db_load_key api db' p key =
    (if p = port2 then (True, ke) else db_load_key api db p key)"
proof (cases "p = port2")
  case True
  then show ?thesis
    using tdb.key_save_load [OF assms] by (simp add: db_load_key_iff)
next
  case False
  then show ?thesis
    using tdb.db_save_key_fetch_other [OF assms(1) False assms(4)] by (simp add: db_load_key_def)
qed

theorem db_save_key_then_load_witness:
  "\<forall>p key. db_load_key mem_api (fst (db_save_key mem_api (\<lambda>_. True) mem_empty 10002 sample_entry)) p key =
     (if p = 10002 then (True, sample_entry) else db_load_key mem_api mem_empty p key)"
proof (intro allI)
  fix p key
  have "db_save_key mem_api (\<lambda>_. True) mem_empty 10002 sample_entry =
      (fst (db_save_key mem_api (\<lambda>_. True) mem_empty 10002 sample_entry), True)"
    by (simp add: db_save_key_def)
  then show "db_load_key mem_api (fst (db_save_key mem_api (\<lambda>_. True) mem_empty 10002 sample_entry)) p key =
     (if p = 10002 then (True, sample_entry) else db_load_key mem_api mem_empty p key)"
    by (rule db_save_key_then_load [OF mem_tdb.tdb_axioms wf_sample_entry])
qed

text \<open>
  writers never truncate: a successful save replaces the first 168 bytes of an on-disk record
  and keeps every byte a newer program appended after them.
\<close>

theorem db_save_key_keeps_tail:
  assumes "tdb api saved in_txn" and "wf_KeyEntry ke"
    and "db_save_key api malloc_ok db port2 ke = (db', True)"
  shows "tdb_fetch api db' (port_key port2) =
    Some (enc_KeyEntry ke @ (case tdb_fetch api db (port_key port2) of
                               None \<Rightarrow> [] | Some d \<Rightarrow> drop sizeof_KeyEntry d))"
proof -
  let ?d = "case tdb_fetch api db (port_key port2) of None \<Rightarrow> [] | Some d \<Rightarrow> d"
  have "tdb_store api db (port_key port2) (enc_KeyEntry ke @ drop sizeof_KeyEntry ?d) = (db', True)"
    using assms(3) by (simp add: db_save_key_def Let_def split: if_splits)
  from tdb.store_ok [OF assms(1) this] show ?thesis
    by (simp split: option.split)
qed

theorem db_save_key_keeps_tail_witness:
  "\<exists>db'. db_save_key mem_api (\<lambda>_. True)
       (mem_empty\<lparr>mem_recs := [(port_key 7, enc_KeyEntry sample_entry @ [1, 2, 3])]\<rparr>) 7
       (sample_entry\<lparr>ke_count1 := 99\<rparr>) = (db', True)
     \<and> tdb_fetch mem_api db' (port_key 7) =
         Some (enc_KeyEntry (sample_entry\<lparr>ke_count1 := 99\<rparr>) @ [1, 2, 3])"
proof -
  let ?db = "mem_empty\<lparr>mem_recs := [(port_key 7, enc_KeyEntry sample_entry @ [1, 2, 3])]\<rparr>"
  let ?ke = "sample_entry\<lparr>ke_count1 := 99\<rparr>"
  have wf: "wf_KeyEntry ?ke"
    using wf_sample_entry(1) by (simp add: wf_KeyEntry_def)
  obtain db' where save: "db_save_key mem_api (\<lambda>_. True) ?db 7 ?ke = (db', True)"
    by (simp add: db_save_key_def)
  from db_save_key_keeps_tail [OF mem_tdb.tdb_axioms wf save] save show ?thesis
    by (simp add: length_enc_KeyEntry)
qed

text \<open>
  What a reader of this version sees of a record cut after the first \<open>n\<close> bytes: the fields that
  lie beyond are zero.
\<close>

definition upgraded :: "nat \<Rightarrow> key_entry \<Rightarrow> key_entry" where
  "upgraded n ke = ke\<lparr>
     ke_flags := (if n < 100 then 0 else ke_flags ke),
     ke_log_retention_days := (if n < 104 then 0 else ke_log_retention_days ke),
     ke_fc_sysid := (if n < 108 then 0 else ke_fc_sysid ke),
     ke_reserved := (if n < 168 then replicate 15 0 else ke_reserved ke)\<rparr>"

lemma field_cut:
  assumes "n \<le> length e" and "off + k \<le> N" and "off + k \<le> n \<or> n \<le> off"
  shows "field (zero_pad N (take n e)) off k = (if off + k \<le> n then field e off k else replicate k 0)"
  using assms by (auto simp: field_zero_pad_within field_zero_pad_beyond field_take)

lemma dec_KeyEntry_upgraded:
  assumes wf: "wf_KeyEntry ke" and n: "n \<in> {96, 100, 104, 108, 168}"
  shows "dec_KeyEntry (zero_pad sizeof_KeyEntry (take n (enc_KeyEntry ke))) = upgraded n ke"
proof -
  define e where "e = enc_KeyEntry ke"
  have len: "length e = 168"
    using wf by (simp add: e_def length_enc_KeyEntry sizeof_KeyEntry_def)
  have ke: "ke = dec_KeyEntry e"
    using key_codec.dec_enc_exact [OF wf] by (simp add: e_def)
  have reserved: "map (\<lambda>i. le_word (field (zero_pad 168 (take n e)) (108 + 4 * i) 4)) [0..<15]
      = (if n < 168 then replicate 15 (0 :: u32)
         else map (\<lambda>i. le_word (field e (108 + 4 * i) 4)) [0..<15])"
    by (rule nth_equalityI) (use n len in \<open>auto simp: field_cut\<close>)
  have "dec_KeyEntry (zero_pad 168 (take n e)) = upgraded n (dec_KeyEntry e)"
    unfolding dec_KeyEntry_def upgraded_def reserved
    using n by (elim insertE) (simp_all add: field_cut len)
  then show ?thesis
    by (simp add: sizeof_KeyEntry_def flip: ke e_def)
qed

text \<open>
  forward compatibility: a record written with an older, shorter layout (96 bytes before the
  flags, then with each later field) loads with its own fields and zeroes for the newer ones;
  anything shorter than 96 bytes is rejected.
\<close>

theorem db_load_key_older_layout:
  assumes "wf_KeyEntry ke" and "ke_magic ke = KEY_MAGIC"
    and "tdb_fetch api db (port_key port2) = Some (take n (enc_KeyEntry ke))"
    and "n < 96 \<or> n \<in> {96, 100, 104, 108, 168}"
  shows "db_load_key api db port2 key = (if n < 96 then (False, key) else (True, upgraded n ke))"
proof (cases "n < 96")
  case True
  then have "length (take n (enc_KeyEntry ke)) < 96"
    by simp
  then show ?thesis
    using True assms(3) by (simp add: db_load_key_def KEYENTRY_MIN_SIZE_def del: length_take)
next
  case False
  then have n: "n \<in> {96, 100, 104, 108, 168}"
    using assms(4) by simp
  have "length (enc_KeyEntry ke) = 168"
    using assms(1) by (simp add: length_enc_KeyEntry sizeof_KeyEntry_def)
  moreover have "ke_magic (upgraded n ke) = KEY_MAGIC"
    using assms(2) by (simp add: upgraded_def)
  ultimately show ?thesis
    using False n assms(3) dec_KeyEntry_upgraded [OF assms(1) n]
    by (auto simp: db_load_key_def KEYENTRY_MIN_SIZE_def)
qed

theorem db_load_key_older_layout_witness:
  "db_load_key mem_api (mem_empty\<lparr>mem_recs := [(port_key 7, take 96 (enc_KeyEntry sample_entry))]\<rparr>) 7 sample_entry
     = (True, upgraded 96 sample_entry)"
  using db_load_key_older_layout [OF wf_sample_entry, of mem_api
      "mem_empty\<lparr>mem_recs := [(port_key 7, take 96 (enc_KeyEntry sample_entry))]\<rparr>" 7 96 sample_entry]
  by simp

end
