(* ===== verification/Mavlink.thy ===== *)
theory Mavlink
  imports Binlog Keydb
begin

text \<open>
  \<open>mavlink.h\<close> and \<open>mavlink.cpp\<close>: one MAVLink link of a port pair, with the signing rules of the
  support-engineer side. Links share the channel table of the generated MAVLink code (which
  signing record is attached to which channel) and the static array \<open>got_bad_signature\<close>.

  The generated code is a parameter (\<open>mav_lib\<close>): parsing a byte on a channel, finalising and
  serialising a message, packing a STATUSTEXT, decoding SETUP_SIGNING. So is the transport,
  through its send calls. What clock, kernel and file system answer during one call is
  its \<open>mav_env\<close>.
\<close>

section \<open>Constants\<close>

definition MAX_COMM2_LINKS :: nat where "MAX_COMM2_LINKS = 100"
definition MAVLINK_COMM_NUM_BUFFERS :: nat where "MAVLINK_COMM_NUM_BUFFERS = MAX_COMM2_LINKS + 2"
definition CHAN_COMM1 :: nat where "CHAN_COMM1 = 0"
definition CHAN_STATUSTEXT :: nat where "CHAN_STATUSTEXT = 1"
definition CHAN_COMM2 :: "nat \<Rightarrow> nat" where "CHAN_COMM2 i = 2 + i"

definition MAVLINK_IFLAG_SIGNED :: u8 where "MAVLINK_IFLAG_SIGNED = 1"
definition MAVLINK_SIGNING_FLAG_SIGN_OUTGOING :: u8 where "MAVLINK_SIGNING_FLAG_SIGN_OUTGOING = 1"
definition MAVLINK_MSG_ID_HEARTBEAT :: u32 where "MAVLINK_MSG_ID_HEARTBEAT = 0"
definition MAVLINK_MSG_ID_SETUP_SIGNING :: u32 where "MAVLINK_MSG_ID_SETUP_SIGNING = 256"
definition MAV_SEVERITY_CRITICAL :: u8 where "MAV_SEVERITY_CRITICAL = 2"
definition STATUSTEXT_LEN :: nat where "STATUSTEXT_LEN = 50"

text \<open>2015-01-01 UTC in seconds since 1970; signing time counts 10 microsecond units from there.\<close>

definition epoch_offset :: u64 where "epoch_offset = 1420070400"
definition units_per_s :: u64 where "units_per_s = 100 * 1000"

section \<open>State\<close>

datatype signing_status = Sign_none | Sign_ok | Sign_bad_signature | Sign_no_streams
  | Sign_too_many_streams | Sign_old_timestamp | Sign_replay

record signing =
  sg_secret_key :: bytes
  sg_link_id :: u8
  sg_timestamp :: u64
  sg_flags :: u8
  sg_last_status :: signing_status

definition zero_signing :: signing where
  "zero_signing = \<lparr>sg_secret_key = replicate 32 0, sg_link_id = 0, sg_timestamp = 0, sg_flags = 0,
     sg_last_status = Sign_none\<rparr>"

record mavlink =
  mv_key :: key_entry
  mv_chan :: nat
  mv_key_id :: int
  mv_is_tcp :: bool
  mv_key_loaded :: bool
  mv_got_signed_packet :: bool
  mv_allow_websocket :: bool
  mv_sendto :: "(u32 \<times> u16) option"     \<comment> \<open>\<open>use_sendto\<close> and \<open>send_addr\<close>\<close>
  mv_last_signing_save :: usec
  mv_last_signing_warning :: usec
  mv_last_sysid :: u8
  mv_last_compid :: u8
  mv_bad_sig_count :: u32
  mv_fd :: int
  mv_ws :: "nat option"                  \<comment> \<open>which \<open>WebSocket\<close> object the pointer refers to\<close>

text \<open>
  The generated code's channel table: its private state, the \<open>signing\<close> record attached to each
  channel (\<open>None\<close>: \<open>nullptr\<close>), and the static \<open>got_bad_signature\<close>.
\<close>

record 'p mav_global =
  mg_lib :: 'p
  mg_signing :: "nat \<Rightarrow> signing option"
  mg_bad_sig :: "nat \<Rightarrow> bool"

record ('p, 'l, 'db) mav_state =
  ms_mav :: mavlink
  ms_glob :: "'p mav_global"
  ms_link :: 'l
  ms_db :: 'db
  ms_saves :: "(mavlink \<times> (nat \<Rightarrow> signing option)) list"   \<comment> \<open>children forked to save the timestamp\<close>
  ms_crashed :: bool                                             \<comment> \<open>a null database handle was used\<close>

section \<open>Parameters\<close>

text \<open>
  \<open>lib_parse\<close> returns a message when the byte completes one, with a flag that says whether the
  signature check rejected it and the accept-unsigned callback was called.
\<close>

record 'p mav_lib =
  lib_parse :: "'p \<Rightarrow> nat \<Rightarrow> signing option \<Rightarrow> byte \<Rightarrow> ('p \<times> signing option) \<times> (mavlink_msg \<times> bool) option"
  lib_lengths :: "u32 \<Rightarrow> nat \<times> nat"
  lib_finalize :: "'p \<Rightarrow> nat \<Rightarrow> signing option \<Rightarrow> mavlink_msg \<Rightarrow> ('p \<times> signing option) \<times> bytes"
  lib_statustext :: "'p \<Rightarrow> nat \<Rightarrow> signing option \<Rightarrow> u8 \<Rightarrow> u8 \<Rightarrow> u8 \<Rightarrow> string \<Rightarrow> ('p \<times> signing option) \<times> bytes"
  lib_setup_signing :: "mavlink_msg \<Rightarrow> u64 \<times> bytes"
  lib_to_buffer :: "mavlink_msg \<Rightarrow> bytes"
  lib_tserr :: "u64 \<Rightarrow> u64 \<Rightarrow> string"      \<comment> \<open>the difference in seconds, printed with \<open>%.2f\<close>\<close>

datatype route = Via_websocket nat | Via_sendto "u32 \<times> u16" | Via_socket int

record ('l, 'db) mav_env =
  en_send :: "route \<Rightarrow> bytes \<Rightarrow> 'l \<Rightarrow> 'l \<times> int"
  en_now :: usec
  en_dead :: bool              \<comment> \<open>\<open>socket_is_dead\<close>\<close>
  en_writable :: int           \<comment> \<open>\<open>tcp_writable_bytes\<close>\<close>
  en_db :: "'db tdb_api"
  en_db_open :: bool
  en_malloc :: "nat \<Rightarrow> bool"

section \<open>Sending bytes\<close>

definition send_route :: "mavlink \<Rightarrow> route" where
  "send_route m = (case mv_ws m of
     Some w \<Rightarrow> Via_websocket w
   | None \<Rightarrow> (case mv_sendto m of Some a \<Rightarrow> Via_sendto a | None \<Rightarrow> Via_socket (mv_fd m)))"

definition send_data ::
  "('l, 'db) mav_env \<Rightarrow> bytes \<Rightarrow> ('p, 'l, 'db) mav_state \<Rightarrow> ('p, 'l, 'db) mav_state \<times> int" where
  "send_data env buf st =
     (case en_send env (send_route (ms_mav st)) buf (ms_link st) of (l, r) \<Rightarrow> (st\<lparr>ms_link := l\<rparr>, r))"

definition send_buf ::
  "('l, 'db) mav_env \<Rightarrow> bytes \<Rightarrow> ('p, 'l, 'db) mav_state \<Rightarrow> ('p, 'l, 'db) mav_state \<times> int" where
  "send_buf env buf st = send_data env buf st"

text \<open>\<open>tlog_write_message\<close>; the clock and write results are those of \<open>tlog_write_frame\<close>.\<close>

definition tlog_write_message ::
  "'p mav_lib \<Rightarrow> u64 \<Rightarrow> u64 \<Rightarrow> nat option \<Rightarrow> nat option \<Rightarrow> bool \<Rightarrow> mavlink_msg \<Rightarrow> tlog_writer \<times> disk \<Rightarrow> tlog_writer \<times> disk" where
  "tlog_write_message lib sec us h f enabled msg st =
     (if \<not> enabled \<or> \<not> tlog_is_open (fst st) then st
      else let buf = lib_to_buffer lib msg in
        if length buf > 0 then tlog_write_frame sec us h f buf st else st)"

section \<open>The channel table\<close>

definition upd_mav :: "(mavlink \<Rightarrow> mavlink) \<Rightarrow> ('p, 'l, 'db) mav_state \<Rightarrow> ('p, 'l, 'db) mav_state" where
  "upd_mav f st = st\<lparr>ms_mav := f (ms_mav st)\<rparr>"

text \<open>Storing back what a library call made of its state and the channel's signing record.\<close>

definition put_channel ::
  "nat \<Rightarrow> 'p \<times> signing option \<Rightarrow> 'p mav_global \<Rightarrow> 'p mav_global" where
  "put_channel chan r g = g\<lparr>mg_lib := fst r, mg_signing := (mg_signing g)(chan := snd r)\<rparr>"

definition accept_unsigned_callback :: "nat \<Rightarrow> 'p mav_global \<Rightarrow> 'p mav_global" where
  "accept_unsigned_callback chan g = (case mg_signing g chan of
     None \<Rightarrow> g
   | Some sg \<Rightarrow> if unat (sg_link_id sg) < MAVLINK_COMM_NUM_BUFFERS
                then g\<lparr>mg_bad_sig := (mg_bad_sig g)(unat (sg_link_id sg) := True)\<rparr> else g)"

definition parse_char ::
  "'p mav_lib \<Rightarrow> byte \<Rightarrow> ('p, 'l, 'db) mav_state \<Rightarrow> ('p, 'l, 'db) mav_state \<times> mavlink_msg option" where
  "parse_char lib c st =
     (let g = ms_glob st; chan = mv_chan (ms_mav st) in
      case lib_parse lib (mg_lib g) chan (mg_signing g chan) c of (r, out) \<Rightarrow>
        let g1 = put_channel chan r g in
        (case out of
           None \<Rightarrow> (st\<lparr>ms_glob := g1\<rparr>, None)
         | Some (msg, rejected) \<Rightarrow>
             (st\<lparr>ms_glob := (if rejected then accept_unsigned_callback chan g1 else g1)\<rparr>, Some msg)))"

section \<open>Signing keys and timestamps\<close>

definition port_of :: "mavlink \<Rightarrow> u32" where
  "port_of m = word_of_int (mv_key_id m)"

definition load_key ::
  "('l, 'db) mav_env \<Rightarrow> 'db \<Rightarrow> mavlink \<Rightarrow> bool \<times> mavlink" where
  "load_key env db m =
     (case db_load_key (en_db env) db (port_of m) (mv_key m) of (ok, ke) \<Rightarrow> (ok, m\<lparr>mv_key := ke\<rparr>))"

definition save_key :: "('l, 'db) mav_env \<Rightarrow> 'db \<Rightarrow> mavlink \<Rightarrow> 'db \<times> bool" where
  "save_key env db m = db_save_key (en_db env) (en_malloc env) db (port_of m) (mv_key m)"

text \<open>Whole seconds of the clock as \<open>uint64_t\<close>, and the present signing time.\<close>

definition whole_s :: "usec \<Rightarrow> u64" where
  "whole_s now = word_of_int (now div 1000000)"

definition now_mavlink :: "usec \<Rightarrow> u64" where
  "now_mavlink now =
     (if now > seconds (uint epoch_offset)
      then word_of_int ((now - seconds (uint epoch_offset)) div 1000000) * 100 * 1000 else 0)"

definition all_zero_key :: "key_entry \<Rightarrow> bool" where
  "all_zero_key ke \<longleftrightarrow> ke_timestamp ke = 0 \<and> (\<forall>b \<in> set (ke_secret_key ke). b = 0)"

definition signing_of :: "key_entry \<Rightarrow> nat \<Rightarrow> usec \<Rightarrow> signing_status \<Rightarrow> signing" where
  "signing_of ke chan now last_st =
     (let loaded = ke_timestamp ke + 15 * 100 * 1000 in
      \<lparr>sg_secret_key = ke_secret_key ke, sg_link_id = of_nat chan,
       sg_timestamp = (if now_mavlink now > loaded then now_mavlink now else loaded),
       sg_flags = MAVLINK_SIGNING_FLAG_SIGN_OUTGOING, sg_last_status = last_st\<rparr>)"

definition load_signing_key ::
  "('l, 'db) mav_env \<Rightarrow> ('p, 'l, 'db) mav_state \<Rightarrow> ('p, 'l, 'db) mav_state" where
  "load_signing_key env st =
     (let m = ms_mav st; g = ms_glob st; chan = mv_chan m in
      if chan \<ge> MAVLINK_COMM_NUM_BUFFERS then st
      else if \<not> en_db_open env then st\<lparr>ms_crashed := True\<rparr>
      else case load_key env (ms_db st) m of (ok, m1) \<Rightarrow>
        if \<not> ok then st\<lparr>ms_mav := m1\<rparr>
        else let last_st = (case mg_signing g chan of None \<Rightarrow> Sign_none | Some s \<Rightarrow> sg_last_status s);
                 sg = signing_of (mv_key m1) chan (en_now env) last_st;
                 att = (if all_zero_key (mv_key m1) then None else Some sg)
             in st\<lparr>ms_mav := m1\<lparr>mv_key_loaded := True\<rparr>,
                   ms_glob := g\<lparr>mg_signing := (mg_signing g)(chan := att)\<rparr>\<rparr>)"

definition bump_timestamp :: "u64 \<Rightarrow> signing \<Rightarrow> signing" where
  "bump_timestamp ts sg = (if sg_timestamp sg < ts then sg\<lparr>sg_timestamp := ts\<rparr> else sg)"

definition update_signing_timestamp ::
  "('l, 'db) mav_env \<Rightarrow> ('p, 'l, 'db) mav_state \<Rightarrow> ('p, 'l, 'db) mav_state" where
  "update_signing_timestamp env st =
     (if en_now env - mv_last_signing_save (ms_mav st) < seconds 10 then st
      else let m = (ms_mav st)\<lparr>mv_last_signing_save := en_now env\<rparr>;
               s = whole_s (en_now env);
               s1 = (if s > epoch_offset then s - epoch_offset else s);
               ts = s1 * (100 * 1000);
               sgs = (\<lambda>c. if c < MAVLINK_COMM_NUM_BUFFERS
                          then map_option (bump_timestamp ts) (mg_signing (ms_glob st) c)
                          else mg_signing (ms_glob st) c)
           in st\<lparr>ms_mav := m, ms_glob := (ms_glob st)\<lparr>mg_signing := sgs\<rparr>,
                 ms_saves := ms_saves st @ [(m, sgs)]\<rparr>)"

text \<open>The child forked by \<open>update_signing_timestamp\<close>, at its own time, on the database of that time.\<close>

definition raise_timestamp :: "u64 \<Rightarrow> signing option \<Rightarrow> u64 \<times> bool \<Rightarrow> u64 \<times> bool" where
  "raise_timestamp now_mav sg tn = (case sg of
     None \<Rightarrow> tn
   | Some s \<Rightarrow> let v = (if sg_timestamp s > now_mav then now_mav else sg_timestamp s) in
       if v > fst tn then (v, True) else tn)"

definition save_signing_timestamp ::
  "('l, 'db) mav_env \<Rightarrow> mavlink \<times> (nat \<Rightarrow> signing option) \<Rightarrow> 'db \<Rightarrow> 'db" where
  "save_signing_timestamp env snap db =
     (case db_open_transaction (en_db env) (if en_db_open env then Some db else None) of
        None \<Rightarrow> db
      | Some db1 \<Rightarrow> (case load_key env db1 (fst snap) of (ok, m) \<Rightarrow>
          if \<not> ok then db_close_cancel (en_db env) db1
          else let (ts, need_save) =
                     fold (\<lambda>c. raise_timestamp (now_mavlink (en_now env)) (snd snap c))
                       [0..<MAVLINK_COMM_NUM_BUFFERS] (ke_timestamp (mv_key m), False);
                   m1 = m\<lparr>mv_key := (mv_key m)\<lparr>ke_timestamp := ts\<rparr>\<rparr>
               in if need_save
                  then db_close_commit (en_db env) (fst (save_key env db1 m1))
                  else db_close_cancel (en_db env) db1))"

section \<open>Opening a link\<close>

definition mav_init ::
  "('l, 'db) mav_env \<Rightarrow> int \<Rightarrow> nat \<Rightarrow> bool \<Rightarrow> bool \<Rightarrow> bool \<Rightarrow> int \<Rightarrow>
   ('p, 'l, 'db) mav_state \<Rightarrow> ('p, 'l, 'db) mav_state" where
  "mav_init env fd chan signing_required allow_ws tcp key_id st =
     (let m = (ms_mav st)\<lparr>mv_fd := fd, mv_chan := chan, mv_key_id := key_id, mv_is_tcp := tcp,
                mv_got_signed_packet := False, mv_key_loaded := False, mv_last_signing_save := 0,
                mv_last_signing_warning := 0, mv_last_sysid := 0, mv_last_compid := 0,
                mv_bad_sig_count := 0, mv_allow_websocket := allow_ws, mv_sendto := None\<rparr>;
          g = (ms_glob st)\<lparr>mg_bad_sig := (mg_bad_sig (ms_glob st))(chan := False),
                mg_signing := (mg_signing (ms_glob st))(chan := map_option (\<lambda>_. zero_signing) (mg_signing (ms_glob st) chan))\<rparr>;
          st1 = st\<lparr>ms_mav := m, ms_glob := g\<rparr>
      in if signing_required then update_signing_timestamp env (load_signing_key env st1) else st1)"

definition set_sendto :: "u32 \<times> u16 \<Rightarrow> mavlink \<Rightarrow> mavlink" where
  "set_sendto a m = m\<lparr>mv_sendto := Some a\<rparr>"

definition set_ws :: "nat \<Rightarrow> mavlink \<Rightarrow> mavlink" where
  "set_ws w m = m\<lparr>mv_ws := Some w\<rparr>"

section \<open>Warnings to the engineer\<close>

definition periodic_warning ::
  "('l, 'db) mav_env \<Rightarrow> ('p, 'l, 'db) mav_state \<Rightarrow> ('p, 'l, 'db) mav_state \<times> bool" where
  "periodic_warning env st =
     (if en_now env - mv_last_signing_warning (ms_mav st) > seconds 2
      then (upd_mav (\<lambda>m. m\<lparr>mv_last_signing_warning := en_now env\<rparr>) st, True) else (st, False))"

definition send_statustext ::
  "'p mav_lib \<Rightarrow> ('l, 'db) mav_env \<Rightarrow> nat \<Rightarrow> u8 \<Rightarrow> string \<Rightarrow> ('p, 'l, 'db) mav_state \<Rightarrow> ('p, 'l, 'db) mav_state" where
  "send_statustext lib env chan severity text st =
     (let m = ms_mav st; g = ms_glob st in
      case lib_statustext lib (mg_lib g) chan (mg_signing g chan) (mv_last_sysid m) (mv_last_compid m)
             severity text of (r, buf) \<Rightarrow>
        let st1 = st\<lparr>ms_glob := put_channel chan r g\<rparr> in
        if length buf > 0 then fst (send_data env buf st1) else st1)"

definition mav_printf ::
  "'p mav_lib \<Rightarrow> ('l, 'db) mav_env \<Rightarrow> u8 \<Rightarrow> string \<Rightarrow> ('p, 'l, 'db) mav_state \<Rightarrow> ('p, 'l, 'db) mav_state" where
  "mav_printf lib env severity fmt st =
     (let text = take STATUSTEXT_LEN fmt in
      send_statustext lib env (mv_chan (ms_mav st)) severity text
        (send_statustext lib env CHAN_STATUSTEXT severity text st))"

section \<open>Receiving\<close>

definition handle_setup_signing ::
  "'p mav_lib \<Rightarrow> ('l, 'db) mav_env \<Rightarrow> mavlink_msg \<Rightarrow> ('p, 'l, 'db) mav_state \<Rightarrow> ('p, 'l, 'db) mav_state" where
  "handle_setup_signing lib env msg st =
     (let (ts, key) = lib_setup_signing lib msg in
      case db_open_transaction (en_db env) (if en_db_open env then Some (ms_db st) else None) of
        None \<Rightarrow> st
      | Some db1 \<Rightarrow> (case load_key env db1 (ms_mav st) of (ok, m) \<Rightarrow>
          if \<not> ok then st\<lparr>ms_mav := m, ms_db := db_close_cancel (en_db env) db1\<rparr>
          else let m1 = m\<lparr>mv_key := (mv_key m)\<lparr>ke_timestamp := ts, ke_secret_key := take 32 key\<rparr>\<rparr>;
                   db2 = fst (save_key env db1 m1)
               in load_signing_key env
                    (st\<lparr>ms_mav := m1\<lparr>mv_got_signed_packet := False\<rparr>, ms_db := db_close_commit (en_db env) db2\<rparr>)))"

text \<open>The 6-byte timestamp of a signature, after the link id.\<close>

definition sig_tstamp :: "mavlink_msg \<Rightarrow> u64" where
  "sig_tstamp msg = le_word (field (m_signature msg) 1 6)"

text \<open>The warning for a rejected signature; \<open>None\<close>: dropped silently.\<close>

definition bad_signature_text ::
  "'p mav_lib \<Rightarrow> signing \<Rightarrow> mavlink_msg \<Rightarrow> mavlink \<Rightarrow> mavlink \<times> string option" where
  "bad_signature_text lib sg msg m =
     (let counted = m\<lparr>mv_bad_sig_count := mv_bad_sig_count m + 1\<rparr> in
      case sg_last_status sg of
        Sign_replay \<Rightarrow> (counted, if mv_bad_sig_count counted < 3 then None
                                 else Some ''Bad signing timestamp - replay'')
      | Sign_old_timestamp \<Rightarrow> (m, Some (''Bad signing timestamp - old timestamp ('' @
            lib_tserr lib (sig_tstamp msg) (sg_timestamp sg) @ ''s)''))
      | Sign_no_streams \<Rightarrow> (m, Some ''Bad signing timestamp - no streams'')
      | Sign_too_many_streams \<Rightarrow> (m, Some ''Bad signing timestamp - bad streams'')
      | _ \<Rightarrow> (counted, if mv_bad_sig_count counted < 3 then None else Some ''Bad support signing key''))"

text \<open>A periodic warning with a fixed text.\<close>

definition warn ::
  "'p mav_lib \<Rightarrow> ('l, 'db) mav_env \<Rightarrow> string \<Rightarrow> ('p, 'l, 'db) mav_state \<Rightarrow> ('p, 'l, 'db) mav_state" where
  "warn lib env text st = (case periodic_warning env st of (st1, due) \<Rightarrow>
     if due then mav_printf lib env MAV_SEVERITY_CRITICAL text st1 else st1)"

text \<open>
  The case of a rejected signature. When the warning is dropped silently the function returns
  before \<open>got_signed_packet\<close> is cleared.
\<close>

definition reject_signature ::
  "'p mav_lib \<Rightarrow> ('l, 'db) mav_env \<Rightarrow> mavlink_msg \<Rightarrow> ('p, 'l, 'db) mav_state \<Rightarrow> ('p, 'l, 'db) mav_state" where
  "reject_signature lib env msg st = (case periodic_warning env st of (st1, due) \<Rightarrow>
     let clear = upd_mav (\<lambda>m. m\<lparr>mv_got_signed_packet := False\<rparr>);
         sg = (case mg_signing (ms_glob st1) (mv_chan (ms_mav st1)) of None \<Rightarrow> zero_signing | Some s \<Rightarrow> s)
     in if \<not> due then clear st1
        else (case bad_signature_text lib sg msg (ms_mav st1) of
                (m1, None) \<Rightarrow> st1\<lparr>ms_mav := m1\<rparr>
              | (m1, Some text) \<Rightarrow> clear (mav_printf lib env MAV_SEVERITY_CRITICAL text (st1\<lparr>ms_mav := m1\<rparr>))))"

text \<open>What \<open>receive_message\<close> does with one parsed message; the flag is its return value.\<close>

definition check_message ::
  "'p mav_lib \<Rightarrow> ('l, 'db) mav_env \<Rightarrow> mavlink_msg \<Rightarrow> ('p, 'l, 'db) mav_state \<Rightarrow> ('p, 'l, 'db) mav_state \<times> bool" where
  "check_message lib env msg st =
     (let m = ms_mav st in
      if mv_key_id m = -1 then (st, True)
      else if \<not> mv_key_loaded m then (warn lib env ''Need to setup support signing key'' st, False)
      else if m_incompat_flags msg AND MAVLINK_IFLAG_SIGNED = 0
        then (upd_mav (\<lambda>m. m\<lparr>mv_got_signed_packet := False\<rparr>)
                (warn lib env ''Need to use support signing key'' st), False)
      else if mg_bad_sig (ms_glob st) (mv_chan m) then (reject_signature lib env msg st, False)
      else let st1 = upd_mav (\<lambda>m. m\<lparr>mv_bad_sig_count := 0, mv_got_signed_packet := True\<rparr>) st in
        if m_msgid msg = MAVLINK_MSG_ID_SETUP_SIGNING then (handle_setup_signing lib env msg st1, False)
        else (st1, True))"

fun receive_bytes ::
  "'p mav_lib \<Rightarrow> ('l, 'db) mav_env \<Rightarrow> bytes \<Rightarrow> ('p, 'l, 'db) mav_state \<Rightarrow>
   ('p, 'l, 'db) mav_state \<times> bytes \<times> mavlink_msg option" where
  "receive_bytes lib env [] st = (st, [], None)"
| "receive_bytes lib env (c # cs) st = (case parse_char lib c st of
     (st1, None) \<Rightarrow> receive_bytes lib env cs st1
   | (st1, Some msg) \<Rightarrow> (case check_message lib env msg st1 of
       (st2, ok) \<Rightarrow> (st2, cs, if ok then Some msg else None)))"

definition receive_message ::
  "'p mav_lib \<Rightarrow> ('l, 'db) mav_env \<Rightarrow> bytes \<Rightarrow> ('p, 'l, 'db) mav_state \<Rightarrow>
   ('p, 'l, 'db) mav_state \<times> bytes \<times> mavlink_msg option" where
  "receive_message lib env buf st =
     receive_bytes lib env buf
       (st\<lparr>ms_glob := (ms_glob st)\<lparr>mg_bad_sig := (mg_bad_sig (ms_glob st))(mv_chan (ms_mav st) := False)\<rparr>\<rparr>)"

section \<open>Sending a message\<close>

text \<open>The part behind the congestion and signing rules: finalise, serialise, send.\<close>

definition transmit ::
  "'p mav_lib \<Rightarrow> ('l, 'db) mav_env \<Rightarrow> mavlink_msg \<Rightarrow> ('p, 'l, 'db) mav_state \<Rightarrow> ('p, 'l, 'db) mav_state \<times> bool" where
  "transmit lib env msg st =
     (let g = ms_glob st; chan = mv_chan (ms_mav st) in
      if lib_lengths lib (m_msgid msg) = (0, 0) then (st, False)
      else if chan \<ge> MAVLINK_COMM_NUM_BUFFERS then (st, False)
      else case lib_finalize lib (mg_lib g) chan (mg_signing g chan) msg of (r, buf) \<Rightarrow>
        let st1 = st\<lparr>ms_glob := put_channel chan r g\<rparr> in
        if length buf > 0
        then (case send_data env buf st1 of (st2, n) \<Rightarrow> (st2, n = int (length buf)))
        else (st1, False))"

definition send_message ::
  "'p mav_lib \<Rightarrow> ('l, 'db) mav_env \<Rightarrow> mavlink_msg \<Rightarrow> ('p, 'l, 'db) mav_state \<Rightarrow> ('p, 'l, 'db) mav_state \<times> bool" where
  "send_message lib env msg st =
     (let m = ms_mav st in
      if mv_is_tcp m \<and> en_dead env then (st, False)
      else if mv_is_tcp m \<and> en_writable env < 400 then (st, True)
      else if mv_key_id m = -1
        then transmit lib env (msg\<lparr>m_incompat_flags := m_incompat_flags msg AND NOT MAVLINK_IFLAG_SIGNED\<rparr>) st
      else if \<not> mv_got_signed_packet m \<and> m_msgid msg \<noteq> MAVLINK_MSG_ID_HEARTBEAT then (st, True)
      else let st1 = (if m_msgid msg = MAVLINK_MSG_ID_HEARTBEAT
                      then upd_mav (\<lambda>m. m\<lparr>mv_last_sysid := m_sysid msg, mv_last_compid := m_compid msg\<rparr>) st
                      else st);
               st2 = (if mv_key_loaded m then update_signing_timestamp env st1 else st1)
           in transmit lib env (msg\<lparr>m_incompat_flags := m_incompat_flags msg OR MAVLINK_IFLAG_SIGNED\<rparr>) st2)"

end
