(* ===== verification/Conntdb.thy ===== *)
theory Conntdb
  imports Tdb
begin

text \<open>
  \<open>conntdb.h\<close> and \<open>conntdb.cpp\<close>: the live-connection table \<open>connections.tdb\<close>, one record per
  connection, keyed by \<open>ConnKey\<close> (port pair and slot index).
\<close>

definition CONN_MAGIC :: u64 where
  "CONN_MAGIC = 0x436f6e6e45424553"

definition CONN_TRANSPORT_UDP :: u8 where "CONN_TRANSPORT_UDP = 0"
definition CONN_TRANSPORT_TCP :: u8 where "CONN_TRANSPORT_TCP = 1"
definition CONN_TRANSPORT_WS :: u8 where "CONN_TRANSPORT_WS = 2"
definition CONN_TRANSPORT_WSS :: u8 where "CONN_TRANSPORT_WSS = 3"

definition CONNENTRY_MIN_SIZE :: nat where
  "CONNENTRY_MIN_SIZE = 64"

definition CONN_FLAG_DROP_REQUESTED :: u32 where
  "CONN_FLAG_DROP_REQUESTED = push_bit 0 1"

record conn_entry =
  ce_magic :: u64
  ce_connected_at :: u64
  ce_last_update :: u64
  ce_port2 :: u32
  ce_conn_index :: u32
  ce_pid :: u32
  ce_rx_msgs :: u32
  ce_tx_msgs :: u32
  ce_peer_ip_be :: u32
  ce_peer_port_be :: u16
  ce_transport :: u8
  ce_is_user :: u8
  ce_flags :: u32
  ce_pad :: u32

text \<open>\<open>sizeof(ConnEntry)\<close>: 60 bytes of fields and 4 of tail padding (zeroed by the \<open>{}\<close> initialiser).\<close>

definition sizeof_ConnEntry :: nat where
  "sizeof_ConnEntry = 64"

definition enc_ConnEntry :: "conn_entry \<Rightarrow> bytes" where
  "enc_ConnEntry ce =
     word_le (ce_magic ce) @ word_le (ce_connected_at ce) @ word_le (ce_last_update ce) @
     word_le (ce_port2 ce) @ word_le (ce_conn_index ce) @ word_le (ce_pid ce) @
     word_le (ce_rx_msgs ce) @ word_le (ce_tx_msgs ce) @ word_le (ce_peer_ip_be ce) @
     word_le (ce_peer_port_be ce) @ word_le (ce_transport ce) @ word_le (ce_is_user ce) @
     word_le (ce_flags ce) @ word_le (ce_pad ce) @ replicate 4 0"

definition dec_ConnEntry :: "bytes \<Rightarrow> conn_entry" where
  "dec_ConnEntry bs = \<lparr>
     ce_magic = le_word (field bs 0 8),
     ce_connected_at = le_word (field bs 8 8),
     ce_last_update = le_word (field bs 16 8),
     ce_port2 = le_word (field bs 24 4),
     ce_conn_index = le_word (field bs 28 4),
     ce_pid = le_word (field bs 32 4),
     ce_rx_msgs = le_word (field bs 36 4),
     ce_tx_msgs = le_word (field bs 40 4),
     ce_peer_ip_be = le_word (field bs 44 4),
     ce_peer_port_be = le_word (field bs 48 2),
     ce_transport = le_word (field bs 50 1),
     ce_is_user = le_word (field bs 51 1),
     ce_flags = le_word (field bs 52 4),
     ce_pad = le_word (field bs 56 4)\<rparr>"

text \<open>\<open>ConnKey\<close>: \<open>port2\<close> and \<open>conn_index\<close>.\<close>

type_synonym conn_key = "u32 \<times> u32"

definition sizeof_ConnKey :: nat where
  "sizeof_ConnKey = 8"

definition enc_ConnKey :: "conn_key \<Rightarrow> bytes" where
  "enc_ConnKey k = word_le (fst k) @ word_le (snd k)"

definition dec_ConnKey :: "bytes \<Rightarrow> conn_key" where
  "dec_ConnKey bs = (le_word (field bs 0 4), le_word (field bs 4 4))"

lemma length_enc_ConnEntry [simp, codec_simps]: "length (enc_ConnEntry ce) = sizeof_ConnEntry"
  by (simp add: enc_ConnEntry_def sizeof_ConnEntry_def)

lemma dec_enc_ConnEntry: "dec_ConnEntry (enc_ConnEntry ce @ rest) = ce"
  by (simp add: enc_ConnEntry_def dec_ConnEntry_def codec_simps)

interpretation conn_codec: codec enc_ConnEntry dec_ConnEntry "\<lambda>_. True"
  by unfold_locales (rule dec_enc_ConnEntry)

lemma length_enc_ConnKey [simp, codec_simps]: "length (enc_ConnKey k) = sizeof_ConnKey"
  by (simp add: enc_ConnKey_def sizeof_ConnKey_def)

lemma dec_enc_ConnKey [simp]: "dec_ConnKey (enc_ConnKey k @ rest) = k"
  by (simp add: enc_ConnKey_def dec_ConnKey_def codec_simps)

interpretation conn_key_codec: codec enc_ConnKey dec_ConnKey "\<lambda>_. True"
  by unfold_locales simp

lemma dec_enc_ConnKey_exact [simp]: "dec_ConnKey (enc_ConnKey k) = k"
  by (rule conn_key_codec.dec_enc_exact) simp

lemma enc_dec_ConnKey:
  assumes "length bs = sizeof_ConnKey"
  shows "enc_ConnKey (dec_ConnKey bs) = bs"
proof -
  have "length bs = 8"
    using assms by (simp add: sizeof_ConnKey_def)
  then have "word_le (le_word (take 4 bs) :: u32) = take 4 bs"
    and "word_le (le_word (take 4 (drop 4 bs)) :: u32) = drop 4 bs"
    by (simp_all add: word_le_le_word)
  then show ?thesis
    by (simp add: enc_ConnKey_def dec_ConnKey_def field_def)
qed

section \<open>Opening\<close>

text \<open>One \<open>tdb_open\<close> attempt: a handle, or \<open>errno\<close> (only \<open>EBUSY\<close> matters).\<close>

datatype 'db open_result = Opened 'db | Busy | Failed

text \<open>
  \<open>conn_db_open\<close>: up to five attempts, sleeping \<open>backoffs[i]\<close> (in milliseconds) before
  attempt \<open>i > 0\<close>. \<open>attempt i\<close> is the outcome of the \<open>i\<close>-th \<open>tdb_open\<close>. The result is the
  handle and the sleeps made.
\<close>

definition backoffs_ms :: "nat list" where
  "backoffs_ms = [0, 10, 50, 100, 250]"

fun conn_db_open_loop ::
  "(nat \<Rightarrow> 'db open_result) \<Rightarrow> nat \<Rightarrow> nat list \<Rightarrow> 'db option \<times> nat list" where
  "conn_db_open_loop attempt i [] = (None, [])"
| "conn_db_open_loop attempt i (b # bs) =
     (let slept = (if i > 0 then [b] else []) in
      case attempt i of
        Opened db \<Rightarrow> (Some db, slept)
      | Failed \<Rightarrow> (None, slept)
      | Busy \<Rightarrow> (let (r, more) = conn_db_open_loop attempt (Suc i) bs in (r, slept @ more)))"

definition conn_db_open :: "(nat \<Rightarrow> 'db open_result) \<Rightarrow> 'db option \<times> nat list" where
  "conn_db_open attempt = conn_db_open_loop attempt 0 backoffs_ms"

definition conn_db_open_transaction ::
  "'db tdb_api \<Rightarrow> (nat \<Rightarrow> 'db open_result) \<Rightarrow> 'db option" where
  "conn_db_open_transaction api attempt =
     (case fst (conn_db_open attempt) of
        None \<Rightarrow> None
      | Some db \<Rightarrow> (case tdb_transaction_start api db of
                      (db', ok) \<Rightarrow> if ok then Some db' else None))"

definition conn_db_close_cancel :: "'db tdb_api \<Rightarrow> 'db \<Rightarrow> 'db" where
  "conn_db_close_cancel api db = tdb_transaction_cancel api db"

definition conn_db_close_commit :: "'db tdb_api \<Rightarrow> 'db \<Rightarrow> 'db" where
  "conn_db_close_commit api db = fst (tdb_transaction_commit api db)"

lemma conn_db_open_loop_first:
  "k < length bs \<Longrightarrow> (\<And>j. j < k \<Longrightarrow> attempt (i + j) = Busy) \<Longrightarrow> attempt (i + k) \<noteq> Busy \<Longrightarrow>
   fst (conn_db_open_loop attempt i bs) = (case attempt (i + k) of Opened db \<Rightarrow> Some db | _ \<Rightarrow> None)"
proof (induction bs arbitrary: i k)
  case Nil
  then show ?case by simp
next
  case (Cons b bs)
  show ?case
  proof (cases k)
    case 0
    then show ?thesis
      using Cons.prems(3) by (cases "attempt i") simp_all
  next
    case (Suc k')
    have "attempt i = Busy"
      using Cons.prems(2) [of 0] Suc by simp
    moreover have "fst (conn_db_open_loop attempt (Suc i) bs)
        = (case attempt (Suc i + k') of Opened db \<Rightarrow> Some db | _ \<Rightarrow> None)"
    proof (rule Cons.IH)
      show "k' < length bs" and "attempt (Suc i + k') \<noteq> Busy"
        using Cons.prems Suc by simp_all
      show "attempt (Suc i + j) = Busy" if "j < k'" for j
        using Cons.prems(2) [of "Suc j"] that Suc by simp
    qed
    ultimately show ?thesis
      using Suc by (simp add: case_prod_beta)
  qed
qed

lemma conn_db_open_loop_busy:
  "(\<And>j. j < length bs \<Longrightarrow> attempt (i + j) = Busy) \<Longrightarrow> fst (conn_db_open_loop attempt i bs) = None"
proof (induction bs arbitrary: i)
  case Nil
  then show ?case by simp
next
  case (Cons b bs)
  have "attempt i = Busy"
    using Cons.prems [of 0] by simp
  moreover have "fst (conn_db_open_loop attempt (Suc i) bs) = None"
    by (rule Cons.IH) (use Cons.prems [of "Suc _"] in simp)
  ultimately show ?case
    by (simp add: case_prod_beta)
qed

lemma conn_db_open_loop_sleeps:
  "sum_list (snd (conn_db_open_loop attempt i bs)) \<le> sum_list bs"
proof (induction bs arbitrary: i)
  case Nil
  then show ?case by simp
next
  case (Cons b bs)
  show ?case
    using Cons.IH [of "Suc i"]
    by (cases "attempt i") (auto simp: case_prod_beta split: prod.split)
qed

section \<open>Writing and deleting records\<close>

definition conn_write ::
  "'db tdb_api \<Rightarrow> (nat \<Rightarrow> bool) \<Rightarrow> 'db \<Rightarrow> conn_entry \<Rightarrow> 'db \<times> bool" where
  "conn_write api malloc_ok db ce =
     (let kd = enc_ConnKey (ce_port2 ce, ce_conn_index ce);
          orig = (case tdb_fetch api db kd of None \<Rightarrow> [] | Some d \<Rightarrow> d);
          tail_len = (if length orig > sizeof_ConnEntry then length orig - sizeof_ConnEntry else 0);
          total = sizeof_ConnEntry + tail_len
      in if \<not> malloc_ok total then (db, False)
         else tdb_store api db kd
                (enc_ConnEntry ce @ take tail_len (drop sizeof_ConnEntry orig)))"

definition conn_delete :: "'db tdb_api \<Rightarrow> 'db \<Rightarrow> u32 \<Rightarrow> u32 \<Rightarrow> 'db \<times> bool" where
  "conn_delete api db port2 conn_index = tdb_delete api db (enc_ConnKey (port2, conn_index))"

text \<open>The traversal callback \<open>collect_port2\<close>, over the records in traversal order.\<close>

definition collect_port2 :: "u32 \<Rightarrow> (bytes \<times> bytes) list \<Rightarrow> conn_key list" where
  "collect_port2 port2 recs =
     map (\<lambda>(k, _). dec_ConnKey k)
       (filter (\<lambda>(k, _). length k = sizeof_ConnKey \<and> fst (dec_ConnKey k) = port2) recs)"

fun conn_delete_matches :: "'db tdb_api \<Rightarrow> conn_key list \<Rightarrow> 'db \<times> nat \<Rightarrow> 'db \<times> nat" where
  "conn_delete_matches api [] (db, n) = (db, n)"
| "conn_delete_matches api (k # ks) (db, n) =
     (case tdb_delete api db (enc_ConnKey k) of
        (db', ok) \<Rightarrow> conn_delete_matches api ks (db', if ok then Suc n else n))"

definition conn_delete_for_port2 :: "'db tdb_api \<Rightarrow> 'db \<Rightarrow> u32 \<Rightarrow> 'db \<times> nat" where
  "conn_delete_for_port2 api db port2 =
     conn_delete_matches api (collect_port2 port2 (tdb_traverse api db)) (db, 0)"

text \<open>
  \<open>conn_recreate_empty\<close>: remove the file (\<open>unlinked\<close>: \<open>unlink\<close> succeeded or the file was not
  there) and reopen it; \<open>fresh\<close> is the database \<open>tdb_open\<close> creates with \<open>O_CREAT\<close>.
\<close>

definition conn_recreate_empty :: "bool \<Rightarrow> 'db \<Rightarrow> 'db \<Rightarrow> 'db" where
  "conn_recreate_empty unlinked fresh db = (if unlinked then fresh else db)"

text \<open>\<open>conn_remove_port2\<close>: \<open>db\<close> is the file as it is if the database cannot be opened.\<close>

definition conn_remove_port2 ::
  "'db tdb_api \<Rightarrow> (nat \<Rightarrow> 'db open_result) \<Rightarrow> 'db \<Rightarrow> u32 \<Rightarrow> 'db" where
  "conn_remove_port2 api attempt db port2 =
     (case conn_db_open_transaction api attempt of
        None \<Rightarrow> db
      | Some t \<Rightarrow> conn_db_close_commit api (fst (conn_delete_for_port2 api t port2)))"

text \<open>What a reader of the table sees under a key: records shorter than 64 bytes are skipped.\<close>

definition conn_of :: "'db tdb_api \<Rightarrow> 'db \<Rightarrow> conn_key \<Rightarrow> conn_entry option" where
  "conn_of api db k =
     (case tdb_fetch api db (enc_ConnKey k) of
        None \<Rightarrow> None
      | Some d \<Rightarrow> if length d < CONNENTRY_MIN_SIZE then None
                  else Some (dec_ConnEntry (zero_pad sizeof_ConnEntry d)))"

definition conn_save ::
  "'db tdb_api \<Rightarrow> (nat \<Rightarrow> bool) \<Rightarrow> 'db \<Rightarrow> conn_key \<Rightarrow> conn_entry \<Rightarrow> 'db \<times> bool" where
  "conn_save api malloc_ok db k ce =
     conn_write api malloc_ok db (ce\<lparr>ce_port2 := fst k, ce_conn_index := snd k\<rparr>)"

lemma enc_ConnKey_inject [simp]: "enc_ConnKey k = enc_ConnKey l \<longleftrightarrow> k = l"
  by (rule conn_key_codec.enc_inject) simp_all

lemma set_collect_port2:
  "k \<in> set (collect_port2 port2 recs) \<longleftrightarrow> fst k = port2 \<and> enc_ConnKey k \<in> fst ` set recs"
  by (force simp: collect_port2_def enc_dec_ConnKey image_iff)

context tdb
begin

lemma conn_write_cases:
  assumes "conn_write api malloc_ok db ce = (db', ok)"
  obtains (kept) "\<not> ok" and "tdb_fetch api db' = tdb_fetch api db"
  | (stored) rest where "ok" and
      "tdb_fetch api db' = (tdb_fetch api db)(enc_ConnKey (ce_port2 ce, ce_conn_index ce) \<mapsto> enc_ConnEntry ce @ rest)"
  using assms store_ok store_fail
  by (cases ok) (auto simp: conn_write_def Let_def split: if_splits)

lemma conn_write_of:
  assumes "conn_write api malloc_ok db ce = (db', ok)"
  shows "conn_of api db' = (if ok then (conn_of api db)((ce_port2 ce, ce_conn_index ce) \<mapsto> ce)
                            else conn_of api db)"
  using assms
proof (cases rule: conn_write_cases)
  case kept
  then show ?thesis by (simp add: conn_of_def fun_eq_iff)
next
  case (stored rest)
  have "zero_pad sizeof_ConnEntry (enc_ConnEntry ce @ rest) = enc_ConnEntry ce"
    by (simp add: zero_pad_long)
  moreover have "dec_ConnEntry (enc_ConnEntry ce) = ce"
    by (rule conn_codec.dec_enc_exact) simp
  ultimately show ?thesis
    using stored by (auto simp: conn_of_def fun_eq_iff CONNENTRY_MIN_SIZE_def sizeof_ConnEntry_def)
qed

lemma conn_write_write:
  "conn_write api malloc_ok db ce = (db', ok) \<Longrightarrow> (tdb_write api)\<^sup>*\<^sup>* db db'"
  by (auto simp: conn_write_def Let_def intro: store_write split: if_splits)

lemma conn_delete_matches_other:
  "conn_delete_matches api ks (db, n) = (db', n') \<Longrightarrow> x \<notin> enc_ConnKey ` set ks \<Longrightarrow>
   tdb_fetch api db' x = tdb_fetch api db x"
proof (induction ks arbitrary: db n)
  case Nil
  then show ?case by simp
next
  case (Cons k ks)
  obtain db1 ok where d: "tdb_delete api db (enc_ConnKey k) = (db1, ok)"
    by (rule prod.exhaust)
  have "tdb_fetch api db' x = tdb_fetch api db1 x"
    using Cons d by (auto split: if_splits)
  moreover have "tdb_fetch api db1 x = tdb_fetch api db x"
    using d Cons.prems(2) delete_ok delete_fail by (cases ok) auto
  ultimately show ?case by simp
qed

lemma conn_delete_matches_count:
  "conn_delete_matches api ks (db, n) = (db', n') \<Longrightarrow> n \<le> n' \<and> n' \<le> n + length ks"
proof (induction ks arbitrary: db n)
  case Nil
  then show ?case by simp
next
  case (Cons k ks)
  obtain db1 ok where d: "tdb_delete api db (enc_ConnKey k) = (db1, ok)"
    by (rule prod.exhaust)
  then show ?case
    using Cons.IH [of db1 "if ok then Suc n else n"] Cons.prems by (auto split: if_splits)
qed

lemma conn_delete_matches_keeps_none:
  "conn_delete_matches api ks (db, n) = (db', n') \<Longrightarrow> tdb_fetch api db x = None \<Longrightarrow>
   tdb_fetch api db' x = None"
proof (induction ks arbitrary: db n)
  case Nil
  then show ?case by simp
next
  case (Cons k ks)
  obtain db1 ok where d: "tdb_delete api db (enc_ConnKey k) = (db1, ok)"
    by (rule prod.exhaust)
  have "tdb_fetch api db1 x = None"
    using d Cons.prems(2) delete_ok [of db "enc_ConnKey k" db1] delete_fail [of db "enc_ConnKey k" db1]
    by (cases ok) auto
  then show ?case
    using Cons.IH Cons.prems(1) d by simp
qed

lemma conn_delete_matches_all:
  "conn_delete_matches api ks (db, n) = (db', n + length ks) \<Longrightarrow> k \<in> set ks \<Longrightarrow>
   tdb_fetch api db' (enc_ConnKey k) = None"
proof (induction ks arbitrary: db n)
  case Nil
  then show ?case by simp
next
  case (Cons l ks)
  obtain db1 ok where d: "tdb_delete api db (enc_ConnKey l) = (db1, ok)"
    by (rule prod.exhaust)
  have rest: "conn_delete_matches api ks (db1, if ok then Suc n else n) = (db', n + Suc (length ks))"
    using Cons.prems(1) d by simp
  then have ok: ok
    using conn_delete_matches_count [OF rest] by (cases ok) auto
  show ?case
  proof (cases "k = l")
    case True
    have "tdb_fetch api db1 (enc_ConnKey l) = None"
      using delete_ok d ok by simp
    then show ?thesis
      using conn_delete_matches_keeps_none [OF rest] True by simp
  next
    case False
    then show ?thesis
      using Cons.IH [of db1 "Suc n"] rest ok Cons.prems(2) by simp
  qed
qed

lemma conn_delete_matches_write:
  "conn_delete_matches api ks (db, n) = (db', n') \<Longrightarrow> (tdb_write api)\<^sup>*\<^sup>* db db'"
proof (induction ks arbitrary: db n)
  case Nil
  then show ?case by simp
next
  case (Cons k ks)
  obtain db1 ok where d: "tdb_delete api db (enc_ConnKey k) = (db1, ok)"
    by (rule prod.exhaust)
  have "(tdb_write api)\<^sup>*\<^sup>* db1 db'"
    using Cons.IH Cons.prems d by simp
  with delete_write [OF d] show ?case
    by (rule rtranclp_trans)
qed

text \<open>The keys \<open>conn_delete_for_port2\<close> looks for are those of every record of the port pair.\<close>

lemma collect_port2_keys:
  "k \<in> set (collect_port2 port2 (tdb_traverse api db)) \<longleftrightarrow>
   fst k = port2 \<and> tdb_fetch api db (enc_ConnKey k) \<noteq> None"
  by (simp add: set_collect_port2 map_of_eq_None_iff flip: traverse_all)

lemma conn_delete_for_port2_fetch:
  assumes "conn_delete_for_port2 api db port2 = (db', n)"
    and "n = length (collect_port2 port2 (tdb_traverse api db))"
  shows "tdb_fetch api db' x =
    (if length x = sizeof_ConnKey \<and> fst (dec_ConnKey x) = port2 then None else tdb_fetch api db x)"
proof (cases "length x = sizeof_ConnKey \<and> fst (dec_ConnKey x) = port2")
  case True
  show ?thesis
  proof (cases "tdb_fetch api db x")
    case None
    then show ?thesis
      using True assms(1) conn_delete_matches_keeps_none by (simp add: conn_delete_for_port2_def)
  next
    case (Some d)
    then have "dec_ConnKey x \<in> set (collect_port2 port2 (tdb_traverse api db))"
      using True by (simp add: collect_port2_keys enc_dec_ConnKey)
    then have "tdb_fetch api db' (enc_ConnKey (dec_ConnKey x)) = None"
      using assms by (intro conn_delete_matches_all [of _ db 0]) (simp_all add: conn_delete_for_port2_def)
    then show ?thesis
      using True by (simp add: enc_dec_ConnKey)
  qed
next
  case False
  then have "x \<notin> enc_ConnKey ` set (collect_port2 port2 (tdb_traverse api db))"
    by (auto simp: collect_port2_keys)
  then have "tdb_fetch api db' x = tdb_fetch api db x"
    by (rule conn_delete_matches_other [OF assms(1) [unfolded conn_delete_for_port2_def]])
  with False show ?thesis by auto
qed

lemma conn_delete_for_port2_of:
  assumes "conn_delete_for_port2 api db port2 = (db', n)"
    and "n = length (collect_port2 port2 (tdb_traverse api db))"
  shows "conn_of api db' k = (if fst k = port2 then None else conn_of api db k)"
  by (simp add: conn_of_def conn_delete_for_port2_fetch [OF assms])

end

sublocale tdb \<subseteq> conns: record_store "conn_of api" "conn_save api malloc_ok"
  "\<lambda>k ce. (ce_port2 ce, ce_conn_index ce) = k" for malloc_ok
proof unfold_locales
  fix k db db' ok and v :: conn_entry
  assume save: "conn_save api malloc_ok db k v = (db', ok)"
  show "k' \<noteq> k \<Longrightarrow> conn_of api db' k' = conn_of api db k'" for k'
    using conn_write_of save by (simp add: conn_save_def)
next
  fix k db db' and v :: conn_entry
  assume save: "conn_save api malloc_ok db k v = (db', True)"
  show "(ce_port2 v, ce_conn_index v) = k \<Longrightarrow> conn_of api db' k = Some v"
    using conn_write_of save by (auto simp: conn_save_def)
next
  fix k db db' and v :: conn_entry
  assume "conn_save api malloc_ok db k v = (db', False)"
  then show "conn_of api db' = conn_of api db"
    using conn_write_of by (simp add: conn_save_def)
qed

section \<open>Properties\<close>

text \<open>
  \<open>conn_delete_for_port2\<close> touches only records of its own port pair (a record whose key is not
  a \<open>ConnKey\<close> is kept); it counts the deletions that succeeded, and when all of them did, no
  connection of the pair is left.
\<close>

theorem conn_delete_for_port2_exact:
  assumes "tdb api saved in_txn" and "conn_delete_for_port2 api db port2 = (db', n)"
  shows "n \<le> length (collect_port2 port2 (tdb_traverse api db))
    \<and> (\<forall>x. \<not> (length x = sizeof_ConnKey \<and> fst (dec_ConnKey x) = port2) \<longrightarrow>
           tdb_fetch api db' x = tdb_fetch api db x)
    \<and> (n = length (collect_port2 port2 (tdb_traverse api db)) \<longrightarrow>
           (\<forall>i. conn_of api db' (port2, i) = None))"
proof (intro conjI allI impI)
  note del = assms(2) [unfolded conn_delete_for_port2_def]
  show "n \<le> length (collect_port2 port2 (tdb_traverse api db))"
    using tdb.conn_delete_matches_count [OF assms(1) del] by simp
  show "tdb_fetch api db' x = tdb_fetch api db x"
    if "\<not> (length x = sizeof_ConnKey \<and> fst (dec_ConnKey x) = port2)" for x
  proof (rule tdb.conn_delete_matches_other [OF assms(1) del])
    show "x \<notin> enc_ConnKey ` set (collect_port2 port2 (tdb_traverse api db))"
      using that by (auto simp: set_collect_port2)
  qed
  show "conn_of api db' (port2, i) = None"
    if "n = length (collect_port2 port2 (tdb_traverse api db))" for i
    using tdb.conn_delete_for_port2_of [OF assms that, of "(port2, i)"] by simp
qed

text \<open>Two connections of port pair 7, one of pair 8, and a record under a foreign key.\<close>

definition sample_conn :: "u32 \<Rightarrow> u32 \<Rightarrow> conn_entry" where
  "sample_conn p i = \<lparr>ce_magic = CONN_MAGIC, ce_connected_at = 5, ce_last_update = 6, ce_port2 = p,
     ce_conn_index = i, ce_pid = 42, ce_rx_msgs = 1, ce_tx_msgs = 2, ce_peer_ip_be = 3,
     ce_peer_port_be = 4, ce_transport = CONN_TRANSPORT_TCP, ce_is_user = 0, ce_flags = 0, ce_pad = 0\<rparr>"

definition sample_conns :: mem_db where
  "sample_conns = mem_empty\<lparr>mem_recs :=
     [(enc_ConnKey (7, 0), enc_ConnEntry (sample_conn 7 0)),
      (enc_ConnKey (8, 1), enc_ConnEntry (sample_conn 8 1)),
      ([1, 2, 3], [9]),
      (enc_ConnKey (7, 2), enc_ConnEntry (sample_conn 7 2))]\<rparr>"

lemma enc_ConnKey_not_short [simp]: "enc_ConnKey k \<noteq> [a, b, c]" "[a, b, c] \<noteq> enc_ConnKey k"
proof -
  have "length (enc_ConnKey k) \<noteq> length [a, b, c]"
    by (simp add: sizeof_ConnKey_def)
  then show "enc_ConnKey k \<noteq> [a, b, c]" "[a, b, c] \<noteq> enc_ConnKey k"
    by metis+
qed

lemma sample_conns_delete:
  "snd (conn_delete_for_port2 mem_api sample_conns 7) = 2"
  "collect_port2 7 (tdb_traverse mem_api sample_conns) = [(7, 0), (7, 2)]"
  by (simp_all add: conn_delete_for_port2_def collect_port2_def sample_conns_def mem_empty_def
      sizeof_ConnKey_def)

theorem conn_delete_for_port2_exact_witness:
  "\<exists>db'. conn_delete_for_port2 mem_api sample_conns 7 = (db', 2)
     \<and> conn_of mem_api db' (7, 2) = None
     \<and> tdb_fetch mem_api db' [1, 2, 3] = Some [9]
     \<and> tdb_fetch mem_api db' (enc_ConnKey (8, 1)) = Some (enc_ConnEntry (sample_conn 8 1))"
proof -
  obtain db' where del: "conn_delete_for_port2 mem_api sample_conns 7 = (db', 2)"
    using sample_conns_delete(1) by (metis prod.collapse)
  from conn_delete_for_port2_exact [OF mem_tdb.tdb_axioms del] sample_conns_delete(2)
  have gone: "conn_of mem_api db' (7, i) = None"
    and kept: "\<not> (length x = sizeof_ConnKey \<and> fst (dec_ConnKey x) = 7) \<Longrightarrow>
      tdb_fetch mem_api db' x = tdb_fetch mem_api sample_conns x" for i x
    by simp_all
  have "tdb_fetch mem_api db' [1, 2, 3] = Some [9]"
    by (subst kept) (simp_all add: sizeof_ConnKey_def sample_conns_def)
  moreover have "tdb_fetch mem_api db' (enc_ConnKey (8, 1)) = Some (enc_ConnEntry (sample_conn 8 1))"
    by (subst kept) (simp_all add: sample_conns_def)
  ultimately show ?thesis
    using del gone by blast
qed

text \<open>
  \<open>conn_db_open\<close> makes at most five attempts and sleeps at most 410 ms in all; it returns the
  handle of the first attempt that is not \<open>EBUSY\<close>, and \<open>nullptr\<close> if that attempt failed for
  another reason or all five were busy.
\<close>

theorem conn_db_open_bounded:
  "sum_list (snd (conn_db_open attempt)) \<le> 410
   \<and> fst (conn_db_open attempt) =
       (case filter (\<lambda>i. attempt i \<noteq> Busy) [0..<5] of
          [] \<Rightarrow> None
        | i # _ \<Rightarrow> (case attempt i of Opened db \<Rightarrow> Some db | _ \<Rightarrow> None))"
proof
  show "sum_list (snd (conn_db_open attempt)) \<le> 410"
    using conn_db_open_loop_sleeps [of attempt 0 backoffs_ms]
    by (simp add: conn_db_open_def backoffs_ms_def)
  show "fst (conn_db_open attempt) =
      (case filter (\<lambda>i. attempt i \<noteq> Busy) [0..<5] of
         [] \<Rightarrow> None
       | i # _ \<Rightarrow> (case attempt i of Opened db \<Rightarrow> Some db | _ \<Rightarrow> None))"
    by (simp add: conn_db_open_def backoffs_ms_def upt_rec numeral_eq_Suc
        split: open_result.split prod.split)
qed



end
