(* ===== verification/Listener.thy ===== *)
theory Listener
  imports Keydb Conntdb "HOL-Library.Multiset"
begin

text \<open>
  The parent process of \<open>supportproxy.cpp\<close>: the list of listening port pairs, its
  reconciliation with \<open>keys.tdb\<close>, the children it forks and reaps, and the rounds of
  \<open>wait_connection\<close>. What the system calls answer (the descriptor of a new socket, the
  process id of \<open>fork\<close> and \<open>waitpid\<close>, the clock) is an argument of each operation; the calls
  that act on the outside world are recorded as effects, in order.
\<close>

section \<open>State\<close>

record listen_port =
  lp_port1 :: u32
  lp_port2 :: u32
  sock1_udp :: int
  sock2_udp :: int
  sock1_tcp :: int
  sock2_listen :: int
  lp_pid :: int
  lp_flags :: u32
  lp_fc_sysid :: u8
  lp_seen :: bool
  lp_removed :: bool
  lp_ws :: "nat option"

datatype sock_slot = S1_udp | S2_udp | S1_tcp | S2_listen

text \<open>The answer of \<open>open_socket_in_udp\<close> / \<open>open_socket_in_tcp\<close> for one slot of a pair, -1 on error.\<close>

type_synonym sock_env = "listen_port \<Rightarrow> sock_slot \<Rightarrow> int"

datatype parent_effect =
    Sock_opened int
  | Sock_closed int
  | Killed int
  | Conn_removed u32
  | Conn_recreated
  | Forked_child u32 int
  | Forked_cleanup int

type_synonym effects = "parent_effect list"

record parent =
  pa_ports :: "listen_port list"
  pa_cleanup_pid :: int
  pa_epoll :: "int list"
  pa_last_reload :: usec
  pa_effects :: effects

section \<open>Loops over the list\<close>

text \<open>\<open>for (auto *p = ports; p; p = p->next) ...\<close>, with and without a break at the first match.\<close>

definition each_port :: "('a \<Rightarrow> 'a \<times> 'e list) \<Rightarrow> 'a list \<Rightarrow> 'a list \<times> 'e list" where
  "each_port f ps = (map (\<lambda>p. fst (f p)) ps, concat (map (\<lambda>p. snd (f p)) ps))"

fun first_port :: "('a \<Rightarrow> bool) \<Rightarrow> ('a \<Rightarrow> 'a \<times> 'e list) \<Rightarrow> 'a list \<Rightarrow> ('a list \<times> 'e list) option" where
  "first_port P f [] = None"
| "first_port P f (p # ps) =
     (if P p then (case f p of (p', es) \<Rightarrow> Some (p' # ps, es))
      else (case first_port P f ps of None \<Rightarrow> None | Some (ps', es) \<Rightarrow> Some (p # ps', es)))"

definition count_ports :: "listen_port list \<Rightarrow> u32" where
  "count_ports ps = foldl (\<lambda>count _. count + 1) 0 ps"

section \<open>Sockets\<close>

definition close_socket :: "int \<Rightarrow> int \<times> effects" where
  "close_socket s = (if s \<noteq> -1 then (-1, [Sock_closed s]) else (s, []))"

definition close_sockets :: "listen_port \<Rightarrow> listen_port \<times> effects" where
  "close_sockets p =
     (let (a, e1) = close_socket (sock1_udp p);
          (b, e2) = close_socket (sock2_udp p);
          (c, e3) = close_socket (sock1_tcp p);
          (d, e4) = close_socket (sock2_listen p)
      in (p\<lparr>sock1_udp := a, sock2_udp := b, sock1_tcp := c, sock2_listen := d\<rparr>, e1 @ e2 @ e3 @ e4))"

definition open_slot :: "int \<Rightarrow> int \<Rightarrow> int \<times> effects" where
  "open_slot s fd = (if s = -1 then (fd, if fd = -1 then [] else [Sock_opened fd]) else (s, []))"

definition open_sockets :: "sock_env \<Rightarrow> listen_port \<Rightarrow> listen_port \<times> effects" where
  "open_sockets env p =
     (let (a, e1) = open_slot (sock1_udp p) (env p S1_udp);
          (b, e2) = open_slot (sock2_udp p) (env p S2_udp);
          (c, e3) = open_slot (sock1_tcp p) (env p S1_tcp);
          (d, e4) = open_slot (sock2_listen p) (env p S2_listen)
      in (p\<lparr>sock1_udp := a, sock2_udp := b, sock1_tcp := c, sock2_listen := d\<rparr>, e1 @ e2 @ e3 @ e4))"

section \<open>Reconciling with keys.tdb\<close>

text \<open>The branches of \<open>upsert_port\<close> for a pair that is in the list.\<close>

definition reconcile :: "sock_env \<Rightarrow> u32 \<Rightarrow> u32 \<Rightarrow> u8 \<Rightarrow> listen_port \<Rightarrow> listen_port \<times> effects" where
  "reconcile env port1 flags fc_sysid p0 =
     (let p = p0\<lparr>lp_seen := True\<rparr> in
      if lp_removed p then
        let p1 = p\<lparr>lp_removed := False, lp_port1 := port1, lp_flags := flags, lp_fc_sysid := fc_sysid\<rparr>
        in if lp_pid p1 = 0 then open_sockets env p1 else (p1, [])
      else if lp_port1 p \<noteq> port1 then
        let (p1, closed) = close_sockets p;
            killed = (if lp_pid p1 \<noteq> 0 then [Killed (lp_pid p1)] else []);
            p2 = p1\<lparr>lp_port1 := port1, lp_flags := flags, lp_fc_sysid := fc_sysid\<rparr>;
            (p3, opened) = (if lp_pid p2 = 0 then open_sockets env p2 else (p2, []))
        in (p3, closed @ killed @ opened)
      else (p\<lparr>lp_flags := flags, lp_fc_sysid := fc_sysid\<rparr>, []))"

definition new_port :: "u32 \<Rightarrow> u32 \<Rightarrow> u32 \<Rightarrow> u8 \<Rightarrow> listen_port" where
  "new_port port1 port2 flags fc_sysid =
     \<lparr>lp_port1 = port1, lp_port2 = port2, sock1_udp = -1, sock2_udp = -1, sock1_tcp = -1,
      sock2_listen = -1, lp_pid = 0, lp_flags = flags, lp_fc_sysid = fc_sysid, lp_seen = True,
      lp_removed = False, lp_ws = None\<rparr>"

definition upsert_port ::
  "sock_env \<Rightarrow> u32 \<Rightarrow> u32 \<Rightarrow> u32 \<Rightarrow> u8 \<Rightarrow> listen_port list \<times> effects \<Rightarrow> listen_port list \<times> effects" where
  "upsert_port env port1 port2 flags fc_sysid st =
     (case st of (ps, es) \<Rightarrow>
        (case first_port (\<lambda>p. lp_port2 p = port2) (reconcile env port1 flags fc_sysid) ps of
           Some (ps', es') \<Rightarrow> (ps', es @ es')
         | None \<Rightarrow>
             (case open_sockets env (new_port port1 port2 flags fc_sysid) of
                (p, es') \<Rightarrow> (p # ps, es @ es'))))"

definition handle_record ::
  "sock_env \<Rightarrow> bytes \<times> bytes \<Rightarrow> listen_port list \<times> effects \<Rightarrow> listen_port list \<times> effects" where
  "handle_record env rec st =
     (case rec of (key, data) \<Rightarrow>
        if length key \<noteq> 4 \<or> length data < KEYENTRY_MIN_SIZE then st
        else let port2 = le_word key;
                 k = dec_KeyEntry (zero_pad sizeof_KeyEntry data)
             in upsert_port env (ke_port1 k) port2 (ke_flags k) (ucast (ke_fc_sysid k)) st)"

text \<open>A pair that the traversal did not see.\<close>

definition teardown :: "listen_port \<Rightarrow> listen_port \<times> effects" where
  "teardown p =
     (if \<not> lp_seen p \<and> \<not> lp_removed p then
        let (p', closed) = close_sockets (p\<lparr>lp_removed := True\<rparr>)
        in (p', closed @ (if lp_pid p' \<noteq> 0 then [Killed (lp_pid p')] else []) @ [Conn_removed (lp_port2 p')])
      else (p, []))"

definition reopen :: "sock_env \<Rightarrow> listen_port \<Rightarrow> listen_port \<times> effects" where
  "reopen env p = (if lp_pid p = 0 \<and> \<not> lp_removed p then open_sockets env p else (p, []))"

definition run_ports :: "(listen_port list \<Rightarrow> listen_port list \<times> effects) \<Rightarrow> parent \<Rightarrow> parent" where
  "run_ports f s = (case f (pa_ports s) of (ps, es) \<Rightarrow> s\<lparr>pa_ports := ps, pa_effects := pa_effects s @ es\<rparr>)"

definition traverse_keys ::
  "'db tdb_api \<Rightarrow> 'db \<Rightarrow> sock_env \<Rightarrow> listen_port list \<Rightarrow> listen_port list \<times> effects" where
  "traverse_keys api db env ps = fold (handle_record env) (tdb_traverse api db) (ps, [])"

text \<open>\<open>None\<close> is \<open>exit(1)\<close>. The sockets of the traversal and those of the last loop are opened at different times.\<close>

definition reload_ports ::
  "'db tdb_api \<Rightarrow> 'db option \<Rightarrow> sock_env \<Rightarrow> sock_env \<Rightarrow> parent \<Rightarrow> parent option" where
  "reload_ports api opened env env' s0 =
     (let s1 = run_ports (each_port (\<lambda>p. (p\<lparr>lp_seen := False\<rparr>, []))) s0 in
      case db_open_transaction api opened of
        None \<Rightarrow> None
      | Some db \<Rightarrow>
          Some (run_ports (each_port (reopen env'))
            (run_ports (each_port teardown)
              (run_ports (traverse_keys api db env) s1))))"

section \<open>Children\<close>

text \<open>The parent's side of the two forks; \<open>pid\<close> is what \<open>fork\<close> returned.\<close>

definition fork_cleanup_child :: "int \<Rightarrow> parent \<Rightarrow> parent" where
  "fork_cleanup_child pid s =
     (if pid < 0 then s
      else s\<lparr>pa_cleanup_pid := pid, pa_effects := pa_effects s @ [Forked_cleanup pid]\<rparr>)"

definition handle_connection :: "(listen_port \<Rightarrow> int) \<Rightarrow> listen_port \<Rightarrow> listen_port \<times> effects" where
  "handle_connection fork p =
     (let pid = fork p;
          (p', closed) = close_sockets (p\<lparr>lp_pid := pid\<rparr>)
      in (p', Forked_child (lp_port2 p) pid # closed))"

text \<open>The list as the children see it: \<open>handle_connection\<close> keeps pair \<open>i\<close> open, the cleanup child nothing.\<close>

definition child_ports :: "nat \<Rightarrow> listen_port list \<Rightarrow> listen_port list" where
  "child_ports i ps = map (\<lambda>(j, p). if j \<noteq> i then fst (close_sockets p) else p) (enumerate 0 ps)"

definition cleanup_child_ports :: "listen_port list \<Rightarrow> listen_port list" where
  "cleanup_child_ports ps = map (\<lambda>p. fst (close_sockets p)) ps"

definition child_exited :: "sock_env \<Rightarrow> listen_port \<Rightarrow> listen_port \<times> effects" where
  "child_exited env p =
     (let p1 = p\<lparr>lp_pid := 0\<rparr>;
          (p2, opened) = (if \<not> lp_removed p1 then open_sockets env p1 else (p1, []))
      in (p2, Conn_removed (lp_port2 p) # opened))"

text \<open>
  \<open>check_children\<close>: the answers of \<open>waitpid\<close>, each with the answer of the \<open>fork\<close> that would replace a
  dead cleanup child; the end of the list is the answer 0.
\<close>

fun check_children :: "sock_env \<Rightarrow> (int \<times> int) list \<Rightarrow> parent \<Rightarrow> parent" where
  "check_children env [] s = s"
| "check_children env ((pid, refork) # reaped) s =
     (if pid \<le> 0 then s
      else if pid = pa_cleanup_pid s then
        check_children env reaped (fork_cleanup_child refork (s\<lparr>pa_cleanup_pid := 0\<rparr>))
      else check_children env reaped
        (run_ports (\<lambda>ps. case first_port (\<lambda>p. lp_pid p = pid) (child_exited env) ps of
            None \<Rightarrow> (ps, []) | Some r \<Rightarrow> r) s))"

section \<open>Waiting for connections\<close>

definition socks :: "listen_port \<Rightarrow> int list" where
  "socks p = [sock1_udp p, sock2_udp p, sock1_tcp p, sock2_listen p]"

definition held :: "listen_port \<Rightarrow> int list" where
  "held p = filter (\<lambda>fd. fd \<noteq> -1) (socks p)"

definition listening :: "listen_port \<Rightarrow> bool" where
  "listening p \<longleftrightarrow> \<not> (lp_pid p \<noteq> 0 \<or> lp_removed p)"

text \<open>\<open>rebuild_epoll_set\<close> always fills a new epoll instance.\<close>

definition epoll_set :: "listen_port list \<Rightarrow> int list" where
  "epoll_set ps = concat (map held (filter listening ps))"

definition rebuild_epoll_set :: "parent \<Rightarrow> parent" where
  "rebuild_epoll_set s = s\<lparr>pa_epoll := epoll_set (pa_ports s)\<rparr>"

text \<open>One event: the first idle pair with that descriptor gets a child.\<close>

definition dispatch :: "(listen_port \<Rightarrow> int) \<Rightarrow> int \<Rightarrow> listen_port list \<Rightarrow> listen_port list \<times> effects" where
  "dispatch fork fd ps =
     (case first_port (\<lambda>p. listening p \<and> fd \<in> set (socks p)) (handle_connection fork) ps of
        None \<Rightarrow> (ps, []) | Some r \<Rightarrow> r)"

text \<open>What \<open>epoll_wait\<close> returned, with what the calls of that round will answer.\<close>

datatype 'db wait_event =
    Wait_eintr
  | Wait_error
  | Wait_timeout "(int \<times> int) list" sock_env usec "'db option" sock_env sock_env
  | Wait_events "int list" "listen_port \<Rightarrow> int"

text \<open>One round of \<open>wait_connection\<close>; \<open>None\<close> means that the process ends.\<close>

definition wait_round :: "'db tdb_api \<Rightarrow> 'db wait_event \<Rightarrow> parent \<Rightarrow> parent option" where
  "wait_round api ev s =
     (case ev of
        Wait_eintr \<Rightarrow> Some s
      | Wait_error \<Rightarrow> None
      | Wait_timeout reaped env0 now opened env env' \<Rightarrow>
          let s1 = check_children env0 reaped s in
          if now - pa_last_reload s1 > seconds 5 then
            map_option rebuild_epoll_set
              (reload_ports api opened env env' (s1\<lparr>pa_last_reload := now\<rparr>))
          else Some s1
      | Wait_events fds fork \<Rightarrow> Some (fold (\<lambda>fd. run_ports (dispatch fork fd)) fds s))"

primrec wait_rounds :: "'db tdb_api \<Rightarrow> 'db wait_event list \<Rightarrow> parent \<Rightarrow> parent option" where
  "wait_rounds api [] s = Some s"
| "wait_rounds api (ev # evs) s =
     (case wait_round api ev s of None \<Rightarrow> None | Some s' \<Rightarrow> wait_rounds api evs s')"

text \<open>\<open>main\<close> up to its first \<open>epoll_wait\<close>.\<close>

definition main_start ::
  "'db tdb_api \<Rightarrow> 'db option \<Rightarrow> sock_env \<Rightarrow> int \<Rightarrow> usec \<Rightarrow> parent option" where
  "main_start api opened env cleanup_pid now =
     (case db_open_transaction api opened of
        None \<Rightarrow> None
      | Some db \<Rightarrow>
          (case traverse_keys api db env [] of
             (ps, es) \<Rightarrow>
               Some (rebuild_epoll_set (fork_cleanup_child cleanup_pid
                 \<lparr>pa_ports = ps, pa_cleanup_pid = 0, pa_epoll = [], pa_last_reload = now, pa_effects = Conn_recreated # es\<rparr>))))"

lemmas [step_defs] = close_sockets_def open_sockets_def reconcile_def teardown_def reopen_def
  handle_connection_def child_exited_def

end
