(* ===== verification/Websocket.thy ===== *)
theory Websocket
  imports Prelude
begin

text \<open>
  \<open>websocket.h\<close> and \<open>websocket.cpp\<close>: detection, handshake, frame encoding and decoding of a
  WebSocket server connection, plain or over OpenSSL.

  OpenSSL and the kernel are parameters: what \<open>recv\<close>/\<open>SSL_read\<close>, \<open>send\<close>/\<open>SSL_write\<close> and
  \<open>SSL_accept\<close> answer is an argument of the call, and the Base64 of the SHA-1 digest is a
  function argument. The 1024-byte buffer \<open>pending\<close> is a list of that length; an access outside
  it, undefined behaviour in C++, is an explicit result.
\<close>

section \<open>Bytes and text\<close>

definition ascii :: "string \<Rightarrow> bytes" where
  "ascii s = map of_char s"

definition crlf :: bytes where
  "crlf = [13, 10]"

text \<open>\<open>std::string::find(pat, start)\<close>.\<close>

definition find_bytes :: "bytes \<Rightarrow> nat \<Rightarrow> bytes \<Rightarrow> nat option" where
  "find_bytes pat start hs = List.find (\<lambda>i. take (length pat) (drop i hs) = pat) [start..<Suc (length hs)]"

definition be_word :: "bytes \<Rightarrow> 'a::len word" where
  "be_word bs = le_word (rev bs)"

definition word_be :: "'a::len word \<Rightarrow> bytes" where
  "word_be w = rev (word_le w)"

lemma length_word_be [simp]: "length (word_be (w :: 'a::len word)) = LENGTH('a) div 8"
  by (simp add: word_be_def)

lemma be_word_word_be [simp]:
  "be_word (word_be (v :: u16)) = v" "be_word (word_be (w :: u64)) = w"
  by (simp_all add: be_word_def word_be_def)

section \<open>The connection\<close>

definition PENDING_SIZE :: nat where "PENDING_SIZE = 1024"

record websocket =
  ws_open :: bool              \<comment> \<open>\<open>fd >= 0\<close>\<close>
  ws_is_SSL :: bool
  ws_ssl :: bool               \<comment> \<open>\<open>ssl != nullptr\<close>\<close>
  ws_ssl_done :: bool          \<comment> \<open>\<open>SSL_handshake_complete\<close>\<close>
  ws_pending :: bytes
  ws_npending :: nat
  ws_done_headers :: bool
  ws_handshake :: bytes        \<comment> \<open>the first \<open>handshake_len\<close> bytes of \<open>handshake_buf\<close>\<close>
  ws_handshake_sent :: nat

definition ws_init :: websocket where
  "ws_init = \<lparr>ws_open = True, ws_is_SSL = False, ws_ssl = False, ws_ssl_done = False,
     ws_pending = replicate PENDING_SIZE 0, ws_npending = 0, ws_done_headers = False,
     ws_handshake = [], ws_handshake_sent = 0\<rparr>"

text \<open>Answers of the operating system and of OpenSSL.\<close>

datatype rx_result = Rx bytes | Rx_again | Rx_closed
datatype tx_result = Tx nat | Tx_again | Tx_error
datatype accept_result = Accept_ok | Accept_again | Accept_error

record ws_env =
  we_accept :: accept_result
  we_rx :: rx_result
  we_tx :: "tx_result list"     \<comment> \<open>successive answers; none left means \<open>EAGAIN\<close>\<close>

section \<open>Detection\<close>

definition ws_prefix :: bytes where
  "ws_prefix = ascii ''GET / HTTP/1.1''"

definition wss_prefix :: bytes where
  "wss_prefix = [0x16, 0x03, 0x01]"

text \<open>
  \<open>peek\<close>: the bytes a 14-byte \<open>MSG_PEEK\<close> returned (none on error). \<open>sizeof(ws_prefix)\<close> is the
  size of a pointer, 8, but \<open>strncmp\<close> compares all 14 characters of the zero-filled buffer.
\<close>

definition is_wss :: "bytes \<Rightarrow> bool" where
  "is_wss peek \<longleftrightarrow> 3 \<le> length peek \<and> take 3 peek = wss_prefix"

definition detect :: "bytes \<Rightarrow> bool" where
  "detect peek \<longleftrightarrow> is_wss peek \<or> 8 \<le> length peek \<and> take (length ws_prefix) (zero_pad 14 peek) = ws_prefix"

section \<open>Receiving\<close>

definition ws_close :: "websocket \<Rightarrow> websocket" where
  "ws_close w = w\<lparr>ws_open := False\<rparr>"

definition store_pending :: "bytes \<Rightarrow> websocket \<Rightarrow> websocket" where
  "store_pending bs w =
     w\<lparr>ws_pending := take (ws_npending w) (ws_pending w) @ bs @ drop (ws_npending w + length bs) (ws_pending w),
       ws_npending := ws_npending w + length bs\<rparr>"

definition fill_rx :: "rx_result \<Rightarrow> nat \<Rightarrow> websocket \<Rightarrow> websocket" where
  "fill_rx rx space w = (case rx of
     Rx bs \<Rightarrow> if bs = [] then ws_close w else store_pending (take space bs) w
   | Rx_again \<Rightarrow> w
   | Rx_closed \<Rightarrow> ws_close w)"

definition fill_pending :: "ws_env \<Rightarrow> websocket \<Rightarrow> websocket" where
  "fill_pending env w =
     (let space = (PENDING_SIZE - 1) - ws_npending w in
      if ws_open w \<and> space > 0 then
        if ws_ssl w then
          if \<not> ws_ssl_done w then
            (case we_accept env of
               Accept_again \<Rightarrow> w
             | Accept_error \<Rightarrow> ws_close w
             | Accept_ok \<Rightarrow> fill_rx (we_rx env) space (w\<lparr>ws_ssl_done := True\<rparr>))
          else fill_rx (we_rx env) space w
        else fill_rx (we_rx env) space w
      else w)"

section \<open>The handshake\<close>

definition ws_guid :: bytes where
  "ws_guid = ascii ''258EAFA5-E914-47DA-95CA-C5AB0DC85B11''"

definition handshake_response :: "bytes \<Rightarrow> bytes" where
  "handshake_response accept_val =
     ascii ''HTTP/1.1 101 Switching Protocols'' @ crlf
     @ ascii ''Upgrade: websocket'' @ crlf
     @ ascii ''Connection: Upgrade'' @ crlf
     @ ascii ''Sec-WebSocket-Accept: '' @ accept_val @ crlf @ crlf"

text \<open>The sending loop; the bytes sent are the second component.\<close>

fun handshake_loop :: "tx_result list \<Rightarrow> websocket \<Rightarrow> websocket \<times> bytes" where
  "handshake_loop [] w = (w, [])"
| "handshake_loop (r # rs) w =
     (if ws_handshake_sent w < length (ws_handshake w) then
        (case r of
           Tx_again \<Rightarrow> (w, [])
         | Tx_error \<Rightarrow> (ws_close w, [])
         | Tx k \<Rightarrow>
             let part = take k (drop (ws_handshake_sent w) (ws_handshake w));
                 (w1, out) = handshake_loop rs (w\<lparr>ws_handshake_sent := ws_handshake_sent w + length part\<rparr>)
             in (w1, part @ out))
      else (w, []))"

text \<open>
  \<open>accept key\<close> is the Base64 of the SHA-1 of its argument: 28 characters, so that
  the response always fits the 512 bytes of \<open>handshake_buf\<close>.
\<close>

definition send_handshake ::
  "(bytes \<Rightarrow> bytes) \<Rightarrow> tx_result list \<Rightarrow> bytes \<Rightarrow> websocket \<Rightarrow> (websocket \<times> bytes) \<times> bool" where
  "send_handshake accept txs key w =
     (let w1 = (if ws_handshake w = []
                then w\<lparr>ws_handshake := handshake_response (accept (key @ ws_guid)), ws_handshake_sent := 0\<rparr>
                else w);
          (w2, out) = handshake_loop txs w1
      in ((w2, out), ws_open w2 \<and> ws_handshake_sent w2 = length (ws_handshake w2)))"

definition header_text :: "websocket \<Rightarrow> bytes" where
  "header_text w = takeWhile (\<lambda>b. b \<noteq> 0) (take (ws_npending w) (ws_pending w))"

definition key_marker :: bytes where
  "key_marker = ascii ''Sec-WebSocket-Key: ''"

definition header_key :: "bytes \<Rightarrow> bytes option" where
  "header_key headers = (case find_bytes key_marker 0 headers of
     None \<Rightarrow> None
   | Some p \<Rightarrow> let key_pos = p + length key_marker in
       (case find_bytes crlf key_pos headers of
          None \<Rightarrow> None
        | Some e \<Rightarrow> Some (take (e - key_pos) (drop key_pos headers))))"

definition check_headers ::
  "(bytes \<Rightarrow> bytes) \<Rightarrow> tx_result list \<Rightarrow> websocket \<Rightarrow> websocket \<times> bytes" where
  "check_headers accept txs w = (case header_key (header_text w) of
     None \<Rightarrow> (w, [])
   | Some key \<Rightarrow> (case send_handshake accept txs key w of ((w1, out), ok) \<Rightarrow>
       (if ok then w1\<lparr>ws_done_headers := True, ws_npending := 0\<rparr> else w1, out)))"

text \<open>\<open>ssl_setup\<close>: loading certificate and key worked (the constructor returns early otherwise).\<close>

definition ws_new ::
  "(bytes \<Rightarrow> bytes) \<Rightarrow> ws_env \<Rightarrow> bytes \<Rightarrow> bool \<Rightarrow> websocket \<times> bytes" where
  "ws_new accept env peek ssl_setup =
     (if is_wss peek then
        if \<not> ssl_setup then (ws_init\<lparr>ws_is_SSL := True\<rparr>, [])
        else check_headers accept (we_tx env) (fill_pending env (ws_init\<lparr>ws_is_SSL := True, ws_ssl := True\<rparr>))
      else check_headers accept (we_tx env) (fill_pending env ws_init))"

section \<open>Frames\<close>

datatype decode_res = Decode_fail | Decode_ok bytes nat nat | Decode_oob

text \<open>Masked flag, payload length and the position behind the length field.\<close>

definition decode_header :: "bytes \<Rightarrow> nat \<Rightarrow> (bool \<times> u64 \<times> nat) option" where
  "decode_header buf n =
     (if n < 2 then None
      else let masked = (buf ! 1 AND 0x80 \<noteq> 0); len7 = buf ! 1 AND 0x7F in
        if len7 = 126 then
          if n < 4 then None else Some (masked, ucast (be_word (field buf 2 2) :: u16), 4)
        else if len7 = 127 then
          if n < 10 then None else Some (masked, be_word (field buf 2 8), 10)
        else Some (masked, ucast len7, 2))"

text \<open>The in-place unmasking loop; \<open>None\<close>: it runs out of the buffer.\<close>

function unmask :: "bytes \<Rightarrow> nat \<Rightarrow> nat \<Rightarrow> nat \<Rightarrow> bytes \<Rightarrow> bytes option" where
  "unmask mkey pos len i buf =
     (if i < len then
        if length buf \<le> pos + i then None
        else unmask mkey pos len (i + 1) (buf[i := buf ! (pos + i) XOR mkey ! (i mod 4)])
      else Some buf)"
  by pat_completeness auto
termination by (relation "measure (\<lambda>(_, _, len, i, _). len - i)") auto

declare unmask.simps [simp del]

text \<open>The length tests are those of the code, on 64-bit unsigned sums.\<close>

definition decode :: "bytes \<Rightarrow> nat \<Rightarrow> decode_res" where
  "decode buf n = (case decode_header buf n of
     None \<Rightarrow> Decode_fail
   | Some (masked, payload_len, pos) \<Rightarrow>
       if masked then
         if (of_nat n :: u64) < of_nat pos + 4 + payload_len then Decode_fail
         else (case unmask (field buf pos 4) (pos + 4) (unat payload_len) 0 buf of
                 None \<Rightarrow> Decode_oob
               | Some buf1 \<Rightarrow> Decode_ok buf1 (unat payload_len) (pos + 4 + unat payload_len))
       else
         if (of_nat n :: u64) < of_nat pos + payload_len then Decode_fail
         else if length buf < pos + unat payload_len then Decode_oob
         else Decode_ok (field buf pos (unat payload_len) @ drop (unat payload_len) buf)
                (unat payload_len) (pos + unat payload_len))"

definition frame_header :: "nat \<Rightarrow> bytes" where
  "frame_header n =
     (if n \<le> 125 then [0x82, of_nat n]
      else if n \<le> 65535 then [0x82, 126] @ word_be (of_nat n :: u16)
      else [0x82, 127] @ word_be (of_nat n :: u64))"

text \<open>\<open>send\<close>: its result and the bytes handed to the kernel that it accepted.\<close>

definition ws_send :: "tx_result \<Rightarrow> bytes \<Rightarrow> websocket \<Rightarrow> websocket \<times> bytes \<times> int" where
  "ws_send tx buf w =
     (let pkt = frame_header (length buf) @ buf in
      case tx of
        Tx_again \<Rightarrow> (w, [], 0)
      | Tx_error \<Rightarrow> (ws_close w, [], -1)
      | Tx k \<Rightarrow>
          let sent = take k pkt in
          if length sent < length pkt then (w, sent, 0)
          else (w, sent, int (length pkt) - int (length (frame_header (length buf)))))"

text \<open>
  \<open>recv\<close> into a buffer of \<open>n\<close> bytes: handshake bytes sent, result and data. \<open>None\<close>: \<open>decode\<close>
  accessed memory outside \<open>pending\<close>.
\<close>

definition consume :: "bytes \<Rightarrow> nat \<Rightarrow> websocket \<Rightarrow> websocket" where
  "consume buf used w =
     (let left = ws_npending w - used in
      w\<lparr>ws_pending := field buf used left @ drop left buf, ws_npending := left\<rparr>)"

definition ws_recv ::
  "(bytes \<Rightarrow> bytes) \<Rightarrow> ws_env \<Rightarrow> nat \<Rightarrow> websocket \<Rightarrow> (websocket \<times> bytes \<times> int \<times> bytes) option" where
  "ws_recv accept env n w =
     (let w1 = fill_pending env w in
      if \<not> ws_open w1 then Some (w1, [], -1, [])
      else let (w2, out) = (if \<not> ws_done_headers w1 then check_headers accept (we_tx env) w1 else (w1, [])) in
        case decode (ws_pending w2) (ws_npending w2) of
          Decode_fail \<Rightarrow> Some (w2, out, 0, [])
        | Decode_oob \<Rightarrow> None
        | Decode_ok buf len used \<Rightarrow>
            let m = min n len in Some (consume buf used w2, out, int m, take m buf))"

section \<open>Decoding, in closed form\<close>

lemma unmask_closed:
  assumes "i \<le> len" and "pos + len \<le> length buf" and "0 < pos"
  shows "unmask mkey pos len i buf =
    Some (take i buf @ map (\<lambda>j. buf ! (pos + j) XOR mkey ! (j mod 4)) [i..<len] @ drop len buf)"
  using assms
proof (induction "len - i" arbitrary: i buf)
  case 0
  then show ?case
    by (subst unmask.simps) simp
next
  case (Suc k)
  let ?v = "buf ! (pos + i) XOR mkey ! (i mod 4)"
  have i: "i < len" "i < length buf"
    using Suc by simp_all
  have "unmask mkey pos len i buf = unmask mkey pos len (i + 1) (buf[i := ?v])"
    using i Suc.prems by (subst unmask.simps) simp
  also have "\<dots> = Some (take (i + 1) (buf[i := ?v])
      @ map (\<lambda>j. buf[i := ?v] ! (pos + j) XOR mkey ! (j mod 4)) [i + 1..<len] @ drop len (buf[i := ?v]))"
    using Suc.hyps(2) Suc.prems by (intro Suc.hyps(1)) auto
  also have "map (\<lambda>j. buf[i := ?v] ! (pos + j) XOR mkey ! (j mod 4)) [i + 1..<len]
      = map (\<lambda>j. buf ! (pos + j) XOR mkey ! (j mod 4)) [i + 1..<len]"
    by (auto intro!: map_cong)
  also have "take (i + 1) (buf[i := ?v]) = take i buf @ [?v]"
    using i by (simp add: take_Suc_conv_app_nth)
  also have "drop len (buf[i := ?v]) = drop len buf"
    using i by simp
  finally show ?case
    using i by (simp add: upt_conv_Cons)
qed

lemma unmask_oob:
  assumes "i < len" and "length buf < pos + len"
  shows "unmask mkey pos len i buf = None"
  using assms
proof (induction "len - i" arbitrary: i buf)
  case 0
  then show ?case by simp
next
  case (Suc k)
  show ?case
  proof (cases "length buf \<le> pos + i")
    case True
    then show ?thesis
      using Suc.prems by (subst unmask.simps) auto
  next
    case False
    then have "unmask mkey pos len i buf = unmask mkey pos len (i + 1)
        (buf[i := buf ! (pos + i) XOR mkey ! (i mod 4)])"
      using Suc.prems by (subst unmask.simps) simp
    also have "\<dots> = None"
      using Suc.hyps(2) Suc.prems False by (intro Suc.hyps(1)) simp_all
    finally show ?thesis .
  qed
qed

text \<open>A frame a client sends: any first byte, the mask bit, a key of four bytes.\<close>

definition len_field :: "byte \<Rightarrow> nat \<Rightarrow> bytes" where
  "len_field flag n =
     (if n \<le> 125 then [flag OR of_nat n]
      else if n \<le> 65535 then [flag OR 126] @ word_be (of_nat n :: u16)
      else [flag OR 127] @ word_be (of_nat n :: u64))"

definition apply_mask :: "bytes \<Rightarrow> bytes \<Rightarrow> bytes" where
  "apply_mask mkey bs = map (\<lambda>j. bs ! j XOR mkey ! (j mod 4)) [0..<length bs]"

definition client_frame :: "byte \<Rightarrow> bytes \<Rightarrow> bytes \<Rightarrow> bytes" where
  "client_frame b0 mkey payload = [b0] @ len_field 0x80 (length payload) @ mkey @ apply_mask mkey payload"

lemma apply_mask_twice: "apply_mask mkey (apply_mask mkey bs) = bs"
  by (rule nth_equalityI) (simp_all add: apply_mask_def xor.assoc)

lemma length_apply_mask [simp]: "length (apply_mask mkey bs) = length bs"
  by (simp add: apply_mask_def)

lemma frame_header_len_field: "frame_header n = 0x82 # len_field 0 n"
  by (simp add: frame_header_def len_field_def)

text \<open>What \<open>decode_header\<close> reads of a length field, whatever follows it.\<close>

lemma small_length_field:
  assumes "(x :: u8) \<le> 125" and "flag = 0 \<or> flag = 0x80"
  shows "(flag OR x) AND 0x7F = x" and "(flag OR x) AND 0x80 \<noteq> 0 \<longleftrightarrow> flag = 0x80"
    and "x \<noteq> 126" and "x \<noteq> 127"
proof -
  have "\<forall>x \<in> set (map of_nat [0..<126]). \<forall>flag \<in> {0, 0x80 :: u8}.
      (flag OR x) AND 0x7F = x \<and> ((flag OR x) AND 0x80 \<noteq> 0 \<longleftrightarrow> flag = 0x80) \<and> x \<noteq> 126 \<and> x \<noteq> 127"
    by code_simp
  moreover have "x \<in> set (map of_nat [0..<126])"
    using assms(1) by (auto simp: word_le_nat_alt image_iff intro!: bexI [of _ "unat x"])
  ultimately have *: "(flag OR x) AND 0x7F = x \<and> ((flag OR x) AND 0x80 \<noteq> 0 \<longleftrightarrow> flag = 0x80) \<and> x \<noteq> 126 \<and> x \<noteq> 127"
    using assms(2) by blast
  from * show "(flag OR x) AND 0x7F = x" by blast
  from * show "(flag OR x) AND 0x80 \<noteq> 0 \<longleftrightarrow> flag = 0x80" by blast
  from * show "x \<noteq> 126" and "x \<noteq> 127" by blast+
qed

lemma ucast_of_nat_small:
  "n < 2 ^ LENGTH('a) \<Longrightarrow> ucast (of_nat n :: 'a::len word) = (of_nat n :: u64)"
  by (simp add: unsigned_of_nat take_bit_nat_eq_self)

lemma decode_header_len_field:
  assumes "flag = 0 \<or> flag = 0x80" and "n < 2 ^ 64" and "1 + length (len_field flag n) \<le> m"
  shows "decode_header (b0 # len_field flag n @ rest) m =
    Some (flag = 0x80, of_nat n, 1 + length (len_field flag n))"
proof -
  consider (small) "n \<le> 125" | (medium) "125 < n" "n \<le> 65535" | (large) "65535 < n"
    by linarith
  then show ?thesis
  proof cases
    case small
    then have le: "(of_nat n :: byte) \<le> 125"
      by (simp add: word_le_nat_alt unat_of_nat)
    show ?thesis
      using small assms(3) small_length_field [OF le assms(1)] ucast_of_nat_small [of n, where ?'a = 8]
      by (simp add: decode_header_def len_field_def Let_def)
  next
    case medium
    have "field (b0 # len_field flag n @ rest) 2 2 = word_be (of_nat n :: u16)"
      using medium by (simp add: len_field_def field_def)
    then show ?thesis
      using medium assms(1,3) ucast_of_nat_small [of n, where ?'a = 16]
      by (auto simp: decode_header_def len_field_def Let_def)
  next
    case large
    have "field (b0 # len_field flag n @ rest) 2 8 = word_be (of_nat n :: u64)"
      using large by (simp add: len_field_def field_def)
    then show ?thesis
      using large assms(1,3) by (auto simp: decode_header_def len_field_def Let_def)
  qed
qed

lemma length_len_field: "length (len_field flag n) = (if n \<le> 125 then 1 else if n \<le> 65535 then 3 else 9)"
  by (simp add: len_field_def)

lemma no_wrap:
  assumes "pos \<le> 14" and "n < 2 ^ 63" and "m < 2 ^ 63"
  shows "(of_nat m :: u64) < of_nat pos + of_nat n \<longleftrightarrow> m < pos + n"
proof -
  have "(of_nat pos + of_nat n :: u64) = of_nat (pos + n)"
    by simp
  moreover have "unat (of_nat (pos + n) :: u64) = pos + n" "unat (of_nat m :: u64) = m"
    using assms by (simp_all only: unat_of_nat) simp_all
  ultimately show ?thesis
    by (metis word_less_nat_alt)
qed

lemma decode_header_short:
  assumes "flag = 0 \<or> flag = 0x80" and "m < 1 + length (len_field flag n)"
  shows "decode_header (b0 # len_field flag n @ rest) m = None"
proof -
  consider (small) "n \<le> 125" | (medium) "125 < n" "n \<le> 65535" | (large) "65535 < n"
    by linarith
  then show ?thesis
    using assms by cases (auto simp: decode_header_def len_field_def Let_def)
qed

lemma decode_client_frame:
  assumes key: "length mkey = 4" and small: "length payload < 2 ^ 63" "m < 2 ^ 63"
    and m: "m \<le> length (client_frame b0 mkey payload @ rest)"
  shows "decode (client_frame b0 mkey payload @ rest) m =
    (if m < length (client_frame b0 mkey payload) then Decode_fail
     else Decode_ok (payload @ drop (length payload) (client_frame b0 mkey payload @ rest))
            (length payload) (length (client_frame b0 mkey payload)))"
proof -
  let ?L = "length payload" and ?pos = "1 + length (len_field 0x80 (length payload))"
  let ?buf = "client_frame b0 mkey payload @ rest"
  have buf: "?buf = b0 # len_field 0x80 ?L @ (mkey @ apply_mask mkey payload @ rest)"
    by (simp add: client_frame_def)
  have len: "length (client_frame b0 mkey payload) = ?pos + 4 + ?L"
    using key by (simp add: client_frame_def)
  have pos: "?pos + 4 \<le> 14"
    by (simp add: length_len_field)
  show ?thesis
  proof (cases "m < ?pos")
    case True
    then show ?thesis
      using decode_header_short [of "0x80" m ?L] len by (simp add: decode_def buf)
  next
    case False
    have hd: "decode_header ?buf m = Some (True, of_nat ?L, ?pos)"
      unfolding buf using False small(1) by (subst decode_header_len_field) auto
    have wrap: "(of_nat m :: u64) < of_nat ?pos + 4 + of_nat ?L \<longleftrightarrow> m < ?pos + 4 + ?L"
      using no_wrap [OF pos small] by (simp add: add.assoc)
    have ln: "unat (of_nat ?L :: u64) = ?L"
      using small(1) by (simp only: unat_of_nat) simp
    have k: "field ?buf ?pos 4 = mkey"
      using key by (simp add: buf field_def)
    have u: "unmask mkey (?pos + 4) ?L 0 ?buf = Some (payload @ drop ?L ?buf)" if "\<not> m < ?pos + 4 + ?L"
    proof -
      have "map (\<lambda>j. ?buf ! (?pos + 4 + j) XOR mkey ! (j mod 4)) [0..<?L]
          = apply_mask mkey (apply_mask mkey payload)"
        using key by (auto simp: buf nth_append apply_mask_def)
      then show ?thesis
        using that m by (subst unmask_closed) (simp_all add: apply_mask_twice)
    qed
    show ?thesis
      unfolding decode_def hd using wrap ln k u len by (simp del: of_nat_add of_nat_Suc)
  qed
qed

lemma decode_server_frame:
  assumes small: "length payload < 2 ^ 63" "m < 2 ^ 63"
    and m: "m \<le> length (frame_header (length payload) @ payload @ rest)"
  shows "decode (frame_header (length payload) @ payload @ rest) m =
    (if m < length (frame_header (length payload) @ payload) then Decode_fail
     else Decode_ok (payload @ drop (length payload) (frame_header (length payload) @ payload @ rest))
            (length payload) (length (frame_header (length payload) @ payload)))"
proof -
  let ?L = "length payload" and ?pos = "1 + length (len_field 0 (length payload))"
  let ?buf = "frame_header (length payload) @ payload @ rest"
  have buf: "?buf = 0x82 # len_field 0 ?L @ (payload @ rest)"
    by (simp add: frame_header_len_field)
  have len: "length (frame_header ?L @ payload) = ?pos + ?L"
    by (simp add: frame_header_len_field)
  have pos: "?pos \<le> 14"
    by (simp add: length_len_field)
  show ?thesis
  proof (cases "m < ?pos")
    case True
    then show ?thesis
      using decode_header_short [of 0 m ?L] len by (simp add: decode_def buf)
  next
    case False
    have hd: "decode_header ?buf m = Some (False, of_nat ?L, ?pos)"
      unfolding buf using False small(1) by (subst decode_header_len_field) auto
    have wrap: "(of_nat m :: u64) < of_nat ?pos + of_nat ?L \<longleftrightarrow> m < ?pos + ?L"
      using no_wrap [OF pos small] by simp
    have ln: "unat (of_nat ?L :: u64) = ?L"
      using small(1) by (simp only: unat_of_nat) simp
    have f: "field ?buf ?pos ?L = payload"
      by (simp add: buf field_def)
    have b: "?pos + ?L \<le> length ?buf"
      by (simp add: frame_header_len_field)
    show ?thesis
      unfolding decode_def hd using wrap ln f len b by (simp del: of_nat_add of_nat_Suc)
  qed
qed

section \<open>Frames as codecs\<close>

text \<open>The first payload in a buffer holding the received bytes, as \<open>recv\<close> sees it.\<close>

definition first_payload :: "bytes \<Rightarrow> bytes" where
  "first_payload bs = (case decode bs (min (length bs) (PENDING_SIZE - 1)) of
     Decode_ok buf len used \<Rightarrow> take len buf | _ \<Rightarrow> [])"

definition fits :: "nat \<Rightarrow> bytes \<Rightarrow> bool" where
  "fits overhead payload \<longleftrightarrow> overhead + length payload < PENDING_SIZE"

lemma first_payload_client:
  assumes "length mkey = 4" and "fits 8 payload"
  shows "first_payload (client_frame b0 mkey payload @ rest) = payload"
proof -
  have "length (client_frame b0 mkey payload) \<le> 8 + length payload"
    using assms by (simp add: client_frame_def length_len_field fits_def PENDING_SIZE_def)
  then show ?thesis
    using assms by (subst first_payload_def, subst decode_client_frame)
      (auto simp: fits_def PENDING_SIZE_def)
qed

lemma first_payload_server:
  assumes "fits 4 payload"
  shows "first_payload ((frame_header (length payload) @ payload) @ rest) = payload"
proof -
  have "length (frame_header (length payload) @ payload) \<le> 4 + length payload"
    using assms by (simp add: frame_header_len_field length_len_field fits_def PENDING_SIZE_def)
  then show ?thesis
    using assms decode_server_frame [of payload "min (length ((frame_header (length payload) @ payload) @ rest)) (PENDING_SIZE - 1)" rest]
    by (auto simp: first_payload_def fits_def PENDING_SIZE_def)
qed

interpretation client_codec: codec "client_frame b0 [k0, k1, k2, k3]" first_payload "fits 8"
  for b0 k0 k1 k2 k3 :: byte
  by unfold_locales (rule first_payload_client, simp_all)

interpretation server_codec: codec "\<lambda>payload. frame_header (length payload) @ payload" first_payload "fits 4"
  by unfold_locales (rule first_payload_server)

end
