(* ===== verification/Child.thy ===== *)
theory Child
  imports Mavlink Listener Websocket
begin

text \<open>
  The child process of one port pair, \<open>main_loop\<close> of \<open>supportproxy.cpp\<close>: the user's connection
  (\<open>conn1\<close>), the table of 100 support-engineer connections (\<open>conn2\<close>), and one round of the
  \<open>select\<close> loop as a sequence of handlers. Each handler gets what the system calls of that
  round answer; the generated MAVLink code and SHA-1/Base64 stay parameters.
\<close>

section \<open>WebSocket objects and the network\<close>

text \<open>
  The \<open>WebSocket\<close> objects that exist (\<open>None\<close>: not allocated, or deleted), whether a deleted one
  was used, what was written to each route, and the descriptors closed so far.
\<close>

record net =
  nt_ws :: "nat \<Rightarrow> websocket option"
  nt_next :: nat
  nt_bad :: bool
  nt_sent :: "(route \<times> bytes) list"
  nt_closed :: "int list"

definition net_send ::
  "(route \<Rightarrow> bytes \<Rightarrow> int) \<Rightarrow> tx_result \<Rightarrow> route \<Rightarrow> bytes \<Rightarrow> net \<Rightarrow> net \<times> int" where
  "net_send ans tx r buf n =
     (case r of
        Via_websocket w \<Rightarrow>
          (case nt_ws n w of
             None \<Rightarrow> (n\<lparr>nt_bad := True\<rparr>, -1)
           | Some ws \<Rightarrow> (case ws_send tx buf ws of (ws', wire, k) \<Rightarrow>
               (n\<lparr>nt_ws := (nt_ws n)(w \<mapsto> ws'), nt_sent := nt_sent n @ [(r, wire)]\<rparr>, k)))
      | _ \<Rightarrow> (n\<lparr>nt_sent := nt_sent n @ [(r, buf)]\<rparr>, ans r buf))"

text \<open>The answers of clock and kernel during one call on a link.\<close>

record sys =
  sy_send :: "route \<Rightarrow> bytes \<Rightarrow> int"
  sy_tx :: tx_result
  sy_now :: usec
  sy_dead :: bool
  sy_writable :: int
  sy_db_open :: bool
  sy_malloc :: "nat \<Rightarrow> bool"

definition mav_env_of :: "'db tdb_api \<Rightarrow> sys \<Rightarrow> (net, 'db) mav_env" where
  "mav_env_of api sy = \<lparr>en_send = net_send (sy_send sy) (sy_tx sy), en_now = sy_now sy, en_dead = sy_dead sy,
     en_writable = sy_writable sy, en_db = api, en_db_open = sy_db_open sy, en_malloc = sy_malloc sy\<rparr>"

section \<open>State\<close>

type_synonym peer = "u32 \<times> u16"   \<comment> \<open>\<open>sin_addr\<close> and \<open>sin_port\<close>\<close>

record conn2 =
  c2_sock :: int
  c2_used :: bool
  c2_tcp_active :: bool
  c2_mav :: mavlink
  c2_ws :: "nat option"
  c2_from :: peer
  c2_fromlen :: nat
  c2_is_udp :: bool
  c2_last_pkt :: usec
  c2_connected_at :: int
  c2_rx_msgs :: u32
  c2_tx_msgs :: u32

text \<open>
  \<open>ch_to_user\<close> and \<open>ch_to_eng\<close> are ghosts: the messages handed to \<open>send_message\<close> of the user's
  link (with the engineer they came from) and of the engineers' links.
\<close>

record ('p, 'db) child =
  ch_p :: listen_port
  ch_have_conn1 :: bool
  ch_last_pkt1 :: usec
  ch_count1 :: u32
  ch_count2 :: u32
  ch_max_conn2_count :: u8
  ch_conn2_count :: u8
  ch_mav1 :: mavlink
  ch_conn2 :: "conn2 list"
  ch_session_n :: u32
  ch_tlog :: tlog_writer
  ch_binlog :: binlog_writer
  ch_disk :: disk
  ch_mav1_peer :: peer
  ch_mav1_connected_at :: int
  ch_mav1_rx_msgs :: u32
  ch_mav1_tx_msgs :: u32
  ch_mav1_is_tcp :: bool
  ch_last_conn_save :: usec
  ch_glob :: "'p mav_global"
  ch_net :: net
  ch_db :: 'db
  ch_conndb :: 'db
  ch_saves :: "(mavlink \<times> (nat \<Rightarrow> signing option)) list"
  ch_crashed :: bool
  ch_to_user :: "(nat \<times> mavlink_msg) list"
  ch_to_eng :: "(nat \<times> mavlink_msg) list"

text \<open>What the child uses that is not part of the repository.\<close>

record ('p, 'db) ctx =
  cx_lib :: "'p mav_lib"
  cx_api :: "'db tdb_api"
  cx_accept :: "bytes \<Rightarrow> bytes"
  cx_decode_block :: "mavlink_msg \<Rightarrow> u32 \<times> bytes"
  cx_decode_time :: "mavlink_msg \<Rightarrow> u32"
  cx_pack_status :: "'p \<Rightarrow> u8 \<Rightarrow> u8 \<Rightarrow> u8 \<Rightarrow> u8 \<Rightarrow> u32 \<Rightarrow> u8 \<Rightarrow> 'p \<times> bytes"

datatype flow = Go | Continue | Break | Exit_1

definition flag_set :: "u32 \<Rightarrow> ('p, 'db) child \<Rightarrow> bool" where
  "flag_set f s \<longleftrightarrow> lp_flags (ch_p s) AND f \<noteq> 0"

abbreviation bidi :: "('p, 'db) child \<Rightarrow> bool" where "bidi \<equiv> flag_set KEY_FLAG_BIDI_SIGN"
abbreviation tlog_enabled :: "('p, 'db) child \<Rightarrow> bool" where "tlog_enabled \<equiv> flag_set KEY_FLAG_TLOG"
abbreviation binlog_enabled :: "('p, 'db) child \<Rightarrow> bool" where "binlog_enabled \<equiv> flag_set KEY_FLAG_BINLOG"

definition port2_int :: "('p, 'db) child \<Rightarrow> int" where
  "port2_int s = sint (lp_port2 (ch_p s))"

definition conn1_key_id :: "('p, 'db) child \<Rightarrow> int" where
  "conn1_key_id s = (if bidi s then port2_int s else -1)"

section \<open>Calls on a link\<close>

definition mav_st :: "mavlink \<Rightarrow> ('p, 'db) child \<Rightarrow> ('p, net, 'db) mav_state" where
  "mav_st m s = \<lparr>ms_mav = m, ms_glob = ch_glob s, ms_link = ch_net s, ms_db = ch_db s,
     ms_saves = ch_saves s, ms_crashed = ch_crashed s\<rparr>"

definition put_st :: "('p, net, 'db) mav_state \<Rightarrow> ('p, 'db) child \<Rightarrow> ('p, 'db) child" where
  "put_st st s = s\<lparr>ch_glob := ms_glob st, ch_net := ms_link st, ch_db := ms_db st,
     ch_saves := ms_saves st, ch_crashed := ms_crashed st\<rparr>"

definition on_mav1 ::
  "(('p, net, 'db) mav_state \<Rightarrow> ('p, net, 'db) mav_state \<times> 'r) \<Rightarrow> ('p, 'db) child \<Rightarrow> ('p, 'db) child \<times> 'r" where
  "on_mav1 f s = (case f (mav_st (ch_mav1 s) s) of (st, r) \<Rightarrow> ((put_st st s)\<lparr>ch_mav1 := ms_mav st\<rparr>, r))"

definition slot :: "nat \<Rightarrow> ('p, 'db) child \<Rightarrow> conn2" where
  "slot i s = ch_conn2 s ! i"

definition upd_slot :: "nat \<Rightarrow> (conn2 \<Rightarrow> conn2) \<Rightarrow> ('p, 'db) child \<Rightarrow> ('p, 'db) child" where
  "upd_slot i f s = s\<lparr>ch_conn2 := (ch_conn2 s)[i := f (slot i s)]\<rparr>"

definition on_slot ::
  "nat \<Rightarrow> (('p, net, 'db) mav_state \<Rightarrow> ('p, net, 'db) mav_state \<times> 'r) \<Rightarrow> ('p, 'db) child \<Rightarrow> ('p, 'db) child \<times> 'r" where
  "on_slot i f s = (case f (mav_st (c2_mav (slot i s)) s) of (st, r) \<Rightarrow>
     (upd_slot i (\<lambda>c. c\<lparr>c2_mav := ms_mav st\<rparr>) (put_st st s), r))"

text \<open>\<open>close_fd\<close> and \<open>delete\<close>.\<close>

definition net_close_fd :: "int \<Rightarrow> net \<Rightarrow> net" where
  "net_close_fd fd n = (if fd \<noteq> -1 then n\<lparr>nt_closed := nt_closed n @ [fd]\<rparr> else n)"

definition net_delete :: "nat option \<Rightarrow> net \<Rightarrow> net" where
  "net_delete w n = (case w of None \<Rightarrow> n | Some i \<Rightarrow> n\<lparr>nt_ws := (nt_ws n)(i := None)\<rparr>)"

definition net_new :: "websocket \<times> bytes \<Rightarrow> net \<Rightarrow> net" where
  "net_new w n = n\<lparr>nt_ws := (nt_ws n)(nt_next n \<mapsto> fst w), nt_next := nt_next n + 1,
     nt_sent := nt_sent n @ [(Via_websocket (nt_next n), snd w)]\<rparr>"

definition upd_net :: "(net \<Rightarrow> net) \<Rightarrow> ('p, 'db) child \<Rightarrow> ('p, 'db) child" where
  "upd_net f s = s\<lparr>ch_net := f (ch_net s)\<rparr>"

text \<open>\<open>Connection2::close\<close>: the link's own pointer to the deleted object stays.\<close>

definition conn2_closed :: "conn2 \<Rightarrow> conn2" where
  "conn2_closed c = c\<lparr>c2_sock := -1, c2_tcp_active := False, c2_used := False, c2_ws := None,
     c2_connected_at := 0, c2_rx_msgs := 0, c2_tx_msgs := 0\<rparr>"

definition close_slot :: "nat \<Rightarrow> ('p, 'db) child \<Rightarrow> ('p, 'db) child" where
  "close_slot i s =
     upd_slot i conn2_closed
       (upd_net (net_delete (c2_ws (slot i s)) \<circ> net_close_fd (c2_sock (slot i s))) s)"

text \<open>The bookkeeping after a failed send or an end of file.\<close>

definition drop_slot :: "nat \<Rightarrow> ('p, 'db) child \<Rightarrow> ('p, 'db) child" where
  "drop_slot i s =
     (let s1 = close_slot i s;
          s2 = (if ch_conn2_count s1 = ch_max_conn2_count s1
                then s1\<lparr>ch_max_conn2_count := ch_max_conn2_count s1 - 1\<rparr> else s1)
      in s2\<lparr>ch_conn2_count := ch_conn2_count s2 - 1\<rparr>)"

section \<open>Dropping connections on request\<close>

definition drop_requested :: "u32 \<Rightarrow> bytes \<times> bytes \<Rightarrow> bool" where
  "drop_requested port2 rec = (case rec of (k, d) \<Rightarrow>
     length k = sizeof_ConnKey \<and> CONNENTRY_MIN_SIZE \<le> length d \<and> fst (dec_ConnKey k) = port2
     \<and> (let e = dec_ConnEntry (zero_pad sizeof_ConnEntry d) in
         ce_magic e = CONN_MAGIC \<and> ce_flags e AND CONN_FLAG_DROP_REQUESTED \<noteq> 0))"

definition collect_drops :: "u32 \<Rightarrow> (bytes \<times> bytes) list \<Rightarrow> u32 list" where
  "collect_drops port2 recs = map (\<lambda>(k, _). snd (dec_ConnKey k)) (filter (drop_requested port2) recs)"

definition drop_index :: "u32 \<Rightarrow> ('p, 'db) child \<times> bool \<Rightarrow> ('p, 'db) child \<times> bool" where
  "drop_index idx st = (case st of (s, exit_loop) \<Rightarrow>
     let i = sint idx in
     if i = 0 then (s, True)
     else if i \<ge> 1 \<and> i \<le> int MAX_COMM2_LINKS then
       if c2_used (slot (nat (i - 1)) s) then
         let s1 = close_slot (nat (i - 1)) s;
             s2 = (if ch_conn2_count s1 > 0 then s1\<lparr>ch_conn2_count := ch_conn2_count s1 - 1\<rparr> else s1);
             s3 = (if ch_max_conn2_count s2 > 0 \<and> i = uint (ch_max_conn2_count s2)
                   then s2\<lparr>ch_max_conn2_count := ch_max_conn2_count s2 - 1\<rparr> else s2)
         in (s3, exit_loop)
       else (s, exit_loop)
     else (s, exit_loop))"

definition process_drops ::
  "('p, 'db) ctx \<Rightarrow> (nat \<Rightarrow> 'db open_result) \<Rightarrow> ('p, 'db) child \<Rightarrow> ('p, 'db) child \<times> bool" where
  "process_drops cx attempt s =
     (case conn_db_open_transaction (cx_api cx) attempt of
        None \<Rightarrow> (s, False)
      | Some db \<Rightarrow>
          let indices = collect_drops (lp_port2 (ch_p s)) (tdb_traverse (cx_api cx) db);
              db1 = fold (\<lambda>i d. fst (conn_delete (cx_api cx) d (lp_port2 (ch_p s)) i)) indices db;
              db2 = conn_db_close_commit (cx_api cx) db1
          in fold drop_index indices (s\<lparr>ch_conndb := db2\<rparr>, False))"

section \<open>Messages from the user\<close>

text \<open>The answers of the calls made for one message.\<close>

record msg_env =
  me_receive :: sys
  me_tlog_open :: open_env
  me_tlog_sec :: u64
  me_tlog_us :: u64
  me_tlog_short1 :: "nat option"
  me_tlog_short2 :: "nat option"
  me_block :: block_env
  me_listing :: "string list option"
  me_send :: "nat \<Rightarrow> sys"

definition log_message :: "('p, 'db) ctx \<Rightarrow> msg_env \<Rightarrow> mavlink_msg \<Rightarrow> ('p, 'db) child \<Rightarrow> ('p, 'db) child" where
  "log_message cx me msg s =
     (let (t, d) = (if tlog_enabled s \<and> \<not> tlog_is_open (ch_tlog s)
                    then fst (tlog_open (me_tlog_open me) (lp_port2 (ch_p s)) (ch_session_n s) ''logs'' (ch_tlog s, ch_disk s))
                    else (ch_tlog s, ch_disk s));
          (t1, d1) = tlog_write_message (cx_lib cx) (me_tlog_sec me) (me_tlog_us me)
                       (me_tlog_short1 me) (me_tlog_short2 me) (tlog_enabled s) msg (t, d)
      in s\<lparr>ch_tlog := t1, ch_disk := d1\<rparr>)"

definition is_remote_log :: "mavlink_msg \<Rightarrow> bool" where
  "is_remote_log msg \<longleftrightarrow> m_msgid msg = MAVLINK_MSG_ID_REMOTE_LOG_DATA_BLOCK
     \<or> m_msgid msg = MAVLINK_MSG_ID_REMOTE_LOG_BLOCK_STATUS"

text \<open>\<open>True\<close>: strip the message from what the engineers get.\<close>

definition binlog_handle_user_msg ::
  "('p, 'db) ctx \<Rightarrow> msg_env \<Rightarrow> mavlink_msg \<Rightarrow> ('p, 'db) child \<Rightarrow> ('p, 'db) child \<times> bool" where
  "binlog_handle_user_msg cx me msg s =
     (if \<not> binlog_enabled s then (s, False)
      else let s1 = s\<lparr>ch_binlog := observe (cx_decode_time cx) (me_listing me) msg (ch_binlog s)\<rparr> in
        if \<not> is_remote_log msg then (s1, False)
        else if m_msgid msg = MAVLINK_MSG_ID_REMOTE_LOG_DATA_BLOCK then
          (case handle_block (cx_decode_block cx) (me_block me) (lp_port2 (ch_p s1)) (ch_session_n s1) msg
                  (ch_binlog s1, ch_disk s1) of
             (b, d) \<Rightarrow> (s1\<lparr>ch_binlog := b, ch_disk := d\<rparr>, True))
        else (s1, True))"

definition inc_tx :: "conn2 \<Rightarrow> conn2" where
  "inc_tx c = c\<lparr>c2_tx_msgs := c2_tx_msgs c + 1\<rparr>"

definition send_slot ::
  "('p, 'db) ctx \<Rightarrow> sys \<Rightarrow> mavlink_msg \<Rightarrow> nat \<Rightarrow> ('p, 'db) child \<Rightarrow> ('p, 'db) child \<times> bool" where
  "send_slot cx sy msg i s =
     on_slot i (send_message (cx_lib cx) (mav_env_of (cx_api cx) sy) msg)
       (s\<lparr>ch_to_eng := ch_to_eng s @ [(i, msg)]\<rparr>)"

text \<open>One engineer's share of a message: the body of the loop for a UDP user, and for a TCP user.\<close>

definition forward_udp :: "('p, 'db) ctx \<Rightarrow> msg_env \<Rightarrow> mavlink_msg \<Rightarrow> nat \<Rightarrow> ('p, 'db) child \<Rightarrow> ('p, 'db) child" where
  "forward_udp cx me msg i s =
     (if \<not> c2_used (slot i s) then s
      else let s1 = (if \<not> c2_is_udp (slot i s) \<and> c2_sock (slot i s) \<noteq> -1 then
                       (case send_slot cx (me_send me i) msg i s of
                          (s', ok) \<Rightarrow> if \<not> ok then drop_slot i s' else upd_slot i inc_tx s')
                     else s)
           in if c2_is_udp (slot i s1)
              then upd_slot i inc_tx (fst (send_slot cx (me_send me i) msg i s1)) else s1)"

definition forward_tcp :: "('p, 'db) ctx \<Rightarrow> msg_env \<Rightarrow> mavlink_msg \<Rightarrow> nat \<Rightarrow> ('p, 'db) child \<Rightarrow> ('p, 'db) child" where
  "forward_tcp cx me msg i s =
     (if \<not> c2_used (slot i s) then s
      else (case send_slot cx (me_send me i) msg i s of
              (s', ok) \<Rightarrow> if \<not> ok then drop_slot i s' else upd_slot i inc_tx s'))"

text \<open>
  \<open>for (uint8_t i=0; i<max_conn2_count; i++)\<close>: the bound is read again before each turn, and no
  turn raises it. The array has 100 elements; an access behind it is recorded in \<open>ch_crashed\<close>.
\<close>

definition at_slot :: "(nat \<Rightarrow> ('p, 'db) child \<Rightarrow> ('p, 'db) child) \<Rightarrow> nat \<Rightarrow> ('p, 'db) child \<Rightarrow> ('p, 'db) child" where
  "at_slot f i s =
     (if \<not> i < unat (ch_max_conn2_count s) then s
      else if i < length (ch_conn2 s) then f i s
      else s\<lparr>ch_crashed := True\<rparr>)"

definition slots_loop :: "(nat \<Rightarrow> ('p, 'db) child \<Rightarrow> ('p, 'db) child) \<Rightarrow> ('p, 'db) child \<Rightarrow> ('p, 'db) child" where
  "slots_loop f s = fold (at_slot f) [0..<unat (ch_max_conn2_count s)] s"

text \<open>The slots a loop over the table visits, inside the array.\<close>

definition polled :: "('p, 'db) child \<Rightarrow> nat list" where
  "polled s = [0..<min (unat (ch_max_conn2_count s)) (length (ch_conn2 s))]"

definition handle_user_msg ::
  "('p, 'db) ctx \<Rightarrow> bool \<Rightarrow> msg_env \<Rightarrow> mavlink_msg \<Rightarrow> ('p, 'db) child \<Rightarrow> ('p, 'db) child" where
  "handle_user_msg cx udp me msg s =
     (let s1 = s\<lparr>ch_mav1_rx_msgs := ch_mav1_rx_msgs s + 1\<rparr>;
          s2 = log_message cx me msg s1
      in case binlog_handle_user_msg cx me msg s2 of
           (s3, True) \<Rightarrow> s3
         | (s3, False) \<Rightarrow> slots_loop (if udp then forward_udp cx me msg else forward_tcp cx me msg) s3)"

text \<open>Each message returned has used up at least one byte of the buffer.\<close>

lemma receive_bytes_shorter:
  "receive_bytes lib env buf st = (st', rest, Some msg) \<Longrightarrow> length rest < length buf"
proof (induction lib env buf st rule: receive_bytes.induct)
  case (2 lib env c cs st)
  obtain st1 out where "parse_char lib c st = (st1, out)"
    by (rule prod.exhaust)
  then show ?case
    using 2 by (cases out) (fastforce split: prod.splits if_splits)+
qed simp

definition receive_user ::
  "('p, 'db) ctx \<Rightarrow> sys \<Rightarrow> bytes \<Rightarrow> ('p, 'db) child \<Rightarrow> ('p, 'db) child \<times> bytes \<times> mavlink_msg option" where
  "receive_user cx sy buf s = on_mav1 (receive_message (cx_lib cx) (mav_env_of (cx_api cx) sy) buf) s"

definition receive_slot ::
  "('p, 'db) ctx \<Rightarrow> sys \<Rightarrow> nat \<Rightarrow> bytes \<Rightarrow> ('p, 'db) child \<Rightarrow> ('p, 'db) child \<times> bytes \<times> mavlink_msg option" where
  "receive_slot cx sy i buf s = on_slot i (receive_message (cx_lib cx) (mav_env_of (cx_api cx) sy) buf) s"

lemma receive_user_shorter: "receive_user cx sy buf s = (s', rest, Some msg) \<Longrightarrow> length rest < length buf"
  by (auto simp: receive_user_def on_mav1_def receive_message_def split: prod.splits
      dest: receive_bytes_shorter)

lemma receive_slot_shorter: "receive_slot cx sy i buf s = (s', rest, Some msg) \<Longrightarrow> length rest < length buf"
  by (auto simp: receive_slot_def on_slot_def receive_message_def split: prod.splits
      dest: receive_bytes_shorter)

text \<open>\<open>while (n > 0 && mav1.receive_message(buf0, n, msg))\<close>, for the \<open>k\<close>-th and later messages.\<close>

function user_msgs ::
  "('p, 'db) ctx \<Rightarrow> bool \<Rightarrow> (nat \<Rightarrow> msg_env) \<Rightarrow> nat \<Rightarrow> bytes \<Rightarrow> ('p, 'db) child \<Rightarrow> ('p, 'db) child" where
  "user_msgs cx udp me k buf s =
     (if buf = [] then s
      else case receive_user cx (me_receive (me k)) buf s of
             (s1, rest, None) \<Rightarrow> s1
           | (s1, rest, Some msg) \<Rightarrow> user_msgs cx udp me (Suc k) rest (handle_user_msg cx udp (me k) msg s1))"
  by pat_completeness auto

termination
  by (relation "measure (\<lambda>(cx, udp, me, k, buf, s). length buf)") (auto dest: receive_user_shorter [OF sym])

declare user_msgs.simps [simp del]

text \<open>Bytes are parsed only when an engineer, the telemetry log or the binary log needs them.\<close>

definition user_data ::
  "('p, 'db) ctx \<Rightarrow> bool \<Rightarrow> (nat \<Rightarrow> msg_env) \<Rightarrow> bytes \<Rightarrow> ('p, 'db) child \<Rightarrow> ('p, 'db) child" where
  "user_data cx udp me buf s =
     (if ch_conn2_count s > 0 \<or> binlog_enabled s \<or> tlog_enabled s
      then user_msgs cx udp me 0 buf s else s)"

section \<open>Messages from an engineer\<close>

definition send_user ::
  "('p, 'db) ctx \<Rightarrow> sys \<Rightarrow> nat \<Rightarrow> mavlink_msg \<Rightarrow> ('p, 'db) child \<Rightarrow> ('p, 'db) child \<times> bool" where
  "send_user cx sy i msg s =
     on_mav1 (send_message (cx_lib cx) (mav_env_of (cx_api cx) sy) msg)
       (s\<lparr>ch_to_user := ch_to_user s @ [(i, msg)]\<rparr>)"

text \<open>The loop over one engineer's bytes; the flag is \<open>failed\<close>.\<close>

function engineer_msgs ::
  "('p, 'db) ctx \<Rightarrow> (nat \<Rightarrow> msg_env) \<Rightarrow> nat \<Rightarrow> nat \<Rightarrow> bytes \<Rightarrow> ('p, 'db) child \<Rightarrow> ('p, 'db) child \<times> bool" where
  "engineer_msgs cx me i k buf s =
     (if buf = [] then (s, False)
      else case receive_slot cx (me_receive (me k)) i buf s of
             (s1, rest, None) \<Rightarrow> (s1, False)
           | (s1, rest, Some msg) \<Rightarrow>
               let s2 = log_message cx (me k) msg
                          (upd_slot i (\<lambda>c. c\<lparr>c2_rx_msgs := c2_rx_msgs c + 1\<rparr>) s1)
               in (case send_user cx (me_send (me k) 0) i msg s2 of
                     (s3, False) \<Rightarrow> (s3, True)
                   | (s3, True) \<Rightarrow> engineer_msgs cx me i (Suc k) rest
                       (s3\<lparr>ch_mav1_tx_msgs := ch_mav1_tx_msgs s3 + 1\<rparr>)))"
  by pat_completeness auto

termination
  by (relation "measure (\<lambda>(cx, me, i, k, buf, s). length buf)") (auto dest: receive_slot_shorter [OF sym])

declare engineer_msgs.simps [simp del]

definition engineer_data ::
  "('p, 'db) ctx \<Rightarrow> (nat \<Rightarrow> msg_env) \<Rightarrow> nat \<Rightarrow> bytes \<Rightarrow> ('p, 'db) child \<Rightarrow> ('p, 'db) child \<times> bool" where
  "engineer_data cx me i buf s = (if ch_have_conn1 s then engineer_msgs cx me i 0 buf s else (s, False))"

section \<open>The handlers of one round\<close>

definition upd_p :: "(listen_port \<Rightarrow> listen_port) \<Rightarrow> ('p, 'db) child \<Rightarrow> ('p, 'db) child" where
  "upd_p f s = s\<lparr>ch_p := f (ch_p s)\<rparr>"

definition close_tcp1 :: "('p, 'db) child \<Rightarrow> ('p, 'db) child" where
  "close_tcp1 s = upd_p (\<lambda>p. p\<lparr>sock1_tcp := -1\<rparr>) (upd_net (net_close_fd (sock1_tcp (ch_p s))) s)"

definition close_udp1 :: "('p, 'db) child \<Rightarrow> ('p, 'db) child" where
  "close_udp1 s = upd_p (\<lambda>p. p\<lparr>sock1_udp := -1\<rparr>) (upd_net (net_close_fd (sock1_udp (ch_p s))) s)"

definition init_mav1 ::
  "('p, 'db) ctx \<Rightarrow> sys \<Rightarrow> int \<Rightarrow> bool \<Rightarrow> ('p, 'db) child \<Rightarrow> ('p, 'db) child" where
  "init_mav1 cx sy fd tcp s =
     fst (on_mav1 (\<lambda>st. (mav_init (mav_env_of (cx_api cx) sy) fd CHAN_COMM1 (bidi s) False tcp (conn1_key_id s) st, ())) s)"

definition init_slot ::
  "('p, 'db) ctx \<Rightarrow> sys \<Rightarrow> nat \<Rightarrow> int \<Rightarrow> bool \<Rightarrow> bool \<Rightarrow> ('p, 'db) child \<Rightarrow> ('p, 'db) child" where
  "init_slot cx sy i fd allow_ws tcp s =
     fst (on_slot i (\<lambda>st. (mav_init (mav_env_of (cx_api cx) sy) fd (CHAN_COMM2 i) True allow_ws tcp (port2_int s) st, ())) s)"

definition dead_udp :: "usec \<Rightarrow> conn2 \<Rightarrow> bool" where
  "dead_udp now c \<longleftrightarrow> c2_used c \<and> c2_is_udp c \<and> now - c2_last_pkt c > seconds 10"

text \<open>The sweep calls \<open>close\<close> only: neither counter changes.\<close>

definition sweep_dead_udp :: "usec \<Rightarrow> ('p, 'db) child \<Rightarrow> ('p, 'db) child" where
  "sweep_dead_udp now = slots_loop (\<lambda>i s. if dead_udp now (slot i s) then close_slot i s else s)"

text \<open>\<open>recvfrom\<close> on the user's UDP socket: the datagram and its sender, \<open>None\<close> on error.\<close>

definition user_udp ::
  "('p, 'db) ctx \<Rightarrow> usec \<Rightarrow> int \<Rightarrow> (bytes \<times> peer) option \<Rightarrow> bool \<Rightarrow> sys \<Rightarrow> (nat \<Rightarrow> msg_env) \<Rightarrow>
   ('p, 'db) child \<Rightarrow> ('p, 'db) child \<times> flow" where
  "user_udp cx now time dgram connect_ok sy me s =
     (let s1 = close_tcp1 s in
      case dgram of
        None \<Rightarrow> (s1, Break)
      | Some (buf, from) \<Rightarrow>
          let s2 = s1\<lparr>ch_last_pkt1 := now, ch_count1 := ch_count1 s1 + 1\<rparr> in
          if \<not> ch_have_conn1 s2 then
            if \<not> connect_ok then (s2, Break)
            else let s3 = (init_mav1 cx sy (sock1_udp (ch_p s2)) False s2)\<lparr>ch_have_conn1 := True,
                            ch_mav1_peer := from, ch_mav1_connected_at := time, ch_mav1_is_tcp := False,
                            ch_last_conn_save := 0\<rparr>
                 in (user_data cx True me buf s3, Go)
          else (user_data cx True me buf s2, Go))"

definition same_udp_peer :: "peer \<Rightarrow> nat \<Rightarrow> conn2 \<Rightarrow> bool" where
  "same_udp_peer from fromlen c \<longleftrightarrow>
     c2_used c \<and> c2_is_udp c \<and> from = c2_from c \<and> fromlen = c2_fromlen c"

definition find_slot :: "(conn2 \<Rightarrow> bool) \<Rightarrow> nat \<Rightarrow> ('p, 'db) child \<Rightarrow> nat option" where
  "find_slot P n s = find (\<lambda>i. P (slot i s)) [0..<n]"

definition new_udp_slot ::
  "('p, 'db) ctx \<Rightarrow> usec \<Rightarrow> int \<Rightarrow> peer \<Rightarrow> nat \<Rightarrow> sys \<Rightarrow> nat \<Rightarrow> ('p, 'db) child \<Rightarrow> ('p, 'db) child" where
  "new_udp_slot cx now time from fromlen sy i s =
     (let s1 = upd_slot i (\<lambda>c. c\<lparr>c2_from := from, c2_fromlen := fromlen, c2_tcp_active := True,
                 c2_sock := -1, c2_is_udp := True\<rparr>) s;
          n = ch_conn2_count s1 + 1;
          s2 = s1\<lparr>ch_conn2_count := n, ch_max_conn2_count := max (ch_max_conn2_count s1) n\<rparr>;
          s3 = init_slot cx sy i (sock2_udp (ch_p s2)) False False s2;
          s4 = upd_slot i (\<lambda>c. c\<lparr>c2_mav := set_sendto from (c2_mav c), c2_used := True,
                 c2_last_pkt := now, c2_connected_at := time, c2_rx_msgs := 0, c2_tx_msgs := 0\<rparr>) s3
      in s4\<lparr>ch_last_conn_save := 0\<rparr>)"

definition engineer_udp ::
  "('p, 'db) ctx \<Rightarrow> usec \<Rightarrow> int \<Rightarrow> (bytes \<times> peer \<times> nat) option \<Rightarrow> sys \<Rightarrow> (nat \<Rightarrow> msg_env) \<Rightarrow>
   ('p, 'db) child \<Rightarrow> ('p, 'db) child \<times> flow" where
  "engineer_udp cx now time dgram sy me s =
     (case dgram of
        None \<Rightarrow> (s, Break)
      | Some (buf, from, fromlen) \<Rightarrow>
          let s1 = s\<lparr>ch_count2 := ch_count2 s + 1\<rparr>;
              (s2, idx) = (case find_slot (same_udp_peer from fromlen) (unat (ch_max_conn2_count s1)) s1 of
                 Some i \<Rightarrow> (upd_slot i (\<lambda>c. c\<lparr>c2_last_pkt := now\<rparr>) s1, Some i)
               | None \<Rightarrow> (case find_slot (\<lambda>c. \<not> c2_used c) MAX_COMM2_LINKS s1 of
                   Some i \<Rightarrow> (new_udp_slot cx now time from fromlen sy i s1, Some i)
                 | None \<Rightarrow> (s1, None)))
          in (case idx of
                None \<Rightarrow> (s2, Go)
              | Some i \<Rightarrow> (case engineer_data cx me i buf s2 of
                  (s3, failed) \<Rightarrow> (s3, if failed then Break else Go))))"

text \<open>\<open>accept\<close> on the user's TCP socket, which the connection then replaces.\<close>

definition user_tcp_accept ::
  "('p, 'db) ctx \<Rightarrow> usec \<Rightarrow> int \<Rightarrow> (int \<times> peer) option \<Rightarrow> sys \<Rightarrow> ('p, 'db) child \<Rightarrow> ('p, 'db) child \<times> flow" where
  "user_tcp_accept cx now time accepted sy s =
     (let s1 = close_udp1 s in
      case accepted of
        None \<Rightarrow> (s1, Break)
      | Some (fd2, from) \<Rightarrow>
          let s2 = upd_p (\<lambda>p. p\<lparr>sock1_tcp := fd2\<rparr>) (upd_net (net_close_fd (sock1_tcp (ch_p s1))) s1);
              s3 = s2\<lparr>ch_have_conn1 := True, ch_mav1_peer := from, ch_mav1_connected_at := time,
                      ch_mav1_is_tcp := True, ch_last_conn_save := 0\<rparr>;
              s4 = init_mav1 cx sy (sock1_tcp (ch_p s3)) True s3
          in (s4\<lparr>ch_last_pkt1 := now\<rparr>, Continue))"

text \<open>
  What a readable stream socket answers: the bytes \<open>detect\<close> peeks at, the calls of the \<open>WebSocket\<close>
  constructor and of \<open>WebSocket::recv\<close>, and plain \<open>recv\<close> (\<open>None\<close>: an error, \<open>[]\<close>: end of file).
\<close>

record tcp_in =
  ti_peek :: bytes
  ti_ssl_setup :: bool
  ti_ws_new :: ws_env
  ti_ws_recv :: ws_env
  ti_recv :: "bytes option"

datatype received = Got bytes | Nothing_yet | Eof

definition stream_recv ::
  "('p, 'db) ctx \<Rightarrow> tcp_in \<Rightarrow> nat option \<Rightarrow> ('p, 'db) child \<Rightarrow> ('p, 'db) child \<times> received" where
  "stream_recv cx ti ws s =
     (case ws of
        Some w \<Rightarrow>
          (case nt_ws (ch_net s) w of
             None \<Rightarrow> (upd_net (\<lambda>n. n\<lparr>nt_bad := True\<rparr>) s, Eof)
           | Some obj \<Rightarrow> (case ws_recv (cx_accept cx) (ti_ws_recv ti) 10239 obj of
               None \<Rightarrow> (s\<lparr>ch_crashed := True\<rparr>, Eof)
             | Some (obj', out, n, buf) \<Rightarrow>
                 (upd_net (\<lambda>n. n\<lparr>nt_ws := (nt_ws n)(w \<mapsto> obj'), nt_sent := nt_sent n @ [(Via_websocket w, out)]\<rparr>) s,
                  if n < 0 then Eof else if n = 0 then Nothing_yet else Got buf)))
      | None \<Rightarrow> (s, case ti_recv ti of None \<Rightarrow> Eof | Some [] \<Rightarrow> Eof | Some bs \<Rightarrow> Got (take 10239 bs)))"

definition user_tcp ::
  "('p, 'db) ctx \<Rightarrow> usec \<Rightarrow> tcp_in \<Rightarrow> (nat \<Rightarrow> msg_env) \<Rightarrow> ('p, 'db) child \<Rightarrow> ('p, 'db) child \<times> flow" where
  "user_tcp cx now ti me s =
     (let s1 = close_udp1 s;
          s2 = (if ch_count1 s1 = 0 \<and> detect (ti_peek ti)
                then let w = nt_next (ch_net s1);
                         t = upd_net (net_new (ws_new (cx_accept cx) (ti_ws_new ti) (ti_peek ti) (ti_ssl_setup ti))) s1
                     in (upd_p (\<lambda>p. p\<lparr>lp_ws := Some w\<rparr>) t)\<lparr>ch_mav1 := set_ws w (ch_mav1 t)\<rparr>
                else s1)
      in case stream_recv cx ti (lp_ws (ch_p s2)) s2 of
           (s3, Eof) \<Rightarrow> (s3, Break)
         | (s3, r) \<Rightarrow>
             let s4 = s3\<lparr>ch_last_pkt1 := now, ch_count1 := ch_count1 s3 + 1\<rparr>
             in (user_data cx False me (case r of Got buf \<Rightarrow> buf | _ \<Rightarrow> []) s4, Go))"

definition engineer_tcp_accept ::
  "('p, 'db) ctx \<Rightarrow> int \<Rightarrow> (int \<times> peer \<times> nat) option \<Rightarrow> sys \<Rightarrow> ('p, 'db) child \<Rightarrow> ('p, 'db) child \<times> flow" where
  "engineer_tcp_accept cx time accepted sy s =
     (case accepted of
        None \<Rightarrow> (s, Continue)
      | Some (fd2, from, fromlen) \<Rightarrow>
          if unat (ch_conn2_count s) \<ge> MAX_COMM2_LINKS then (upd_net (net_close_fd fd2) s, Continue)
          else (case find_slot (\<lambda>c. \<not> c2_used c) MAX_COMM2_LINKS s of
                  None \<Rightarrow> (upd_net (net_close_fd fd2) s, Continue)
                | Some i \<Rightarrow>
                    let s1 = upd_slot i (\<lambda>c. c\<lparr>c2_sock := fd2, c2_tcp_active := False, c2_used := True,
                               c2_is_udp := False, c2_from := from, c2_fromlen := fromlen,
                               c2_connected_at := time, c2_rx_msgs := 0, c2_tx_msgs := 0\<rparr>) s;
                        s2 = init_slot cx sy i fd2 True True (s1\<lparr>ch_last_conn_save := 0\<rparr>);
                        n = ch_conn2_count s2 + 1
                    in (s2\<lparr>ch_conn2_count := n, ch_max_conn2_count := max (ch_max_conn2_count s2) n\<rparr>, Continue)))"

text \<open>
  One turn of the loop over the engineers' stream sockets; the flag says that the loop was left
  by its \<open>break\<close>, after a failed send to the user.
\<close>

definition engineer_tcp_turn ::
  "('p, 'db) ctx \<Rightarrow> (int \<Rightarrow> bool) \<Rightarrow> (nat \<Rightarrow> tcp_in) \<Rightarrow> (nat \<Rightarrow> nat \<Rightarrow> msg_env) \<Rightarrow> nat \<Rightarrow>
   ('p, 'db) child \<times> bool \<Rightarrow> ('p, 'db) child \<times> bool" where
  "engineer_tcp_turn cx isset ti me i st = (case st of (s, left) \<Rightarrow>
     if left \<or> \<not> i < unat (ch_max_conn2_count s) then st
     else if \<not> i < length (ch_conn2 s) then (s\<lparr>ch_crashed := True\<rparr>, False)
     else let c = slot i s in
       if c2_is_udp c \<or> \<not> c2_used c \<or> c2_sock c = -1 \<or> \<not> isset (c2_sock c) then st
       else let s1 = (if \<not> c2_tcp_active c \<and> detect (ti_peek (ti i))
                      then let w = nt_next (ch_net s);
                               t = upd_net (net_new (ws_new (cx_accept cx) (ti_ws_new (ti i)) (ti_peek (ti i)) (ti_ssl_setup (ti i)))) s
                           in upd_slot i (\<lambda>c. c\<lparr>c2_ws := Some w, c2_mav := set_ws w (c2_mav c)\<rparr>) t
                      else s)
            in (case stream_recv cx (ti i) (c2_ws (slot i s1)) s1 of
                  (s2, Eof) \<Rightarrow> (drop_slot i s2, False)
                | (s2, Nothing_yet) \<Rightarrow> (s2, False)
                | (s2, Got buf) \<Rightarrow>
                    engineer_data cx (me i) i buf
                      (upd_slot i (\<lambda>c. c\<lparr>c2_tcp_active := True\<rparr>) (s2\<lparr>ch_count2 := ch_count2 s2 + 1\<rparr>))))"

definition engineer_tcp ::
  "('p, 'db) ctx \<Rightarrow> (int \<Rightarrow> bool) \<Rightarrow> (nat \<Rightarrow> tcp_in) \<Rightarrow> (nat \<Rightarrow> nat \<Rightarrow> msg_env) \<Rightarrow>
   ('p, 'db) child \<Rightarrow> ('p, 'db) child" where
  "engineer_tcp cx isset ti me s =
     fst (fold (engineer_tcp_turn cx isset ti me) [0..<unat (ch_max_conn2_count s)] (s, False))"

text \<open>The binary-log pump, through the user's link.\<close>

definition binlog_link :: "('p, 'db) ctx \<Rightarrow> sys \<Rightarrow> ('p, net, 'db) mav_state user_link" where
  "binlog_link cx sy = \<lparr>
     ul_pack_status = (\<lambda>st a b c d e f. case cx_pack_status cx (mg_lib (ms_glob st)) a b c d e f of
        (p', buf) \<Rightarrow> (st\<lparr>ms_glob := (ms_glob st)\<lparr>mg_lib := p'\<rparr>\<rparr>, buf)),
     ul_send_buf = (\<lambda>st buf. send_buf (mav_env_of (cx_api cx) sy) buf st)\<rparr>"

definition pump_binlog :: "('p, 'db) ctx \<Rightarrow> sys \<Rightarrow> usec \<Rightarrow> u32 list \<Rightarrow> ('p, 'db) child \<Rightarrow> ('p, 'db) child" where
  "pump_binlog cx sy now order s =
     (if binlog_enabled s \<and> ch_have_conn1 s then
        (case on_mav1 (\<lambda>st. case tick (binlog_link cx sy) now order (ch_binlog s, (st, [])) of
                              (b, (st', _)) \<Rightarrow> (st', b)) s of
           (s', b) \<Rightarrow> s'\<lparr>ch_binlog := b\<rparr>)
      else s)"

section \<open>The live-connection snapshot\<close>

definition is_SSL :: "nat option \<Rightarrow> ('p, 'db) child \<Rightarrow> bool" where
  "is_SSL w s = (case w of None \<Rightarrow> False
     | Some i \<Rightarrow> (case nt_ws (ch_net s) i of None \<Rightarrow> False | Some obj \<Rightarrow> ws_is_SSL obj))"

definition user_entry :: "u32 \<Rightarrow> int \<Rightarrow> ('p, 'db) child \<Rightarrow> conn_entry" where
  "user_entry pid now_t s = \<lparr>ce_magic = CONN_MAGIC, ce_connected_at = word_of_int (ch_mav1_connected_at s),
     ce_last_update = word_of_int now_t, ce_port2 = lp_port2 (ch_p s), ce_conn_index = 0, ce_pid = pid,
     ce_rx_msgs = ch_mav1_rx_msgs s, ce_tx_msgs = ch_mav1_tx_msgs s, ce_peer_ip_be = fst (ch_mav1_peer s),
     ce_peer_port_be = snd (ch_mav1_peer s),
     ce_transport = (if lp_ws (ch_p s) \<noteq> None
                     then if is_SSL (lp_ws (ch_p s)) s then CONN_TRANSPORT_WSS else CONN_TRANSPORT_WS
                     else if ch_mav1_is_tcp s then CONN_TRANSPORT_TCP else CONN_TRANSPORT_UDP),
     ce_is_user = 1, ce_flags = 0, ce_pad = 0\<rparr>"

definition engineer_entry :: "u32 \<Rightarrow> int \<Rightarrow> nat \<Rightarrow> ('p, 'db) child \<Rightarrow> conn_entry" where
  "engineer_entry pid now_t i s = (let c = slot i s in
     \<lparr>ce_magic = CONN_MAGIC, ce_connected_at = word_of_int (c2_connected_at c), ce_last_update = word_of_int now_t,
      ce_port2 = lp_port2 (ch_p s), ce_conn_index = of_nat (i + 1), ce_pid = pid,
      ce_rx_msgs = c2_rx_msgs c, ce_tx_msgs = c2_tx_msgs c, ce_peer_ip_be = fst (c2_from c),
      ce_peer_port_be = snd (c2_from c),
      ce_transport = (if c2_is_udp c then CONN_TRANSPORT_UDP
                      else if c2_ws c \<noteq> None
                      then if is_SSL (c2_ws c) s then CONN_TRANSPORT_WSS else CONN_TRANSPORT_WS
                      else CONN_TRANSPORT_TCP),
      ce_is_user = 0, ce_flags = 0, ce_pad = 0\<rparr>)"

definition snapshot_entries :: "u32 \<Rightarrow> int \<Rightarrow> ('p, 'db) child \<Rightarrow> conn_entry list" where
  "snapshot_entries pid now_t s =
     (if ch_have_conn1 s then [user_entry pid now_t s] else [])
     @ map (\<lambda>i. engineer_entry pid now_t i s)
         (filter (\<lambda>i. c2_used (slot i s)) (polled s))"

text \<open>What the grandchild makes of \<open>connections.tdb\<close>.\<close>

definition write_snapshot ::
  "('p, 'db) ctx \<Rightarrow> (nat \<Rightarrow> bool) \<Rightarrow> (nat \<Rightarrow> 'db open_result) \<Rightarrow> u32 \<Rightarrow> int \<Rightarrow> ('p, 'db) child \<Rightarrow> 'db" where
  "write_snapshot cx malloc_ok attempt pid now_t s =
     (case conn_db_open_transaction (cx_api cx) attempt of
        None \<Rightarrow> ch_conndb s
      | Some db \<Rightarrow>
          let db1 = fst (conn_delete_for_port2 (cx_api cx) db (lp_port2 (ch_p s)));
              db2 = fold (\<lambda>e d. fst (conn_write (cx_api cx) malloc_ok d e)) (snapshot_entries pid now_t s) db1
          in conn_db_close_commit (cx_api cx) db2)"

text \<open>The answers for one snapshot; \<open>None\<close>: \<open>fork\<close> failed.\<close>

record 'db snap_in =
  si_malloc :: "nat \<Rightarrow> bool"
  si_attempt :: "nat \<Rightarrow> 'db open_result"
  si_time :: int

definition snapshot ::
  "('p, 'db) ctx \<Rightarrow> u32 \<Rightarrow> usec \<Rightarrow> 'db snap_in option \<Rightarrow> ('p, 'db) child \<Rightarrow> ('p, 'db) child" where
  "snapshot cx pid snap_now si s =
     (if snap_now - ch_last_conn_save s > seconds 5 then
        let s1 = s\<lparr>ch_last_conn_save := snap_now\<rparr> in
        (case si of None \<Rightarrow> s1
         | Some x \<Rightarrow> s1\<lparr>ch_conndb := write_snapshot cx (si_malloc x) (si_attempt x) pid (si_time x) s1\<rparr>)
      else s)"

section \<open>One round of the loop\<close>

datatype select_result = Select_eintr | Select_end | Select_ready "int \<Rightarrow> bool"

record 'db round_in =
  ri_drops :: "(nat \<Rightarrow> 'db open_result) option"       \<comment> \<open>\<open>Some\<close>: \<open>g_drops_pending\<close> is set\<close>
  ri_now0 :: usec
  ri_select :: select_result
  ri_now :: usec
  ri_time :: int
  ri_user_udp :: "(bytes \<times> peer) option"
  ri_user_connect :: bool
  ri_init1 :: sys
  ri_msgs1 :: "nat \<Rightarrow> msg_env"
  ri_engineer_udp :: "(bytes \<times> peer \<times> nat) option"
  ri_init2 :: sys
  ri_msgs2 :: "nat \<Rightarrow> msg_env"
  ri_accept1 :: "(int \<times> peer) option"
  ri_tcp1 :: tcp_in
  ri_accept2 :: "(int \<times> peer \<times> nat) option"
  ri_tcp2 :: "nat \<Rightarrow> tcp_in"
  ri_msgs_tcp2 :: "nat \<Rightarrow> nat \<Rightarrow> msg_env"
  ri_tick :: sys
  ri_tick_now :: usec
  ri_tick_order :: "u32 list"
  ri_snap_now :: usec
  ri_snap :: "'db snap_in option"

text \<open>
  The descriptors in the set given to \<open>select\<close>; collecting them reads the table up to
  \<open>max_conn2_count\<close> before that number is checked.
\<close>

definition select_fds :: "('p, 'db) child \<Rightarrow> int list" where
  "select_fds s = filter (\<lambda>fd. fd \<noteq> -1)
     (socks (ch_p s) @ map (\<lambda>i. c2_sock (slot i s)) (polled s))"

definition check_table :: "('p, 'db) child \<Rightarrow> ('p, 'db) child" where
  "check_table s = (if unat (ch_max_conn2_count s) > length (ch_conn2 s) then s\<lparr>ch_crashed := True\<rparr> else s)"

definition and_then ::
  "('p, 'db) child \<times> flow \<Rightarrow> (('p, 'db) child \<Rightarrow> ('p, 'db) child \<times> flow) \<Rightarrow> ('p, 'db) child \<times> flow" where
  "and_then r f = (case r of (s, Go) \<Rightarrow> f s | _ \<Rightarrow> r)"

definition stream_phase ::
  "('p, 'db) ctx \<Rightarrow> (int \<Rightarrow> bool) \<Rightarrow> 'db round_in \<Rightarrow> ('p, 'db) child \<Rightarrow> ('p, 'db) child \<times> flow" where
  "stream_phase cx isset ri s0 =
     and_then (and_then (and_then (s0, Go)
       (\<lambda>s. if \<not> ch_have_conn1 s \<and> sock1_tcp (ch_p s) \<noteq> -1 \<and> isset (sock1_tcp (ch_p s))
             then user_tcp_accept cx (ri_now ri) (ri_time ri) (ri_accept1 ri) (ri_init1 ri) s else (s, Go)))
       (\<lambda>s. if sock1_tcp (ch_p s) \<noteq> -1 \<and> isset (sock1_tcp (ch_p s))
             then user_tcp cx (ri_now ri) (ri_tcp1 ri) (ri_msgs1 ri) s else (s, Go)))
       (\<lambda>s. if sock2_listen (ch_p s) \<noteq> -1 \<and> isset (sock2_listen (ch_p s))
             then engineer_tcp_accept cx (ri_time ri) (ri_accept2 ri) (ri_init2 ri) s else (s, Go))"

definition datagram_phase ::
  "('p, 'db) ctx \<Rightarrow> (int \<Rightarrow> bool) \<Rightarrow> 'db round_in \<Rightarrow> ('p, 'db) child \<Rightarrow> ('p, 'db) child \<times> flow" where
  "datagram_phase cx isset ri s0 =
     and_then
       (if sock1_udp (ch_p s0) \<noteq> -1 \<and> isset (sock1_udp (ch_p s0))
        then user_udp cx (ri_now ri) (ri_time ri) (ri_user_udp ri) (ri_user_connect ri) (ri_init1 ri) (ri_msgs1 ri) s0
        else (s0, Go))
       (\<lambda>s. if sock2_udp (ch_p s) \<noteq> -1 \<and> isset (sock2_udp (ch_p s))
             then engineer_udp cx (ri_now ri) (ri_time ri) (ri_engineer_udp ri) (ri_init2 ri) (ri_msgs2 ri) s
             else (s, Go))"

text \<open>From the return of \<open>select\<close> to the end of the loop's body.\<close>

definition serve ::
  "('p, 'db) ctx \<Rightarrow> u32 \<Rightarrow> (int \<Rightarrow> bool) \<Rightarrow> 'db round_in \<Rightarrow> ('p, 'db) child \<Rightarrow> ('p, 'db) child \<times> flow" where
  "serve cx pid isset ri s =
     (if unat (ch_max_conn2_count s) > MAX_COMM2_LINKS then (s, Exit_1)
      else and_then (and_then (datagram_phase cx isset ri (sweep_dead_udp (ri_now ri) s)) (stream_phase cx isset ri))
        (\<lambda>s1. let s2 = engineer_tcp cx isset (ri_tcp2 ri) (ri_msgs_tcp2 ri) s1;
                   s3 = pump_binlog cx (ri_tick ri) (ri_tick_now ri) (ri_tick_order ri) s2
               in (snapshot cx pid (ri_snap_now ri) (ri_snap ri) s3, Go)))"

definition round ::
  "('p, 'db) ctx \<Rightarrow> u32 \<Rightarrow> 'db round_in \<Rightarrow> ('p, 'db) child \<Rightarrow> ('p, 'db) child \<times> flow" where
  "round cx pid ri s =
     (case (case ri_drops ri of None \<Rightarrow> (s, False) | Some attempt \<Rightarrow> process_drops cx attempt s) of
        (s1, True) \<Rightarrow> (s1, Break)
      | (s1, False) \<Rightarrow>
          if ch_have_conn1 s1 \<and> ri_now0 ri - ch_last_pkt1 s1 > seconds 10 then (s1, Break)
          else let s2 = check_table s1 in
            (case ri_select ri of
               Select_eintr \<Rightarrow> (s2, Continue)
             | Select_end \<Rightarrow> (s2, Break)
             | Select_ready ready \<Rightarrow>
                 serve cx pid (\<lambda>fd. fd \<in> set (select_fds s2) \<and> ready fd) ri s2))"

text \<open>The loop: it ends at a \<open>break\<close> or \<open>exit(1)\<close>; \<open>Go\<close>: the inputs are used up and it is still running.\<close>

primrec main_rounds ::
  "('p, 'db) ctx \<Rightarrow> u32 \<Rightarrow> 'db round_in list \<Rightarrow> ('p, 'db) child \<Rightarrow> ('p, 'db) child \<times> flow" where
  "main_rounds cx pid [] s = (s, Go)"
| "main_rounds cx pid (ri # ris) s =
     (case round cx pid ri s of
        (s1, Break) \<Rightarrow> (s1, Break)
      | (s1, Exit_1) \<Rightarrow> (s1, Exit_1)
      | (s1, _) \<Rightarrow> main_rounds cx pid ris s1)"

section \<open>Start and end\<close>

text \<open>A link as it is before \<open>init\<close>: what its constructor does not set is \<open>m0\<close>.\<close>

definition conn2_init :: "mavlink \<Rightarrow> conn2" where
  "conn2_init m0 = \<lparr>c2_sock = -1, c2_used = False, c2_tcp_active = False, c2_mav = m0, c2_ws = None,
     c2_from = (0, 0), c2_fromlen = 0, c2_is_udp = False, c2_last_pkt = 0, c2_connected_at = 0,
     c2_rx_msgs = 0, c2_tx_msgs = 0\<rparr>"

definition child_start ::
  "mavlink \<Rightarrow> (nat \<Rightarrow> mavlink) \<Rightarrow> 'p mav_global \<Rightarrow> disk \<Rightarrow> 'db \<Rightarrow> 'db \<Rightarrow> string list option \<Rightarrow> listen_port \<Rightarrow>
   ('p, 'db) child" where
  "child_start m1 ms g disk db conndb listing p =
     \<lparr>ch_p = p, ch_have_conn1 = False, ch_last_pkt1 = 0, ch_count1 = 0, ch_count2 = 0,
      ch_max_conn2_count = 0, ch_conn2_count = 0, ch_mav1 = m1,
      ch_conn2 = map (\<lambda>i. conn2_init (ms i)) [0..<MAX_COMM2_LINKS],
      ch_session_n = next_session_n listing, ch_tlog = tlog_init,
      ch_binlog = (if lp_flags p AND KEY_FLAG_BINLOG \<noteq> 0
                   then set_fc_sysid_filter (lp_fc_sysid p) binlog_init else binlog_init),
      ch_disk = disk, ch_mav1_peer = (0, 0), ch_mav1_connected_at = 0, ch_mav1_rx_msgs = 0,
      ch_mav1_tx_msgs = 0, ch_mav1_is_tcp = False, ch_last_conn_save = 0, ch_glob = g,
      ch_net = \<lparr>nt_ws = Map.empty, nt_next = 0, nt_bad = False, nt_sent = [], nt_closed = []\<rparr>,
      ch_db = db, ch_conndb = conndb, ch_saves = [], ch_crashed = False, ch_to_user = [], ch_to_eng = []\<rparr>"

text \<open>The statistics written when the loop has been left; \<open>opened\<close>: \<open>tdb_open\<close> succeeds, \<open>ke0\<close> is uninitialised.\<close>

definition save_counts ::
  "'db tdb_api \<Rightarrow> (nat \<Rightarrow> bool) \<Rightarrow> bool \<Rightarrow> key_entry \<Rightarrow> ('p, 'db) child \<Rightarrow> 'db" where
  "save_counts api malloc_ok opened ke0 s =
     (if ch_count1 s \<noteq> 0 \<or> ch_count2 s \<noteq> 0 then
        (case db_open_transaction api (if opened then Some (ch_db s) else None) of
           None \<Rightarrow> ch_db s
         | Some db \<Rightarrow> (case db_load_key api db (lp_port2 (ch_p s)) ke0 of
             (True, ke) \<Rightarrow> db_close_commit api (fst (db_save_key api malloc_ok db (lp_port2 (ch_p s))
                 (ke\<lparr>ke_count1 := ke_count1 ke + ch_count1 s, ke_count2 := ke_count2 ke + ch_count2 s,
                     ke_connections := ke_connections ke + 1\<rparr>)))
           | (False, _) \<Rightarrow> db_close_cancel api db))
      else ch_db s)"

end
