(* ===== verification/Mavlink_Props.thy ===== *)
theory Mavlink_Props
  imports Mavlink
begin

text \<open>
  Properties of a MAVLink link: what reaches the other side, what is sent before the engineer has
  proved the key, and how signing keys and timestamps are loaded, replaced and saved.
\<close>

section \<open>Small facts\<close>

lemma put_channel_sel [simp, frame_simps]:
  "mg_bad_sig (put_channel c r g) = mg_bad_sig g"
  "mg_signing (put_channel c r g) = (mg_signing g)(c := snd r)"
  "mg_lib (put_channel c r g) = fst r"
  by (simp_all add: put_channel_def)

lemma upd_mav_sel [simp, frame_simps]:
  "ms_mav (upd_mav f st) = f (ms_mav st)"
  "ms_glob (upd_mav f st) = ms_glob st"
  "ms_link (upd_mav f st) = ms_link st"
  "ms_db (upd_mav f st) = ms_db st"
  by (simp_all add: upd_mav_def)

lemma parse_char_mav [simp]: "ms_mav (fst (parse_char lib c st)) = ms_mav st"
  by (simp add: parse_char_def Let_def split: prod.split option.split)

lemma transmit_mav [simp]: "ms_mav (fst (transmit lib env msg st)) = ms_mav st"
  by (simp add: transmit_def send_data_def Let_def split: prod.split)

lemma update_timestamp_mav:
  "ms_mav (update_signing_timestamp env st) = ms_mav st
   \<or> ms_mav (update_signing_timestamp env st) = (ms_mav st)\<lparr>mv_last_signing_save := en_now env\<rparr>"
  by (simp add: update_signing_timestamp_def Let_def)

section \<open>What is delivered\<close>

text \<open>
  The generated parser leaves the link id of the attached signing record alone and never attaches
  or detaches one; the id is the channel number, as \<open>load_signing_key\<close> set it.
\<close>

definition parser_keeps_link :: "'p mav_lib \<Rightarrow> bool" where
  "parser_keeps_link lib \<longleftrightarrow>
     (\<forall>p c sg b. map_option sg_link_id (snd (fst (lib_parse lib p c sg b))) = map_option sg_link_id sg)"

definition link_ok :: "('p, 'l, 'db) mav_state \<Rightarrow> bool" where
  "link_ok st \<longleftrightarrow> mv_chan (ms_mav st) < MAVLINK_COMM_NUM_BUFFERS
     \<and> (\<forall>sg. mg_signing (ms_glob st) (mv_chan (ms_mav st)) = Some sg \<longrightarrow> sg_link_id sg = of_nat (mv_chan (ms_mav st)))"

lemma parse_char_link_ok:
  assumes "parser_keeps_link lib" and "link_ok st"
  shows "link_ok (fst (parse_char lib c st))"
proof -
  let ?g = "ms_glob st" and ?chan = "mv_chan (ms_mav st)"
  obtain r out where r: "lib_parse lib (mg_lib ?g) ?chan (mg_signing ?g ?chan) c = (r, out)"
    by (rule prod.exhaust)
  have "map_option sg_link_id (snd r) = map_option sg_link_id (mg_signing ?g ?chan)"
    using assms(1) r unfolding parser_keeps_link_def by (metis fst_conv)
  then have "sg_link_id sg = of_nat ?chan" if "snd r = Some sg" for sg
    using that assms(2) by (cases "mg_signing ?g ?chan") (auto simp: link_ok_def)
  then show ?thesis
    using assms(2) r
    by (auto simp: link_ok_def parse_char_def Let_def accept_unsigned_callback_def split: option.splits prod.splits)
qed

text \<open>A parsed message whose signature was rejected marks the channel.\<close>

lemma parse_char_marks:
  assumes "parser_keeps_link lib" and "link_ok st" and "parse_char lib c st = (st1, Some msg)"
    and "lib_parse lib (mg_lib (ms_glob st)) (mv_chan (ms_mav st)) (mg_signing (ms_glob st) (mv_chan (ms_mav st))) c
          = (r, Some (msg', True))" and "snd r \<noteq> None"
  shows "mg_bad_sig (ms_glob st1) (mv_chan (ms_mav st))"
proof -
  let ?g = "ms_glob st" and ?chan = "mv_chan (ms_mav st)"
  obtain sg where sg: "snd r = Some sg"
    using assms(5) by auto
  have "map_option sg_link_id (snd r) = map_option sg_link_id (mg_signing ?g ?chan)"
    using assms(1,4) unfolding parser_keeps_link_def by (metis fst_conv)
  then have "sg_link_id sg = of_nat ?chan"
    using sg assms(2) by (cases "mg_signing ?g ?chan") (auto simp: link_ok_def)
  moreover have "unat (of_nat ?chan :: u8) = ?chan"
    using assms(2) by (simp add: link_ok_def MAVLINK_COMM_NUM_BUFFERS_def MAX_COMM2_LINKS_def unat_of_nat)
  ultimately show ?thesis
    using assms(2,3,4) sg
    by (auto simp: parse_char_def Let_def accept_unsigned_callback_def link_ok_def)
qed

lemma parse_char_no_message:
  "parse_char lib c st = (st1, None) \<Longrightarrow> mg_bad_sig (ms_glob st1) = mg_bad_sig (ms_glob st)"
  by (auto simp: parse_char_def Let_def split: option.splits prod.splits)

lemma check_message_accepts:
  assumes "check_message lib env msg st = (st', True)" and "mv_key_id (ms_mav st) \<noteq> -1"
  shows "mv_key_loaded (ms_mav st) \<and> m_incompat_flags msg AND MAVLINK_IFLAG_SIGNED \<noteq> 0
    \<and> \<not> mg_bad_sig (ms_glob st) (mv_chan (ms_mav st)) \<and> m_msgid msg \<noteq> MAVLINK_MSG_ID_SETUP_SIGNING
    \<and> mv_got_signed_packet (ms_mav st')"
  using assms by (auto simp: check_message_def Let_def split: if_splits)

text \<open>The state after feeding bytes that complete no message.\<close>

definition feed :: "'p mav_lib \<Rightarrow> bytes \<Rightarrow> ('p, 'l, 'db) mav_state \<Rightarrow> ('p, 'l, 'db) mav_state" where
  "feed lib bs st = fold (\<lambda>c st. fst (parse_char lib c st)) bs st"

definition verified_by :: "'p mav_lib \<Rightarrow> byte \<Rightarrow> mavlink_msg \<Rightarrow> ('p, 'l, 'db) mav_state \<Rightarrow> bool" where
  "verified_by lib c msg st \<longleftrightarrow> (\<exists>r rejected.
     lib_parse lib (mg_lib (ms_glob st)) (mv_chan (ms_mav st)) (mg_signing (ms_glob st) (mv_chan (ms_mav st))) c
       = (r, Some (msg, rejected)) \<and> (rejected \<longrightarrow> snd r = None))"

lemma receive_bytes_delivers:
  assumes "parser_keeps_link lib" and "link_ok st" and "mv_key_id (ms_mav st) \<noteq> -1"
    and "receive_bytes lib env buf st = (st', rest, Some msg)"
  shows "mv_key_loaded (ms_mav st) \<and> m_incompat_flags msg AND MAVLINK_IFLAG_SIGNED \<noteq> 0
    \<and> m_msgid msg \<noteq> MAVLINK_MSG_ID_SETUP_SIGNING \<and> mv_got_signed_packet (ms_mav st')
    \<and> (\<exists>pre c. buf = pre @ c # rest \<and> verified_by lib c msg (feed lib pre st))"
  using assms(2-4)
proof (induction buf arbitrary: st)
  case Nil
  then show ?case by simp
next
  case (Cons c cs)
  obtain st1 out where p: "parse_char lib c st = (st1, out)"
    by (rule prod.exhaust)
  have m: "ms_mav st1 = ms_mav st"
    using parse_char_mav [of lib c st] p by simp
  show ?case
  proof (cases out)
    case None
    have "link_ok st1"
      using parse_char_link_ok [OF assms(1) Cons.prems(1), of c] p by simp
    then have *: "mv_key_loaded (ms_mav st1) \<and> m_incompat_flags msg AND MAVLINK_IFLAG_SIGNED \<noteq> 0
      \<and> m_msgid msg \<noteq> MAVLINK_MSG_ID_SETUP_SIGNING \<and> mv_got_signed_packet (ms_mav st')
      \<and> (\<exists>pre d. cs = pre @ d # rest \<and> verified_by lib d msg (feed lib pre st1))"
      using Cons.prems p None m by (intro Cons.IH) simp_all
    then obtain pre d where "cs = pre @ d # rest" "verified_by lib d msg (feed lib pre st1)"
      by blast
    moreover have "feed lib (c # pre) st = feed lib pre st1"
      by (simp add: feed_def p)
    ultimately show ?thesis
      using * m by (intro conjI exI [of _ "c # pre"] exI [of _ d]) simp_all
  next
    case (Some msg1)
    obtain ok where chk: "check_message lib env msg1 st1 = (st', ok)" and "rest = cs"
      and "ok" and msg: "msg = msg1"
      using Cons.prems(3) p Some by (auto split: prod.splits if_splits)
    have acc: "mv_key_loaded (ms_mav st1) \<and> m_incompat_flags msg1 AND MAVLINK_IFLAG_SIGNED \<noteq> 0
        \<and> \<not> mg_bad_sig (ms_glob st1) (mv_chan (ms_mav st1)) \<and> m_msgid msg1 \<noteq> MAVLINK_MSG_ID_SETUP_SIGNING
        \<and> mv_got_signed_packet (ms_mav st')"
      using check_message_accepts [of lib env msg1 st1 st'] chk \<open>ok\<close> Cons.prems(2) m by simp
    obtain r rej where l: "lib_parse lib (mg_lib (ms_glob st)) (mv_chan (ms_mav st))
        (mg_signing (ms_glob st) (mv_chan (ms_mav st))) c = (r, Some (msg1, rej))"
      using p Some by (auto simp: parse_char_def Let_def split: prod.splits option.splits)
    have "rej \<longrightarrow> snd r = None"
      using parse_char_marks [OF assms(1) Cons.prems(1), of c st1 msg1 r msg1] p Some l acc m
      by (cases rej; cases "snd r") auto
    then have "verified_by lib c msg (feed lib [] st)"
      using l msg by (auto simp: verified_by_def feed_def)
    then show ?thesis
      using acc m msg \<open>rest = cs\<close> by (intro conjI exI [of _ "[]"] exI [of _ c]) simp_all
  qed
qed

section \<open>Concrete parameters for the examples\<close>

text \<open>A toy wire format: every byte is a signed message whose id is the byte; 255 is rejected.\<close>

definition sample_lib :: "unit mav_lib" where
  "sample_lib = \<lparr>
     lib_parse = (\<lambda>p c sg b. ((p, sg), Some (\<lparr>m_incompat_flags = 1, m_seq = 0, m_sysid = 1, m_compid = 1,
       m_msgid = ucast b, m_payload = [], m_signature = []\<rparr>, b = 255))),
     lib_lengths = (\<lambda>_. (1, 1)),
     lib_finalize = (\<lambda>p c sg m. ((p, sg), [ucast (m_msgid m)])),
     lib_statustext = (\<lambda>p c sg s k sev t. ((p, sg), [253])),
     lib_setup_signing = (\<lambda>m. (5, replicate 32 3)),
     lib_to_buffer = (\<lambda>m. [ucast (m_msgid m)]),
     lib_tserr = (\<lambda>a b. [])\<rparr>"

definition sample_keys :: mem_db where
  "sample_keys = mem_empty\<lparr>mem_recs := [(port_key 10002, enc_KeyEntry sample_entry)]\<rparr>"

text \<open>The link is the list of buffers sent.\<close>

definition sample_env :: "(bytes list, mem_db) mav_env" where
  "sample_env = \<lparr>en_send = (\<lambda>rt buf l. (l @ [buf], int (length buf))), en_now = seconds 1800000000,
     en_dead = False, en_writable = 5000, en_db = mem_api, en_db_open = True, en_malloc = (\<lambda>_. True)\<rparr>"

definition sample_mav :: mavlink where
  "sample_mav = \<lparr>mv_key = sample_entry, mv_chan = 2, mv_key_id = 10002, mv_is_tcp = False,
     mv_key_loaded = True, mv_got_signed_packet = False, mv_allow_websocket = False, mv_sendto = None,
     mv_last_signing_save = seconds 1800000000, mv_last_signing_warning = 0, mv_last_sysid = 0,
     mv_last_compid = 0, mv_bad_sig_count = 0, mv_fd = 7, mv_ws = None\<rparr>"

definition sample_state :: "(unit, bytes list, mem_db) mav_state" where
  "sample_state = \<lparr>ms_mav = sample_mav,
     ms_glob = \<lparr>mg_lib = (), mg_signing = [2 \<mapsto> signing_of sample_entry 2 0 Sign_none], mg_bad_sig = (\<lambda>_. False)\<rparr>,
     ms_link = [], ms_db = sample_keys, ms_saves = [], ms_crashed = False\<rparr>"

lemma sample_lib_ok: "parser_keeps_link sample_lib"
  by (simp add: parser_keeps_link_def sample_lib_def)

lemma sample_link_ok: "link_ok sample_state"
  by (simp add: link_ok_def sample_state_def sample_mav_def signing_of_def Let_def
      MAVLINK_COMM_NUM_BUFFERS_def MAX_COMM2_LINKS_def)

section \<open>Properties\<close>

text \<open>
  C1: Only authenticated engineer messages are delivered: on a link with a key, \<open>receive_message\<close>
  returns a message only if the port's key is loaded, the message carries the signed flag, it is
  not SETUP_SIGNING, and the signature check did not reject it (or the port pair has the
  all-zero key, which detaches the check).\<close>

theorem mav_delivers_only_signed:
  assumes "parser_keeps_link lib" and "link_ok st" and "mv_key_id (ms_mav st) \<noteq> -1"
    and "receive_message lib env buf st = (st', rest, Some msg)"
  shows "mv_key_loaded (ms_mav st) \<and> m_incompat_flags msg AND MAVLINK_IFLAG_SIGNED \<noteq> 0
    \<and> m_msgid msg \<noteq> MAVLINK_MSG_ID_SETUP_SIGNING
    \<and> (\<exists>pre c. buf = pre @ c # rest \<and> verified_by lib c msg (feed lib pre
         (st\<lparr>ms_glob := (ms_glob st)\<lparr>mg_bad_sig := (mg_bad_sig (ms_glob st))(mv_chan (ms_mav st) := False)\<rparr>\<rparr>)))"
proof -
  let ?st = "st\<lparr>ms_glob := (ms_glob st)\<lparr>mg_bad_sig := (mg_bad_sig (ms_glob st))(mv_chan (ms_mav st) := False)\<rparr>\<rparr>"
  have "link_ok ?st" "mv_key_id (ms_mav ?st) \<noteq> -1"
    using assms(2,3) by (simp_all add: link_ok_def)
  from receive_bytes_delivers [OF assms(1) this, of env buf st' rest msg] show ?thesis
    using assms(4) by (simp add: receive_message_def)
qed

theorem mav_delivers_only_signed_witness:
  "\<exists>pre c. [76, 9 :: byte] = pre @ c # [9] \<and> verified_by sample_lib c
      \<lparr>m_incompat_flags = 1, m_seq = 0, m_sysid = 1, m_compid = 1, m_msgid = 76, m_payload = [], m_signature = []\<rparr>
      (feed sample_lib pre (sample_state\<lparr>ms_glob := (ms_glob sample_state)
         \<lparr>mg_bad_sig := (mg_bad_sig (ms_glob sample_state))(mv_chan (ms_mav sample_state) := False)\<rparr>\<rparr>))"
proof -
  let ?msg = "\<lparr>m_incompat_flags = 1, m_seq = 0, m_sysid = 1, m_compid = 1, m_msgid = 76, m_payload = [], m_signature = []\<rparr>"
  have k: "mv_key_id (ms_mav sample_state) \<noteq> -1"
    by (simp add: sample_state_def sample_mav_def)
  have "\<exists>st'. receive_message sample_lib sample_env [76, 9] sample_state = (st', [9], Some ?msg)"
    by (simp add: receive_message_def parse_char_def check_message_def sample_state_def sample_mav_def
        sample_lib_def Let_def MAVLINK_IFLAG_SIGNED_def MAVLINK_MSG_ID_SETUP_SIGNING_def)
  then show ?thesis
    using mav_delivers_only_signed [OF sample_lib_ok sample_link_ok k] by blast
qed

definition send_all ::
  "'p mav_lib \<Rightarrow> ('l, 'db) mav_env \<Rightarrow> mavlink_msg list \<Rightarrow> ('p, 'l, 'db) mav_state \<Rightarrow> ('p, 'l, 'db) mav_state" where
  "send_all lib env msgs st = fold (\<lambda>m st. fst (send_message lib env m st)) msgs st"

lemma send_message_keeps:
  "mv_key_id (ms_mav (fst (send_message lib env msg st))) = mv_key_id (ms_mav st)
   \<and> mv_got_signed_packet (ms_mav (fst (send_message lib env msg st))) = mv_got_signed_packet (ms_mav st)"
  using update_timestamp_mav [of env st]
    update_timestamp_mav [of env "upd_mav (\<lambda>m. m\<lparr>mv_last_sysid := m_sysid msg, mv_last_compid := m_compid msg\<rparr>) st"]
  by (auto simp: send_message_def Let_def)

text \<open>
  C2: Nothing but HEARTBEAT before the first good signature: on a link with a key whose engineer
  has not yet sent a correctly signed packet, forwarding any sequence of messages has exactly the
  effect of forwarding its HEARTBEATs.\<close>

theorem mav_heartbeat_only_until_signed:
  assumes "mv_key_id (ms_mav st) \<noteq> -1" and "\<not> mv_got_signed_packet (ms_mav st)"
  shows "send_all lib env msgs st =
    send_all lib env (filter (\<lambda>m. m_msgid m = MAVLINK_MSG_ID_HEARTBEAT) msgs) st"
  using assms
proof (induction msgs arbitrary: st)
  case Nil
  then show ?case by simp
next
  case (Cons m msgs)
  have "fst (send_message lib env m st) = st" if "m_msgid m \<noteq> MAVLINK_MSG_ID_HEARTBEAT"
    using that Cons.prems by (simp add: send_message_def Let_def)
  then show ?case
    using Cons.IH [of "fst (send_message lib env m st)"] Cons.prems send_message_keeps [of lib env m st]
    by (auto simp: send_all_def)
qed

definition sample_msg :: "u32 \<Rightarrow> mavlink_msg" where
  "sample_msg i = \<lparr>m_incompat_flags = 0, m_seq = 0, m_sysid = 1, m_compid = 1, m_msgid = i,
     m_payload = [], m_signature = []\<rparr>"

theorem mav_heartbeat_only_until_signed_witness:
  "ms_link (send_all sample_lib sample_env [sample_msg 30, sample_msg 0, sample_msg 24] sample_state) = [[0]]"
proof -
  have "mv_key_id (ms_mav sample_state) \<noteq> -1" "\<not> mv_got_signed_packet (ms_mav sample_state)"
    by (simp_all add: sample_state_def sample_mav_def)
  from mav_heartbeat_only_until_signed [OF this, of sample_lib sample_env "[sample_msg 30, sample_msg 0, sample_msg 24]"]
  show ?thesis
    by (simp add: sample_msg_def MAVLINK_MSG_ID_HEARTBEAT_def send_all_def)
      (simp add: send_message_def sample_state_def sample_mav_def sample_env_def sample_lib_def
        update_signing_timestamp_def seconds_def transmit_def send_data_def send_route_def Let_def
        MAVLINK_MSG_ID_HEARTBEAT_def MAVLINK_COMM_NUM_BUFFERS_def MAX_COMM2_LINKS_def)
qed

lemma load_signing_key_loaded:
  assumes "mv_chan (ms_mav st) < MAVLINK_COMM_NUM_BUFFERS" and "en_db_open env"
    and "key_of (en_db env) (ms_db st) (port_of (ms_mav st)) = Some ke"
  shows "mv_key_loaded (ms_mav (load_signing_key env st)) \<and> mv_key (ms_mav (load_signing_key env st)) = ke
    \<and> mv_got_signed_packet (ms_mav (load_signing_key env st)) = mv_got_signed_packet (ms_mav st)
    \<and> ms_db (load_signing_key env st) = ms_db st
    \<and> (\<exists>last_st. mg_signing (ms_glob (load_signing_key env st)) (mv_chan (ms_mav st)) =
        (if all_zero_key ke then None else Some (signing_of ke (mv_chan (ms_mav st)) (en_now env) last_st)))"
proof -
  have "load_key env (ms_db st) (ms_mav st) = (True, (ms_mav st)\<lparr>mv_key := ke\<rparr>)"
    using assms(3) db_load_key_iff [of "en_db env" "ms_db st" "port_of (ms_mav st)" "mv_key (ms_mav st)" ke]
    by (simp add: load_key_def)
  then show ?thesis
    using assms(1,2) by (auto simp: load_signing_key_def Let_def)
qed

text \<open>
  C26: The replay guard at start: after the key of the port is loaded, incoming signatures are
  checked against that key with a timestamp that is neither below the present time nor less than
  15 s above the saved one (while that sum fits 64 bits), and no later than both require; the
  check is detached exactly for the all-zero key.\<close>

theorem mav_load_replay_guard:
  assumes "mv_chan (ms_mav st) < MAVLINK_COMM_NUM_BUFFERS" and "en_db_open env"
    and "key_of (en_db env) (ms_db st) (port_of (ms_mav st)) = Some ke"
    and "unat (ke_timestamp ke) + 1500000 < 2 ^ 64"
  shows "mv_key_loaded (ms_mav (load_signing_key env st))
    \<and> (case mg_signing (ms_glob (load_signing_key env st)) (mv_chan (ms_mav st)) of
         None \<Rightarrow> all_zero_key ke
       | Some sg \<Rightarrow> \<not> all_zero_key ke \<and> sg_secret_key sg = ke_secret_key ke
           \<and> unat (sg_timestamp sg) = max (unat (now_mavlink (en_now env))) (unat (ke_timestamp ke) + 1500000))"
proof -
  obtain last_st where l: "mv_key_loaded (ms_mav (load_signing_key env st))"
    "mg_signing (ms_glob (load_signing_key env st)) (mv_chan (ms_mav st)) =
      (if all_zero_key ke then None else Some (signing_of ke (mv_chan (ms_mav st)) (en_now env) last_st))"
    using load_signing_key_loaded [OF assms(1-3)] by blast
  have "unat (ke_timestamp ke + 15 * 100 * 1000) = unat (ke_timestamp ke) + 1500000"
    using assms(4) by (simp add: unat_word_ariths)
  then show ?thesis
    using l by (simp add: signing_of_def Let_def word_less_nat_alt max_def)
qed

lemma key_of_sample_keys: "key_of mem_api sample_keys 10002 = Some sample_entry"
proof -
  have "db_load_key mem_api sample_keys 10002 (dec_KeyEntry []) = (True, sample_entry)"
    using key_codec.dec_enc_exact [of sample_entry] length_enc_KeyEntry [of sample_entry]
    by (simp add: db_load_key_def sample_keys_def mem_empty_def not_less)
  then show ?thesis
    by (simp add: db_load_key_iff)
qed

lemma sample_state_key:
  "mv_chan (ms_mav sample_state) < MAVLINK_COMM_NUM_BUFFERS" "en_db_open sample_env"
  "key_of (en_db sample_env) (ms_db sample_state) (port_of (ms_mav sample_state)) = Some sample_entry"
  using key_of_sample_keys
  by (simp_all add: sample_state_def sample_mav_def sample_env_def port_of_def
      MAVLINK_COMM_NUM_BUFFERS_def MAX_COMM2_LINKS_def)

theorem mav_load_replay_guard_witness:
  "mv_key_loaded (ms_mav (load_signing_key sample_env sample_state))"
proof -
  have "unat (ke_timestamp sample_entry) + 1500000 < 2 ^ 64"
    by (simp add: sample_entry_def)
  from mav_load_replay_guard [OF sample_state_key this] show ?thesis
    by blast
qed

lemma raise_timestamp_bounds:
  "ts \<le> fst (fold (\<lambda>c. raise_timestamp now_mav (sgs c)) cs (ts, n))
   \<and> fst (fold (\<lambda>c. raise_timestamp now_mav (sgs c)) cs (ts, n)) \<le> max ts now_mav"
proof (induction cs arbitrary: ts n)
  case Nil
  then show ?case by simp
next
  case (Cons c cs)
  obtain ts1 n1 where r: "raise_timestamp now_mav (sgs c) (ts, n) = (ts1, n1)"
    by (rule prod.exhaust)
  have "ts \<le> ts1 \<and> ts1 \<le> max ts now_mav"
    using r by (auto simp: raise_timestamp_def Let_def max_def split: option.splits if_splits)
  then show ?case
    using Cons.IH [of ts1 n1] r by (auto simp: le_max_iff_disj intro: order_trans)
qed

text \<open>The three ways a save can end: nothing to save, the transaction lost, or the new timestamp committed.\<close>

lemma save_timestamp_runs:
  assumes "en_db_open env" and "tdb_transaction_start (en_db env) db = (db1, True)"
    and "load_key env db1 (fst snap) = (ok, m)"
    and "r = fold (\<lambda>c. raise_timestamp (now_mavlink (en_now env)) (snd snap c)) [0..<MAVLINK_COMM_NUM_BUFFERS]
      (ke_timestamp (mv_key m), False)"
  shows "save_signing_timestamp env snap db =
    (if \<not> ok \<or> \<not> snd r then db_close_cancel (en_db env) db1
     else db_close_commit (en_db env) (fst (save_key env db1 (m\<lparr>mv_key := (mv_key m)\<lparr>ke_timestamp := fst r\<rparr>\<rparr>))))"
  using assms by (simp add: save_signing_timestamp_def db_open_transaction_def db_open_def case_prod_beta)

lemma save_timestamp_keys:
  assumes "tdb (en_db env) saved in_txn" and "tdb_transaction_start (en_db env) db = (db1, True)"
  obtains "key_of (en_db env) (save_signing_timestamp env snap db) = key_of (en_db env) db"
  | ke ts n where "key_of (en_db env) db (port_of (fst snap)) = Some ke"
    and "fold (\<lambda>c. raise_timestamp (now_mavlink (en_now env)) (snd snap c)) [0..<MAVLINK_COMM_NUM_BUFFERS]
      (ke_timestamp ke, False) = (ts, n)"
    and "key_of (en_db env) (save_signing_timestamp env snap db) =
      (key_of (en_db env) db)(port_of (fst snap) \<mapsto> ke\<lparr>ke_timestamp := ts\<rparr>)"
proof -
  let ?api = "en_db env" and ?kp = "port_of (fst snap)"
  have keys1: "key_of ?api db1 = key_of ?api db"
    using tdb.start_ok [OF assms] by (intro tdb.key_of_cong [OF assms(1)]) simp
  obtain ok m where l: "load_key env db1 (fst snap) = (ok, m)"
    by (rule prod.exhaust)
  obtain ts n where r: "fold (\<lambda>c. raise_timestamp (now_mavlink (en_now env)) (snd snap c)) [0..<MAVLINK_COMM_NUM_BUFFERS]
      (ke_timestamp (mv_key m), False) = (ts, n)"
    by (rule prod.exhaust)
  consider "\<not> en_db_open env" | "en_db_open env" "\<not> (ok \<and> n)" | "en_db_open env" "ok" "n"
    by blast
  then show thesis
  proof cases
    case 1
    then show ?thesis
      by (intro that(1)) (simp add: save_signing_timestamp_def db_open_transaction_def db_open_def)
  next
    case 2
    then show ?thesis
      using save_timestamp_runs [OF 2(1) assms(2) l r [symmetric]] tdb.key_txn_cancel [OF assms]
      by (intro that(1)) auto
  next
    case 3
    let ?ke = "(mv_key m)\<lparr>ke_timestamp := ts\<rparr>"
    have m: "m = (fst snap)\<lparr>mv_key := mv_key m\<rparr>" and old: "key_of ?api db ?kp = Some (mv_key m)"
      using l 3(2) keys1 db_load_key_iff [of ?api db1 ?kp "mv_key (fst snap)" "mv_key m"]
      by (auto simp: load_key_def split: prod.splits)
    have wf: "wf_KeyEntry ?ke" "ke_magic ?ke = KEY_MAGIC"
      using old wf_key_of [of ?api db ?kp] by (auto simp: key_of_alt wf_KeyEntry_def split: option.splits if_splits)
    obtain db2 ok2 where sv: "db_save_key ?api (en_malloc env) db1 ?kp ?ke = (db2, ok2)"
      by (rule prod.exhaust)
    obtain db3 com where cm: "tdb_transaction_commit ?api db2 = (db3, com)"
      by (rule prod.exhaust)
    have "port_of (m\<lparr>mv_key := ?ke\<rparr>) = ?kp"
      by (subst m) (simp add: port_of_def)
    then have "fst (save_key env db1 (m\<lparr>mv_key := ?ke\<rparr>)) = db2"
      using sv by (simp only: save_key_def) simp
    then have "key_of ?api (save_signing_timestamp env snap db) =
        (if ok2 \<and> com then (key_of ?api db)(?kp \<mapsto> ?ke) else key_of ?api db)"
      using save_timestamp_runs [OF 3(1) assms(2) l r [symmetric]] tdb.key_txn_commit [OF assms wf sv cm] 3 by simp
    then show ?thesis
      using that(1) that(2) [OF old r] by (cases "ok2 \<and> com") auto
  qed
qed

text \<open>
  The saved timestamp never moves back and never gets ahead of the clock: the child that saves
  it changes, in the port's record only, the timestamp only, to a value no smaller than the old
  one and no larger than the larger of the old one and the present time; a missing record stays
  missing, and a failed transaction changes nothing.\<close>

theorem mav_saved_timestamp_monotone:
  assumes "tdb (en_db env) saved in_txn" and "tdb_transaction_start (en_db env) db = (db1, True)"
  shows "\<exists>ts. key_of (en_db env) (save_signing_timestamp env snap db) =
      (\<lambda>p. if p = port_of (fst snap)
           then map_option (\<lambda>ke. ke\<lparr>ke_timestamp := ts (ke_timestamp ke)\<rparr>) (key_of (en_db env) db p)
           else key_of (en_db env) db p)
    \<and> (\<forall>old. old \<le> ts old \<and> ts old \<le> max old (now_mavlink (en_now env)))"
proof (rule save_timestamp_keys [OF assms, of snap])
  assume "key_of (en_db env) (save_signing_timestamp env snap db) = key_of (en_db env) db"
  then show ?thesis
    by (intro exI [of _ "\<lambda>t. t"]) (auto simp: fun_eq_iff option.map_ident split: option.split)
next
  fix ke ts n
  assume old: "key_of (en_db env) db (port_of (fst snap)) = Some ke"
    and r: "fold (\<lambda>c. raise_timestamp (now_mavlink (en_now env)) (snd snap c)) [0..<MAVLINK_COMM_NUM_BUFFERS]
      (ke_timestamp ke, False) = (ts, n)"
    and new: "key_of (en_db env) (save_signing_timestamp env snap db) =
      (key_of (en_db env) db)(port_of (fst snap) \<mapsto> ke\<lparr>ke_timestamp := ts\<rparr>)"
  define f where "f = (\<lambda>t. if t = ke_timestamp ke then ts else t)"
  have "t \<le> f t \<and> f t \<le> max t (now_mavlink (en_now env))" for t
    using raise_timestamp_bounds [of "ke_timestamp ke" "now_mavlink (en_now env)" "snd snap"
        "[0..<MAVLINK_COMM_NUM_BUFFERS]" False] r by (simp add: f_def)
  then show ?thesis
    using old new by (intro exI [of _ f]) (simp add: f_def fun_eq_iff)
qed

lemma sample_keys_start:
  "tdb_transaction_start mem_api sample_keys = (sample_keys\<lparr>mem_saved := mem_recs sample_keys, mem_txn := True\<rparr>, True)"
  by (simp add: sample_keys_def mem_empty_def)

theorem mav_saved_timestamp_monotone_witness:
  "\<exists>ts. key_of mem_api (save_signing_timestamp sample_env (sample_mav, mg_signing (ms_glob sample_state)) sample_keys) =
      (\<lambda>p. if p = port_of sample_mav
           then map_option (\<lambda>ke. ke\<lparr>ke_timestamp := ts (ke_timestamp ke)\<rparr>) (key_of mem_api sample_keys p)
           else key_of mem_api sample_keys p)
    \<and> (\<forall>old. old \<le> ts old \<and> ts old \<le> max old (now_mavlink (seconds 1800000000)))"
proof -
  have e: "en_db sample_env = mem_api" "en_now sample_env = seconds 1800000000"
    by (simp_all add: sample_env_def)
  have t: "tdb (en_db sample_env) (\<lambda>db. map_of (mem_saved db)) mem_txn"
    unfolding e by (rule mem_tdb.tdb_axioms)
  have st: "tdb_transaction_start (en_db sample_env) sample_keys =
      (sample_keys\<lparr>mem_saved := mem_recs sample_keys, mem_txn := True\<rparr>, True)"
    unfolding e by (rule sample_keys_start)
  from mav_saved_timestamp_monotone [OF t st, of "(sample_mav, mg_signing (ms_glob sample_state))"] show ?thesis
    unfolding e by simp
qed

text \<open>
  C28: Changing the key: a SETUP_SIGNING message on an authenticated link whose transaction goes through
  replaces key and timestamp of the port's record and nothing else in the database, requires
  the engineer to sign again with the new key before anything is forwarded, and checks further
  messages against the new key.\<close>

theorem mav_setup_signing_replaces_key:
  assumes "tdb (en_db env) saved in_txn" and "tdb_transaction_start (en_db env) (ms_db st) = (db1, True)"
    and "en_db_open env" and chan: "mv_chan (ms_mav st) < MAVLINK_COMM_NUM_BUFFERS"
    and old: "key_of (en_db env) (ms_db st) (port_of (ms_mav st)) = Some ke"
    and pkt: "lib_setup_signing lib msg = (ts, key)" "length key = 32"
    and new: "ke' = ke\<lparr>ke_timestamp := ts, ke_secret_key := key\<rparr>"
    and save: "db_save_key (en_db env) (en_malloc env) db1 (port_of (ms_mav st)) ke' = (db2, True)"
    and commit: "tdb_transaction_commit (en_db env) db2 = (db3, True)"
  shows "key_of (en_db env) (ms_db (handle_setup_signing lib env msg st)) =
      (key_of (en_db env) (ms_db st))(port_of (ms_mav st) \<mapsto> ke')
    \<and> \<not> mv_got_signed_packet (ms_mav (handle_setup_signing lib env msg st))
    \<and> (\<exists>last_st. mg_signing (ms_glob (handle_setup_signing lib env msg st)) (mv_chan (ms_mav st)) =
        (if all_zero_key ke' then None else Some (signing_of ke' (mv_chan (ms_mav st)) (en_now env) last_st)))"
proof -
  let ?api = "en_db env" and ?m = "ms_mav st"
  have "key_of ?api db1 = key_of ?api (ms_db st)"
    using tdb.start_ok [OF assms(1,2)] by (intro tdb.key_of_cong [OF assms(1)]) simp
  then have l: "load_key env db1 ?m = (True, ?m\<lparr>mv_key := ke\<rparr>)"
    using old db_load_key_iff [of ?api db1 "port_of ?m" "mv_key ?m" ke] by (simp add: load_key_def)
  have "wf_KeyEntry ke" and "ke_magic ke = KEY_MAGIC"
    using old wf_key_of [of ?api "ms_db st"] by (auto simp: key_of_alt split: option.splits if_splits)
  then have wf: "wf_KeyEntry ke'" "ke_magic ke' = KEY_MAGIC"
    using pkt(2) by (simp_all add: wf_KeyEntry_def new)
  define st1 where "st1 = st\<lparr>ms_mav := ?m\<lparr>mv_key := ke', mv_got_signed_packet := False\<rparr>, ms_db := db_close_commit ?api db2\<rparr>"
  have h: "handle_setup_signing lib env msg st = load_signing_key env st1"
  proof -
    have "save_key env db1 (?m\<lparr>mv_key := ke'\<rparr>) = (db2, True)"
      using save by (simp add: save_key_def port_of_def)
    then show ?thesis
      using assms(2,3) l pkt
      by (simp add: handle_setup_signing_def db_open_transaction_def db_open_def st1_def new)
  qed
  have k1: "key_of ?api (ms_db st1) = (key_of ?api (ms_db st))(port_of ?m \<mapsto> ke')"
    using tdb.key_txn_commit [OF assms(1,2) wf save commit] by (simp add: st1_def)
  have m1: "mv_chan (ms_mav st1) = mv_chan ?m" "port_of (ms_mav st1) = port_of ?m"
      "\<not> mv_got_signed_packet (ms_mav st1)"
    by (simp_all add: st1_def port_of_def)
  have "key_of ?api (ms_db st1) (port_of (ms_mav st1)) = Some ke'"
    by (simp add: k1 m1)
  from load_signing_key_loaded [OF _ assms(3) this] show ?thesis
    using chan k1 m1 unfolding h by auto
qed

theorem mav_setup_signing_replaces_key_witness:
  "key_of mem_api (ms_db (handle_setup_signing sample_lib sample_env (sample_msg 256) sample_state)) =
     (key_of mem_api sample_keys)(10002 \<mapsto> sample_entry\<lparr>ke_timestamp := 5, ke_secret_key := replicate 32 3\<rparr>)"
proof -
  let ?ke' = "sample_entry\<lparr>ke_timestamp := 5, ke_secret_key := replicate 32 3\<rparr>"
  let ?db1 = "sample_keys\<lparr>mem_saved := mem_recs sample_keys, mem_txn := True\<rparr>"
  have e: "en_db sample_env = mem_api" "ms_db sample_state = sample_keys"
      "port_of (ms_mav sample_state) = 10002"
    by (simp_all add: sample_env_def sample_state_def sample_mav_def port_of_def)
  have t: "tdb (en_db sample_env) (\<lambda>db. map_of (mem_saved db)) mem_txn"
    unfolding e by (rule mem_tdb.tdb_axioms)
  have st: "tdb_transaction_start (en_db sample_env) (ms_db sample_state) = (?db1, True)"
    unfolding e by (rule sample_keys_start)
  obtain db2 where sv: "db_save_key (en_db sample_env) (en_malloc sample_env) ?db1
      (port_of (ms_mav sample_state)) ?ke' = (db2, True)"
    by (simp add: db_save_key_def sample_env_def)
  have cm: "tdb_transaction_commit (en_db sample_env) db2 = (db2\<lparr>mem_txn := False\<rparr>, True)"
    unfolding e by simp
  have "lib_setup_signing sample_lib (sample_msg 256) = (5, replicate 32 3)"
    by (simp add: sample_lib_def)
  from mav_setup_signing_replaces_key [OF t st sample_state_key(2,1,3) this _ refl sv cm] show ?thesis
    unfolding e by simp
qed

end
