(* ===== verification/Child_Facts.thy ===== *)
theory Child_Facts
  imports Child Mavlink_Props
begin

text \<open>
  What the calls on a link leave alone, and the induction principle for runs of the child: a
  property that every primitive change keeps holds after any number of rounds.
\<close>

section \<open>Calls on a link\<close>

definition link_ids :: "'p mav_global \<Rightarrow> nat \<Rightarrow> u8 option" where
  "link_ids g chan = map_option sg_link_id (mg_signing g chan)"

text \<open>The generated code keeps the link id of the signing record it is given.\<close>

definition lib_keeps_link :: "'p mav_lib \<Rightarrow> bool" where
  "lib_keeps_link lib \<longleftrightarrow> parser_keeps_link lib
     \<and> (\<forall>p c sg m. map_option sg_link_id (snd (fst (lib_finalize lib p c sg m))) = map_option sg_link_id sg)
     \<and> (\<forall>p c sg s k sev t. map_option sg_link_id (snd (fst (lib_statustext lib p c sg s k sev t))) = map_option sg_link_id sg)"

text \<open>A link with its key loaded whose channel has a signing record carries the channel as link id.\<close>

definition link_good :: "mavlink \<Rightarrow> 'p mav_global \<Rightarrow> bool" where
  "link_good m g \<longleftrightarrow> mv_chan m < MAVLINK_COMM_NUM_BUFFERS
     \<and> (mv_key_loaded m \<longrightarrow> link_ids g (mv_chan m) \<in> {None, Some (of_nat (mv_chan m))})"

text \<open>The contract of the calls the main loop makes on a link.\<close>

locale link_call =
  fixes lib :: "'p mav_lib" and f :: "('p, 'l, 'db) mav_state \<Rightarrow> ('p, 'l, 'db) mav_state"
  assumes keeps_chan: "lib_keeps_link lib \<Longrightarrow> mv_chan (ms_mav (f st)) = mv_chan (ms_mav st)"
    and keeps_key_id: "lib_keeps_link lib \<Longrightarrow> mv_key_id (ms_mav (f st)) = mv_key_id (ms_mav st)"
    and other_links: "lib_keeps_link lib \<Longrightarrow> c \<noteq> mv_chan (ms_mav st) \<Longrightarrow>
      link_ids (ms_glob (f st)) c = link_ids (ms_glob st) c"
    and keeps_good: "lib_keeps_link lib \<Longrightarrow> link_good (ms_mav st) (ms_glob st) \<Longrightarrow>
      link_good (ms_mav (f st)) (ms_glob (f st))"

lemma link_ids_put: "link_ids (put_channel c r g) =
    (link_ids g)(c := map_option sg_link_id (snd r))"
  by (auto simp: link_ids_def)

lemma link_call_compose: "link_call lib f \<Longrightarrow> link_call lib g \<Longrightarrow> link_call lib (\<lambda>st. g (f st))"
  unfolding link_call_def by metis

text \<open>A call that leaves channel, key id and \<open>key_loaded\<close> of the link and all link ids alone.\<close>

lemma link_callI:
  assumes "\<And>st. lib_keeps_link lib \<Longrightarrow> mv_chan (ms_mav (f st)) = mv_chan (ms_mav st)
      \<and> mv_key_id (ms_mav (f st)) = mv_key_id (ms_mav st)
      \<and> mv_key_loaded (ms_mav (f st)) = mv_key_loaded (ms_mav st)
      \<and> link_ids (ms_glob (f st)) = link_ids (ms_glob st)"
  shows "link_call lib f"
  by unfold_locales (use assms in \<open>simp_all add: link_good_def\<close>)

lemma callback_ids [simp]: "link_ids (accept_unsigned_callback c g) = link_ids g"
  by (auto simp: link_ids_def accept_unsigned_callback_def split: option.split)

lemma upd_mav_saves [simp]: "ms_saves (upd_mav f st) = ms_saves st" "ms_crashed (upd_mav f st) = ms_crashed st"
  by (simp_all add: upd_mav_def)

lemma parse_char_ids:
  assumes "lib_keeps_link lib"
  shows "link_ids (ms_glob (fst (parse_char lib c st))) = link_ids (ms_glob st)"
proof -
  have "map_option sg_link_id (snd (fst (lib_parse lib (mg_lib (ms_glob st)) (mv_chan (ms_mav st))
      (mg_signing (ms_glob st) (mv_chan (ms_mav st))) c))) = link_ids (ms_glob st) (mv_chan (ms_mav st))"
    using assms by (simp add: lib_keeps_link_def parser_keeps_link_def link_ids_def)
  then show ?thesis
    by (auto simp: parse_char_def Let_def link_ids_put split: prod.splits option.splits)
qed

lemma parse_char_call: "link_call lib (\<lambda>st. fst (parse_char lib c st))"
  by (rule link_callI) (simp add: parse_char_ids)

lemma bump_ids: "map_option sg_link_id (map_option (bump_timestamp ts) sg) = map_option sg_link_id sg"
  by (cases sg) (simp_all add: bump_timestamp_def)

lemma update_timestamp_ids [simp]:
  "link_ids (ms_glob (update_signing_timestamp env st)) = link_ids (ms_glob st)"
  by (auto simp: update_signing_timestamp_def Let_def link_ids_def bump_ids fun_eq_iff simp del: option.map_comp)

lemma update_timestamp_fields [simp]:
  "mv_chan (ms_mav (update_signing_timestamp env st)) = mv_chan (ms_mav st)"
  "mv_key_id (ms_mav (update_signing_timestamp env st)) = mv_key_id (ms_mav st)"
  "mv_key_loaded (ms_mav (update_signing_timestamp env st)) = mv_key_loaded (ms_mav st)"
  "mv_ws (ms_mav (update_signing_timestamp env st)) = mv_ws (ms_mav st)"
  "ms_link (update_signing_timestamp env st) = ms_link st"
  by (simp_all add: update_signing_timestamp_def Let_def)

lemma send_data_fields [simp]:
  "ms_mav (fst (send_data env buf st)) = ms_mav st" "ms_glob (fst (send_data env buf st)) = ms_glob st"
  "ms_db (fst (send_data env buf st)) = ms_db st"
  by (simp_all add: send_data_def split: prod.split)

lemma transmit_ids:
  assumes "lib_keeps_link lib"
  shows "link_ids (ms_glob (fst (transmit lib env msg st))) = link_ids (ms_glob st)"
proof -
  obtain r buf where l: "lib_finalize lib (mg_lib (ms_glob st)) (mv_chan (ms_mav st))
      (mg_signing (ms_glob st) (mv_chan (ms_mav st))) msg = (r, buf)"
    by (rule prod.exhaust)
  have "map_option sg_link_id (snd (fst (lib_finalize lib (mg_lib (ms_glob st)) (mv_chan (ms_mav st))
      (mg_signing (ms_glob st) (mv_chan (ms_mav st))) msg))) = link_ids (ms_glob st) (mv_chan (ms_mav st))"
    using assms by (simp add: lib_keeps_link_def link_ids_def)
  moreover have "ms_glob (fst (transmit lib env msg st)) \<in> {ms_glob st, put_channel (mv_chan (ms_mav st)) r (ms_glob st)}"
    by (auto simp: transmit_def l Let_def case_prod_beta)
  ultimately show ?thesis
    by (auto simp: link_ids_put l)
qed

lemma transmit_call: "link_call lib (\<lambda>st. fst (transmit lib env msg st))"
  by (rule link_callI) (simp add: transmit_ids)

lemma send_message_call: "link_call lib (\<lambda>st. fst (send_message lib env msg st))"
  by (rule link_callI) (simp add: send_message_def Let_def transmit_ids)

lemma statustext_ids:
  assumes "lib_keeps_link lib"
  shows "link_ids (ms_glob (send_statustext lib env chan sev text st)) = link_ids (ms_glob st)"
proof -
  have "map_option sg_link_id (snd (fst (lib_statustext lib (mg_lib (ms_glob st)) chan
      (mg_signing (ms_glob st) chan) a b c d))) = link_ids (ms_glob st) chan" for a b c d
    using assms by (simp add: lib_keeps_link_def link_ids_def)
  then show ?thesis
    by (auto simp: send_statustext_def Let_def case_prod_beta link_ids_put)
qed

lemma statustext_mav [simp]: "ms_mav (send_statustext lib env chan sev text st) = ms_mav st"
  by (simp add: send_statustext_def Let_def case_prod_beta)

lemma warn_call: "link_call lib (warn lib env text)"
  by (rule link_callI)
    (auto simp: warn_def periodic_warning_def mav_printf_def Let_def statustext_ids)

lemma bad_signature_text_fields:
  "mv_chan (fst (bad_signature_text lib sg msg m)) = mv_chan m"
  "mv_key_id (fst (bad_signature_text lib sg msg m)) = mv_key_id m"
  "mv_key_loaded (fst (bad_signature_text lib sg msg m)) = mv_key_loaded m"
  by (auto simp: bad_signature_text_def Let_def split: signing_status.split)

lemma reject_keeps:
  assumes "lib_keeps_link lib"
  shows "mv_chan (ms_mav (reject_signature lib env msg st)) = mv_chan (ms_mav st)
      \<and> mv_key_id (ms_mav (reject_signature lib env msg st)) = mv_key_id (ms_mav st)
      \<and> mv_key_loaded (ms_mav (reject_signature lib env msg st)) = mv_key_loaded (ms_mav st)
      \<and> link_ids (ms_glob (reject_signature lib env msg st)) = link_ids (ms_glob st)"
proof -
  let ?sg = "case mg_signing (ms_glob st) (mv_chan (ms_mav st)) of None \<Rightarrow> zero_signing | Some s \<Rightarrow> s"
  obtain st1 due where p: "periodic_warning env st = (st1, due)"
    by (rule prod.exhaust)
  then have st1: "mv_chan (ms_mav st1) = mv_chan (ms_mav st)" "mv_key_id (ms_mav st1) = mv_key_id (ms_mav st)"
    "mv_key_loaded (ms_mav st1) = mv_key_loaded (ms_mav st)" "ms_glob st1 = ms_glob st"
    by (auto simp: periodic_warning_def split: if_splits)
  obtain m1 warning where t: "bad_signature_text lib ?sg msg (ms_mav st1) = (m1, warning)"
    by (rule prod.exhaust)
  have m1: "mv_chan m1 = mv_chan (ms_mav st)" "mv_key_id m1 = mv_key_id (ms_mav st)"
    "mv_key_loaded m1 = mv_key_loaded (ms_mav st)"
    using bad_signature_text_fields [of lib ?sg msg "ms_mav st1"] t st1 by simp_all
  show ?thesis
    using st1 m1 by (cases warning) (simp_all add: reject_signature_def p t Let_def mav_printf_def statustext_ids [OF assms])
qed

lemma reject_call: "link_call lib (reject_signature lib env msg)"
  by (rule link_callI) (rule reject_keeps)

text \<open>Loading a key sets the link id of the link's own channel.\<close>

lemma load_key_fields:
  "mv_chan (snd (load_key env db m)) = mv_chan m" "mv_key_id (snd (load_key env db m)) = mv_key_id m"
  "mv_key_loaded (snd (load_key env db m)) = mv_key_loaded m" "mv_ws (snd (load_key env db m)) = mv_ws m"
  by (simp_all add: load_key_def case_prod_beta)

lemma load_signing_key_fields [simp]:
  "mv_chan (ms_mav (load_signing_key env st)) = mv_chan (ms_mav st)"
  "mv_key_id (ms_mav (load_signing_key env st)) = mv_key_id (ms_mav st)"
  "c \<noteq> mv_chan (ms_mav st) \<Longrightarrow> link_ids (ms_glob (load_signing_key env st)) c = link_ids (ms_glob st) c"
  by (auto simp: load_signing_key_def Let_def link_ids_def case_prod_beta load_key_fields)

lemma load_signing_key_good:
  assumes "mv_chan (ms_mav st) < MAVLINK_COMM_NUM_BUFFERS"
    and "mv_key_loaded (ms_mav st) \<longrightarrow> link_good (ms_mav st) (ms_glob st)"
  shows "link_good (ms_mav (load_signing_key env st)) (ms_glob (load_signing_key env st))"
  using assms
  by (auto simp: load_signing_key_def Let_def link_good_def link_ids_def signing_of_def case_prod_beta load_key_fields)

lemma setup_signing_fields:
  "mv_chan (ms_mav (handle_setup_signing lib env msg st)) = mv_chan (ms_mav st)"
  "mv_key_id (ms_mav (handle_setup_signing lib env msg st)) = mv_key_id (ms_mav st)"
  "c \<noteq> mv_chan (ms_mav st) \<Longrightarrow>
    link_ids (ms_glob (handle_setup_signing lib env msg st)) c = link_ids (ms_glob st) c"
  by (auto simp: handle_setup_signing_def Let_def db_open_transaction_def db_open_def case_prod_beta load_key_fields)

lemma setup_signing_good:
  "link_good (ms_mav st) (ms_glob st) \<Longrightarrow>
    link_good (ms_mav (handle_setup_signing lib env msg st)) (ms_glob (handle_setup_signing lib env msg st))"
  by (auto simp: handle_setup_signing_def Let_def db_open_transaction_def db_open_def case_prod_beta
      intro!: load_signing_key_good) (auto simp: link_good_def load_key_fields)

lemma setup_signing_call: "link_call lib (handle_setup_signing lib env msg)"
  by unfold_locales (simp_all add: setup_signing_fields setup_signing_good)

lemma upd_mav_call:
  assumes "\<And>m. mv_chan (g m) = mv_chan m" and "\<And>m. mv_key_id (g m) = mv_key_id m"
    and "\<And>m. mv_key_loaded (g m) = mv_key_loaded m"
  shows "link_call lib (upd_mav g)"
  by (rule link_callI) (simp add: assms)

lemma id_call: "link_call lib (\<lambda>st. st)"
  by (rule link_callI) simp

text \<open>A call that goes one of two ways, chosen by the state it starts from.\<close>

lemma link_call_if: "link_call lib f \<Longrightarrow> link_call lib g \<Longrightarrow> link_call lib (\<lambda>st. if b st then f st else g st)"
  unfolding link_call_def by simp

lemma check_message_call: "link_call lib (\<lambda>st. fst (check_message lib env msg st))"
proof -
  let ?signed = "upd_mav (\<lambda>m. m\<lparr>mv_bad_sig_count := 0, mv_got_signed_packet := True\<rparr>)"
  let ?unsigned = "upd_mav (\<lambda>m. m\<lparr>mv_got_signed_packet := False\<rparr>)"
  have "link_call lib (\<lambda>st. ?unsigned (warn lib env ''Need to use support signing key'' st))"
    by (rule link_call_compose [OF warn_call upd_mav_call]) simp_all
  moreover have "link_call lib (\<lambda>st. handle_setup_signing lib env msg (?signed st))"
    by (rule link_call_compose [OF upd_mav_call setup_signing_call]) simp_all
  moreover have "link_call lib ?signed"
    by (rule upd_mav_call) simp_all
  ultimately have "link_call lib (\<lambda>st.
      if mv_key_id (ms_mav st) = -1 then st
      else if \<not> mv_key_loaded (ms_mav st) then warn lib env ''Need to setup support signing key'' st
      else if m_incompat_flags msg AND MAVLINK_IFLAG_SIGNED = 0
        then ?unsigned (warn lib env ''Need to use support signing key'' st)
      else if mg_bad_sig (ms_glob st) (mv_chan (ms_mav st)) then reject_signature lib env msg st
      else if m_msgid msg = MAVLINK_MSG_ID_SETUP_SIGNING then handle_setup_signing lib env msg (?signed st)
      else ?signed st)"
    by (intro link_call_if id_call warn_call reject_call)
  also have "(\<lambda>st.
      if mv_key_id (ms_mav st) = -1 then st
      else if \<not> mv_key_loaded (ms_mav st) then warn lib env ''Need to setup support signing key'' st
      else if m_incompat_flags msg AND MAVLINK_IFLAG_SIGNED = 0
        then ?unsigned (warn lib env ''Need to use support signing key'' st)
      else if mg_bad_sig (ms_glob st) (mv_chan (ms_mav st)) then reject_signature lib env msg st
      else if m_msgid msg = MAVLINK_MSG_ID_SETUP_SIGNING then handle_setup_signing lib env msg (?signed st)
      else ?signed st) = (\<lambda>st. fst (check_message lib env msg st))"
    by (auto simp: check_message_def Let_def fun_eq_iff)
  finally show ?thesis .
qed

lemma receive_bytes_call: "link_call lib (\<lambda>st. fst (receive_bytes lib env buf st))"
proof (induction buf)
  case Nil
  then show ?case
    using id_call by simp
next
  case (Cons c cs)
  have step: "fst (receive_bytes lib env (c # cs) st) =
      (\<lambda>st1. case snd (parse_char lib c st) of
          None \<Rightarrow> fst (receive_bytes lib env cs st1)
        | Some msg \<Rightarrow> fst (check_message lib env msg st1)) (fst (parse_char lib c st))" for st
    by (simp add: case_prod_beta split: option.split)
  have "link_call lib (\<lambda>st. fst (receive_bytes lib env cs (fst (parse_char lib c st))))"
    by (rule link_call_compose [OF parse_char_call Cons])
  moreover have "link_call lib (\<lambda>st. fst (check_message lib env msg (fst (parse_char lib c st))))" for msg
    by (rule link_call_compose [OF parse_char_call check_message_call])
  ultimately show ?case
    unfolding link_call_def step by (auto split: option.splits)
qed

text \<open>Clearing the channel's flag of a rejected signature.\<close>

definition clear_bad :: "('p, 'l, 'db) mav_state \<Rightarrow> ('p, 'l, 'db) mav_state" where
  "clear_bad st = st\<lparr>ms_glob := (ms_glob st)\<lparr>mg_bad_sig := (mg_bad_sig (ms_glob st))(mv_chan (ms_mav st) := False)\<rparr>\<rparr>"

lemma receive_message_call: "link_call lib (\<lambda>st. fst (receive_message lib env buf st))"
proof -
  have "link_call lib clear_bad"
    by (rule link_callI) (simp add: clear_bad_def link_ids_def fun_eq_iff)
  from link_call_compose [OF this receive_bytes_call [of lib env buf]] show ?thesis
    by (simp add: receive_message_def clear_bad_def)
qed

interpretation send_call: link_call lib "\<lambda>st. fst (send_message lib env msg st)" for lib env msg
  by (rule send_message_call)

interpretation receive_call: link_call lib "\<lambda>st. fst (receive_message lib env buf st)" for lib env buf
  by (rule receive_message_call)

section \<open>The part of the state that the bookkeeping rests on\<close>

definition core :: "('p, 'db) child \<Rightarrow>
    (u32 \<times> u32 \<times> bool \<times> mavlink) \<times> (bool \<times> mavlink) list \<times> u8 \<times> u8 \<times> (nat \<Rightarrow> u8 option) \<times>
    (nat \<times> mavlink_msg) list \<times> (nat \<times> mavlink_msg) list" where
  "core s = ((lp_port2 (ch_p s), lp_flags (ch_p s), ch_have_conn1 s, ch_mav1 s),
     map (\<lambda>c. (c2_used c, c2_mav c)) (ch_conn2 s), ch_conn2_count s, ch_max_conn2_count s,
     link_ids (ch_glob s), ch_to_user s, ch_to_eng s)"

text \<open>An update of slot fields outside the core.\<close>

lemma map_upd_same:
  assumes "g (f (xs ! i)) = g (xs ! i)"
  shows "map g (xs[i := f (xs ! i)]) = map g xs"
  by (cases "i < length xs") (simp_all add: map_update assms list_update_same_conv list_update_beyond)

lemma core_upd_slot:
  "(\<And>c. c2_used (f c) = c2_used c) \<Longrightarrow> (\<And>c. c2_mav (f c) = c2_mav c) \<Longrightarrow> core (upd_slot i f s) = core s"
  by (simp add: core_def upd_slot_def slot_def map_upd_same)

lemma core_upd_net [simp]: "core (upd_net f s) = core s"
  by (simp add: core_def upd_net_def)

lemma core_upd_p:
  "(\<And>p. lp_port2 (f p) = lp_port2 p) \<Longrightarrow> (\<And>p. lp_flags (f p) = lp_flags p) \<Longrightarrow> core (upd_p f s) = core s"
  by (simp add: core_def upd_p_def)

lemma core_fields [simp]:
  "core (s\<lparr>ch_last_pkt1 := a\<rparr>) = core s" "core (s\<lparr>ch_count1 := b\<rparr>) = core s" "core (s\<lparr>ch_count2 := b\<rparr>) = core s"
  "core (s\<lparr>ch_tlog := c\<rparr>) = core s" "core (s\<lparr>ch_binlog := d\<rparr>) = core s" "core (s\<lparr>ch_disk := e\<rparr>) = core s"
  "core (s\<lparr>ch_mav1_peer := f\<rparr>) = core s" "core (s\<lparr>ch_mav1_connected_at := g\<rparr>) = core s"
  "core (s\<lparr>ch_mav1_rx_msgs := b\<rparr>) = core s" "core (s\<lparr>ch_mav1_tx_msgs := b\<rparr>) = core s"
  "core (s\<lparr>ch_mav1_is_tcp := h\<rparr>) = core s" "core (s\<lparr>ch_last_conn_save := a\<rparr>) = core s"
  "core (s\<lparr>ch_conndb := i\<rparr>) = core s" "core (s\<lparr>ch_crashed := h\<rparr>) = core s"
  "core (s\<lparr>ch_net := k\<rparr>) = core s"
  by (simp_all add: core_def)

lemma core_log_message [simp]: "core (log_message cx me msg s) = core s"
  by (simp add: log_message_def Let_def case_prod_beta)

lemma core_binlog_msg [simp]: "core (fst (binlog_handle_user_msg cx me msg s)) = core s"
  by (simp add: binlog_handle_user_msg_def Let_def case_prod_beta)

lemma core_inc_tx [simp]: "core (upd_slot i inc_tx s) = core s"
  by (rule core_upd_slot) (simp_all add: inc_tx_def)

lemma core_close_udp1 [simp]: "core (close_udp1 s) = core s"
  by (simp add: close_udp1_def core_upd_p)

lemma core_close_tcp1 [simp]: "core (close_tcp1 s) = core s"
  by (simp add: close_tcp1_def core_upd_p)

lemma core_stream_recv [simp]: "core (fst (stream_recv cx ti ws s)) = core s"
  by (auto simp: stream_recv_def split: option.splits prod.splits)

lemma core_snapshot [simp]: "core (snapshot cx pid now si s) = core s"
  by (simp add: snapshot_def Let_def split: option.split)

lemma core_check_table [simp]: "core (check_table s) = core s"
  by (simp add: check_table_def)

text \<open>What the core determines.\<close>

lemma core_eqD:
  assumes "core s' = core s"
  shows "ch_have_conn1 s' = ch_have_conn1 s" "ch_max_conn2_count s' = ch_max_conn2_count s"
    "ch_conn2_count s' = ch_conn2_count s" "length (ch_conn2 s') = length (ch_conn2 s)"
    "i < length (ch_conn2 s) \<Longrightarrow> c2_used (slot i s') = c2_used (slot i s)"
    "i < length (ch_conn2 s) \<Longrightarrow> c2_mav (slot i s') = c2_mav (slot i s)"
proof -
  have m: "map (\<lambda>c. (c2_used c, c2_mav c)) (ch_conn2 s') = map (\<lambda>c. (c2_used c, c2_mav c)) (ch_conn2 s)"
    using assms by (simp add: core_def)
  then show len: "length (ch_conn2 s') = length (ch_conn2 s)"
    by (metis length_map)
  show "ch_have_conn1 s' = ch_have_conn1 s" "ch_max_conn2_count s' = ch_max_conn2_count s"
    "ch_conn2_count s' = ch_conn2_count s"
    using assms by (simp_all add: core_def)
  show "i < length (ch_conn2 s) \<Longrightarrow> c2_used (slot i s') = c2_used (slot i s)"
    "i < length (ch_conn2 s) \<Longrightarrow> c2_mav (slot i s') = c2_mav (slot i s)"
    using arg_cong [OF m, of "\<lambda>l. l ! i"] len by (simp_all add: slot_def)
qed

lemma put_st_fields [simp]:
  "ch_conn2 (put_st st s) = ch_conn2 s" "ch_p (put_st st s) = ch_p s" "ch_have_conn1 (put_st st s) = ch_have_conn1 s"
  "ch_mav1 (put_st st s) = ch_mav1 s" "ch_conn2_count (put_st st s) = ch_conn2_count s"
  "ch_max_conn2_count (put_st st s) = ch_max_conn2_count s" "ch_glob (put_st st s) = ms_glob st"
  "ch_to_user (put_st st s) = ch_to_user s" "ch_to_eng (put_st st s) = ch_to_eng s"
  "ch_net (put_st st s) = ms_link st" "slot i (put_st st s) = slot i s"
  by (simp_all add: put_st_def slot_def)

lemma mav_st_fields [simp]:
  "ms_mav (mav_st m s) = m" "ms_glob (mav_st m s) = ch_glob s" "ms_link (mav_st m s) = ch_net s"
  by (simp_all add: mav_st_def)

lemma upd_slot_fields [simp]:
  "ch_p (upd_slot i f s) = ch_p s" "ch_have_conn1 (upd_slot i f s) = ch_have_conn1 s"
  "ch_mav1 (upd_slot i f s) = ch_mav1 s" "ch_conn2_count (upd_slot i f s) = ch_conn2_count s"
  "ch_max_conn2_count (upd_slot i f s) = ch_max_conn2_count s" "ch_glob (upd_slot i f s) = ch_glob s"
  "ch_to_user (upd_slot i f s) = ch_to_user s" "ch_to_eng (upd_slot i f s) = ch_to_eng s"
  "ch_net (upd_slot i f s) = ch_net s" "length (ch_conn2 (upd_slot i f s)) = length (ch_conn2 s)"
  by (simp_all add: upd_slot_def)

lemma slot_upd_slot:
  "j < length (ch_conn2 s) \<Longrightarrow> slot j (upd_slot i f s) = (if i = j then f (slot j s) else slot j s)"
  by (auto simp: slot_def upd_slot_def nth_list_update)

lemma on_slot_fields [simp]:
  "ch_p (fst (on_slot i f s)) = ch_p s" "ch_have_conn1 (fst (on_slot i f s)) = ch_have_conn1 s"
  "ch_mav1 (fst (on_slot i f s)) = ch_mav1 s" "ch_conn2_count (fst (on_slot i f s)) = ch_conn2_count s"
  "ch_max_conn2_count (fst (on_slot i f s)) = ch_max_conn2_count s"
  "ch_to_user (fst (on_slot i f s)) = ch_to_user s" "length (ch_conn2 (fst (on_slot i f s))) = length (ch_conn2 s)"
  "ch_to_eng (fst (on_slot i f s)) = ch_to_eng s"
  "ch_glob (fst (on_slot i f s)) = ms_glob (fst (f (mav_st (c2_mav (slot i s)) s)))"
  by (simp_all add: on_slot_def case_prod_beta)

lemma on_slot_slot:
  "j < length (ch_conn2 s) \<Longrightarrow> slot j (fst (on_slot i f s)) =
    (if i = j then (slot j s)\<lparr>c2_mav := ms_mav (fst (f (mav_st (c2_mav (slot i s)) s)))\<rparr> else slot j s)"
  by (simp add: on_slot_def case_prod_beta slot_upd_slot)

lemma on_mav1_fields [simp]:
  "ch_p (fst (on_mav1 f s)) = ch_p s" "ch_have_conn1 (fst (on_mav1 f s)) = ch_have_conn1 s"
  "ch_conn2 (fst (on_mav1 f s)) = ch_conn2 s" "ch_conn2_count (fst (on_mav1 f s)) = ch_conn2_count s"
  "ch_max_conn2_count (fst (on_mav1 f s)) = ch_max_conn2_count s"
  "ch_to_user (fst (on_mav1 f s)) = ch_to_user s" "slot i (fst (on_mav1 f s)) = slot i s"
  "ch_to_eng (fst (on_mav1 f s)) = ch_to_eng s"
  "ch_mav1 (fst (on_mav1 f s)) = ms_mav (fst (f (mav_st (ch_mav1 s) s)))"
  "ch_glob (fst (on_mav1 f s)) = ms_glob (fst (f (mav_st (ch_mav1 s) s)))"
  by (simp_all add: on_mav1_def case_prod_beta slot_def)

lemma close_slot_fields [simp]:
  "ch_p (close_slot i s) = ch_p s" "ch_have_conn1 (close_slot i s) = ch_have_conn1 s"
  "ch_mav1 (close_slot i s) = ch_mav1 s" "ch_conn2_count (close_slot i s) = ch_conn2_count s"
  "ch_max_conn2_count (close_slot i s) = ch_max_conn2_count s" "ch_glob (close_slot i s) = ch_glob s"
  "ch_to_user (close_slot i s) = ch_to_user s" "ch_to_eng (close_slot i s) = ch_to_eng s" "length (ch_conn2 (close_slot i s)) = length (ch_conn2 s)"
  by (simp_all add: close_slot_def upd_net_def)

lemma close_slot_slot:
  "j < length (ch_conn2 s) \<Longrightarrow> slot j (close_slot i s) = (if i = j then conn2_closed (slot j s) else slot j s)"
  by (simp add: close_slot_def upd_net_def slot_upd_slot) (simp add: slot_def)

lemma drop_slot_fields [simp]:
  "ch_p (drop_slot i s) = ch_p s" "ch_have_conn1 (drop_slot i s) = ch_have_conn1 s"
  "ch_mav1 (drop_slot i s) = ch_mav1 s" "ch_glob (drop_slot i s) = ch_glob s"
  "ch_conn2_count (drop_slot i s) = ch_conn2_count s - 1"
  "ch_max_conn2_count (drop_slot i s) =
     (if ch_conn2_count s = ch_max_conn2_count s then ch_max_conn2_count s - 1 else ch_max_conn2_count s)"
  "ch_to_user (drop_slot i s) = ch_to_user s" "ch_to_eng (drop_slot i s) = ch_to_eng s" "length (ch_conn2 (drop_slot i s)) = length (ch_conn2 s)"
  "ch_conn2 (drop_slot i s) = ch_conn2 (close_slot i s)"
  by (auto simp: drop_slot_def Let_def)

lemma drop_slot_slot:
  "j < length (ch_conn2 s) \<Longrightarrow> slot j (drop_slot i s) = (if i = j then conn2_closed (slot j s) else slot j s)"
  using close_slot_slot [of j s i] by (simp add: slot_def)

lemma send_slot_slot:
  assumes "i < length (ch_conn2 s)"
  shows "c2_used (slot i (fst (send_slot cx sy msg i s))) = c2_used (slot i s)"
    and "c2_is_udp (slot i (fst (send_slot cx sy msg i s))) = c2_is_udp (slot i s)"
    and "length (ch_conn2 (fst (send_slot cx sy msg i s))) = length (ch_conn2 s)"
  using assms by (simp_all add: send_slot_def on_slot_slot) (simp_all add: slot_def)

lemma init_mav1_frame:
  "init_mav1 cx sy fd tcp (s\<lparr>ch_have_conn1 := b\<rparr>) = (init_mav1 cx sy fd tcp s)\<lparr>ch_have_conn1 := b\<rparr>"
  by (simp add: init_mav1_def on_mav1_def mav_st_def put_st_def flag_set_def conn1_key_id_def port2_int_def case_prod_beta)

lemma core_have_conn1: "core s' = core s \<Longrightarrow> core (s'\<lparr>ch_have_conn1 := b\<rparr>) = core (s\<lparr>ch_have_conn1 := b\<rparr>)"
  by (simp add: core_def)

section \<open>The pump of the binary log\<close>

text \<open>What packing and sending keep of the link, the pump keeps.\<close>

locale kept_link =
  fixes ul :: "'l user_link" and J :: "'l \<Rightarrow> bool"
  assumes pack: "J l \<Longrightarrow> J (fst (ul_pack_status ul l a b c d sq st))"
    and send: "J l \<Longrightarrow> J (fst (ul_send_buf ul l buf))"
begin

lemma status_kept:
  "J (fst p) \<Longrightarrow> J (fst (fst (pack_and_send ul b sq st p)))"
  "J (fst p) \<Longrightarrow> J (fst (fst (send_status ul b sq st p)))"
  by (simp_all add: pack_and_send_def send_status_def Let_def case_prod_beta pack send)

lemma drain_kept: "J (fst p) \<Longrightarrow> J (fst (drain_acks ul b ss p))"
  by (induction ss arbitrary: p) (simp_all add: status_kept)

lemma nacks_kept: "J (fst p) \<Longrightarrow> J (fst (snd (nack_loop ul now budget ss (b, p))))"
proof (induction ss arbitrary: budget b p)
  case (Cons s ss)
  then show ?case
    using status_kept(2) [OF Cons.prems, of b s MAV_REMOTE_LOG_DATA_BLOCK_NACK]
    by (simp add: case_prod_beta split: option.split)
qed simp

lemma start_kept: "J (fst p) \<Longrightarrow> J (fst (snd (maybe_start ul now t (b, p))))"
  by (simp add: maybe_start_def send_start_packet_def case_prod_beta status_kept)

lemma tick_kept:
  assumes "J (fst p)"
  shows "J (fst (snd (tick ul now order (b, p))))"
proof -
  obtain b1 p1 where m: "maybe_start ul now START_KEEPALIVE (b, p) = (b1, p1)"
    by (rule prod.exhaust)
  then have "J (fst p1)"
    using start_kept [OF assms, of now START_KEEPALIVE b] by simp
  then show ?thesis
    using start_kept [OF assms] nacks_kept drain_kept by (simp add: tick_def Let_def m)
qed

end

text \<open>Packing changes the library's own state only, sending the network only.\<close>

interpretation pump: kept_link "binlog_link cx sy" "\<lambda>st. ms_mav st = m \<and> link_ids (ms_glob st) = ids" for cx sy m ids
  by unfold_locales (auto simp: binlog_link_def send_buf_def case_prod_beta link_ids_def fun_eq_iff)

lemma core_pump [simp]: "core (pump_binlog cx sy now order s) = core s"
proof -
  obtain b st out where t: "tick (binlog_link cx sy) now order (ch_binlog s, (mav_st (ch_mav1 s) s, [])) = (b, (st, out))"
    by (rule prod_cases3)
  have "ms_mav st = ch_mav1 s \<and> link_ids (ms_glob st) = link_ids (ch_glob s)"
    using pump.tick_kept [of "(mav_st (ch_mav1 s) s, [])" "ch_mav1 s" "link_ids (ch_glob s)" cx sy now order "ch_binlog s"] t
    by simp
  then show ?thesis
    by (simp add: pump_binlog_def on_mav1_def t core_def)
qed

section \<open>Runs of the child\<close>

text \<open>
  A property of the core that is kept by each call on a link, each way a slot is closed and the
  opening of the user's link.
\<close>

locale child_calls =
  fixes cx :: "('p, 'db) ctx" and I :: "('p, 'db) child \<Rightarrow> bool" and U :: "mavlink_msg \<Rightarrow> bool"
  assumes core_only: "I s \<Longrightarrow> core s' = core s \<Longrightarrow> I s'"
    and table: "I s \<Longrightarrow> length (ch_conn2 s) = MAX_COMM2_LINKS"
    and inv_recv_user: "I s \<Longrightarrow> ch_have_conn1 s \<Longrightarrow> receive_user cx sy buf s = (s1, rest, out) \<Longrightarrow>
      I s1 \<and> (\<forall>msg. out = Some msg \<longrightarrow> U msg)"
    and inv_recv_slot: "I s \<Longrightarrow> i < MAX_COMM2_LINKS \<Longrightarrow> c2_used (slot i s) \<Longrightarrow>
      receive_slot cx sy i buf s = (s1, rest, out) \<Longrightarrow>
      I s1 \<and> (\<forall>msg. out = Some msg \<longrightarrow> I (s1\<lparr>ch_to_user := ch_to_user s1 @ [(i, msg)]\<rparr>))"
    and inv_send_user: "I s \<Longrightarrow> ch_have_conn1 s \<Longrightarrow>
      I (fst (on_mav1 (send_message (cx_lib cx) (mav_env_of (cx_api cx) sy) msg) s))"
    and inv_send_slot: "I s \<Longrightarrow> U msg \<Longrightarrow> i < MAX_COMM2_LINKS \<Longrightarrow> c2_used (slot i s) \<Longrightarrow>
      I (fst (send_slot cx sy msg i s))"
    and inv_close: "I s \<Longrightarrow> i < MAX_COMM2_LINKS \<Longrightarrow> c2_used (slot i s) \<Longrightarrow> I (close_slot i s)"
    and inv_drop: "I s \<Longrightarrow> i < MAX_COMM2_LINKS \<Longrightarrow> c2_used (slot i s) \<Longrightarrow> I (drop_slot i s)"
    and inv_request: "I s \<Longrightarrow> I (fst (drop_index idx (s, b)))"
    and inv_user: "I s \<Longrightarrow> \<not> ch_have_conn1 s \<Longrightarrow> I (init_mav1 cx sy fd tcp (s\<lparr>ch_have_conn1 := True\<rparr>))"
    and inv_user_ws: "I s \<Longrightarrow> I (s\<lparr>ch_mav1 := set_ws w (ch_mav1 s)\<rparr>)"
    and inv_slot_ws: "I s \<Longrightarrow> i < MAX_COMM2_LINKS \<Longrightarrow> c2_used (slot i s) \<Longrightarrow>
      I (upd_slot i (\<lambda>c. c\<lparr>c2_ws := Some w, c2_mav := set_ws w (c2_mav c)\<rparr>) s)"
begin

lemma forward_inv:
  assumes "I s" and "U msg" and "i < MAX_COMM2_LINKS"
  shows "I (forward_udp cx me msg i s)" and "I (forward_tcp cx me msg i s)"
proof -
  have send: "I (fst (send_slot cx sy msg i t))" if "I t" "c2_used (slot i t)" for sy t
    using inv_send_slot that assms(2,3) by simp
  have used: "c2_used (slot i (fst (send_slot cx sy msg i t)))" if "I t" "c2_used (slot i t)" for sy t
    using that table [of t] assms(3) by (simp add: send_slot_slot)
  have turn: "I (if \<not> snd (send_slot cx sy msg i t) then drop_slot i (fst (send_slot cx sy msg i t))
      else upd_slot i inc_tx (fst (send_slot cx sy msg i t)))" if "I t" "c2_used (slot i t)" for sy t
    using inv_drop [OF send [OF that] assms(3) used [OF that]] core_only [OF send [OF that]] by simp
  have inc: "I (upd_slot i inc_tx t)" if "I t" for t
    by (rule core_only [OF that]) simp
  show "I (forward_tcp cx me msg i s)"
    using turn assms(1) by (simp add: forward_tcp_def case_prod_beta)
  have udp: "c2_is_udp (slot i (drop_slot i (fst (send_slot cx sy msg i s)))) = c2_is_udp (slot i s)"
      "c2_is_udp (slot i (upd_slot i inc_tx (fst (send_slot cx sy msg i s)))) = c2_is_udp (slot i s)" for sy
    using table [OF assms(1)] assms(3)
    by (simp_all add: drop_slot_slot slot_upd_slot send_slot_slot conn2_closed_def inc_tx_def)
  show "I (forward_udp cx me msg i s)"
    using turn [of s "me_send me i"] inc send udp assms(1)
    by (auto simp: forward_udp_def case_prod_beta Let_def)
qed

lemma slots_loop_inv:
  assumes "I s" and "\<And>i s. I s \<Longrightarrow> i < MAX_COMM2_LINKS \<Longrightarrow> I (f i s)"
  shows "I (slots_loop f s)"
proof -
  have "I (at_slot f i t)" if "I t" for i t
    using that assms(2) table [OF that] core_only [OF that, of "t\<lparr>ch_crashed := True\<rparr>"]
    by (simp add: at_slot_def)
  then have "I (fold (at_slot f) is t)" if "I t" for "is" t
    using that by (induction "is" arbitrary: t) auto
  then show ?thesis
    using assms(1) by (simp add: slots_loop_def)
qed

lemma handle_user_msg_inv:
  assumes "I s" and "U msg"
  shows "I (handle_user_msg cx udp me msg s)"
proof -
  let ?s = "fst (binlog_handle_user_msg cx me msg (log_message cx me msg (s\<lparr>ch_mav1_rx_msgs := ch_mav1_rx_msgs s + 1\<rparr>)))"
  have "I ?s"
    by (rule core_only [OF assms(1)]) simp
  then have "I (slots_loop (if udp then forward_udp cx me msg else forward_tcp cx me msg) ?s)"
    by (rule slots_loop_inv) (simp_all add: forward_inv assms(2))
  then show ?thesis
    using \<open>I ?s\<close> by (cases udp) (simp_all add: handle_user_msg_def Let_def case_prod_beta split: bool.split)
qed

lemma have_conn1_forward:
  "ch_have_conn1 (forward_udp cx me msg i s) = ch_have_conn1 s"
  "ch_have_conn1 (forward_tcp cx me msg i s) = ch_have_conn1 s"
  by (simp_all add: forward_udp_def forward_tcp_def send_slot_def case_prod_beta Let_def)

lemma have_conn1_loop:
  assumes "\<And>i s. ch_have_conn1 (f i s) = ch_have_conn1 s"
  shows "ch_have_conn1 (slots_loop f s) = ch_have_conn1 s"
proof -
  have "ch_have_conn1 (fold (at_slot f) is t) = ch_have_conn1 t" for "is" t
    by (induction "is" arbitrary: t) (simp_all add: at_slot_def assms)
  then show ?thesis
    by (simp add: slots_loop_def)
qed

lemma have_conn1_msg: "ch_have_conn1 (handle_user_msg cx udp me msg s) = ch_have_conn1 s"
proof -
  let ?s = "fst (binlog_handle_user_msg cx me msg (log_message cx me msg (s\<lparr>ch_mav1_rx_msgs := ch_mav1_rx_msgs s + 1\<rparr>)))"
  have "core ?s = core s"
    by simp
  then have "ch_have_conn1 ?s = ch_have_conn1 s"
    by (rule core_eqD)
  moreover have "ch_have_conn1 (slots_loop (if udp then forward_udp cx me msg else forward_tcp cx me msg) ?s) = ch_have_conn1 ?s"
    by (rule have_conn1_loop) (simp_all add: have_conn1_forward)
  ultimately show ?thesis
    by (cases udp) (simp_all add: handle_user_msg_def Let_def case_prod_beta split: bool.split)
qed

lemma user_msgs_inv: "I s \<Longrightarrow> ch_have_conn1 s \<Longrightarrow> I (user_msgs cx udp me k buf s)"
proof (induction "length buf" arbitrary: buf k s rule: less_induct)
  case less
  obtain s1 rest out where r: "receive_user cx (me_receive (me k)) buf s = (s1, rest, out)"
    by (rule prod_cases3)
  have "I s1" and u: "\<And>msg. out = Some msg \<Longrightarrow> U msg" and "ch_have_conn1 s1"
    using inv_recv_user [OF less.prems r] less.prems(2) r
      on_mav1_fields(2) [of "receive_message (cx_lib cx) (mav_env_of (cx_api cx) (me_receive (me k))) buf" s]
    by (simp_all add: receive_user_def)
  then show ?case
    using less.prems less.hyps [of rest "handle_user_msg cx udp (me k) (the out) s1" "Suc k"]
      handle_user_msg_inv [OF \<open>I s1\<close> u] have_conn1_msg r receive_user_shorter [of cx "me_receive (me k)" buf s s1 rest]
    by (subst user_msgs.simps) (cases out; simp)
qed

lemma user_data_inv: "I s \<Longrightarrow> ch_have_conn1 s \<Longrightarrow> I (user_data cx udp me buf s)"
  by (simp add: user_data_def user_msgs_inv)

lemma engineer_msgs_inv:
  "I s \<Longrightarrow> ch_have_conn1 s \<Longrightarrow> i < MAX_COMM2_LINKS \<Longrightarrow> c2_used (slot i s) \<Longrightarrow>
    I (fst (engineer_msgs cx me i k buf s))"
proof (induction "length buf" arbitrary: buf k s rule: less_induct)
  case less
  obtain s1 rest out where r: "receive_slot cx (me_receive (me k)) i buf s = (s1, rest, out)"
    by (rule prod_cases3)
  have s1: "s1 = fst (receive_slot cx (me_receive (me k)) i buf s)"
    using r by simp
  have keep: "ch_have_conn1 s1" "c2_used (slot i s1)" "length (ch_conn2 s1) = MAX_COMM2_LINKS"
    using less.prems table [OF less.prems(1)] unfolding s1 receive_slot_def by (simp_all add: on_slot_slot)
  have I1: "I s1" and I1m: "\<And>msg. out = Some msg \<Longrightarrow> I (s1\<lparr>ch_to_user := ch_to_user s1 @ [(i, msg)]\<rparr>)"
    using inv_recv_slot [OF less.prems(1,3,4) r] by auto
  show ?case
  proof (cases "buf = [] \<or> out = None")
    case True
    then show ?thesis
      using r less.prems I1 by (subst engineer_msgs.simps) auto
  next
    case False
    then obtain msg where out: "out = Some msg" and ne: "buf \<noteq> []"
      by auto
    define s2 where "s2 = log_message cx (me k) msg (upd_slot i (\<lambda>c. c\<lparr>c2_rx_msgs := c2_rx_msgs c + 1\<rparr>) s1)"
    define s2' where "s2' = s2\<lparr>ch_to_user := ch_to_user s2 @ [(i, msg)]\<rparr>"
    define s3 where "s3 = fst (send_user cx (me_send (me k) 0) i msg s2)"
    have c2: "core s2 = core s1"
      by (simp add: s2_def core_upd_slot)
    have "core s2' = core (s1\<lparr>ch_to_user := ch_to_user s1 @ [(i, msg)]\<rparr>)"
      using c2 by (simp add: s2'_def core_def)
    then have I2: "I s2'"
      using I1m [OF out] core_only by blast
    have conn2': "ch_have_conn1 s2'" "c2_used (slot i s2')" "length (ch_conn2 s2') = MAX_COMM2_LINKS"
      using core_eqD(1,4) [OF c2] core_eqD(5) [OF c2, of i] keep less.prems(3) by (simp_all add: s2'_def slot_def)
    have I3: "I s3" and conn3: "ch_have_conn1 s3" "c2_used (slot i s3)"
      using inv_send_user [OF I2 conn2'(1)] conn2' by (simp_all add: s3_def send_user_def s2'_def)
    let ?s4 = "s3\<lparr>ch_mav1_tx_msgs := ch_mav1_tx_msgs s3 + 1\<rparr>"
    have I4: "I ?s4" and conn4: "ch_have_conn1 ?s4" "c2_used (slot i ?s4)"
      using conn3 core_only [OF I3, of ?s4] by (simp_all add: slot_def)
    have "length rest < length buf"
      using r out receive_slot_shorter by blast
    then have "I (fst (engineer_msgs cx me i (Suc k) rest ?s4))"
      using less.hyps I4 conn4 less.prems(3) by blast
    moreover have "fst (engineer_msgs cx me i k buf s) =
        (if snd (send_user cx (me_send (me k) 0) i msg s2) then fst (engineer_msgs cx me i (Suc k) rest ?s4) else s3)"
      using ne r out by (subst engineer_msgs.simps) (simp add: s2_def s3_def Let_def case_prod_beta split: bool.split)
    ultimately show ?thesis
      using I3 by simp
  qed
qed

lemma engineer_data_inv:
  "I s \<Longrightarrow> i < MAX_COMM2_LINKS \<Longrightarrow> c2_used (slot i s) \<Longrightarrow> I (fst (engineer_data cx me i buf s))"
  by (simp add: engineer_data_def engineer_msgs_inv)

lemma sweep_inv: "I s \<Longrightarrow> I (sweep_dead_udp now s)"
  unfolding sweep_dead_udp_def by (rule slots_loop_inv) (auto simp: dead_udp_def intro: inv_close)

lemma user_start_inv:
  assumes "I s" and "\<not> ch_have_conn1 s"
    and "core t = core ((init_mav1 cx sy fd tcp s)\<lparr>ch_have_conn1 := True\<rparr>)"
  shows "I t"
  using core_only [OF inv_user [OF assms(1,2), of sy fd tcp]] assms(3) by (simp add: init_mav1_frame)

lemma user_udp_inv:
  assumes "I s"
  shows "I (fst (user_udp cx now time dgram connect_ok sy me s))"
proof (cases dgram)
  case None
  then show ?thesis
    using core_only [OF assms, of "close_tcp1 s"] by (simp add: user_udp_def Let_def)
next
  case (Some d)
  obtain buf from_peer where d: "d = (buf, from_peer)" by (rule prod.exhaust)
  define s2 where "s2 = (close_tcp1 s)\<lparr>ch_last_pkt1 := now, ch_count1 := ch_count1 (close_tcp1 s) + 1\<rparr>"
  have c2: "core s2 = core s"
    by (simp add: s2_def)
  have I2: "I s2"
    by (rule core_only [OF assms c2])
  define s3 where "s3 = (init_mav1 cx sy (sock1_udp (ch_p s2)) False s2)\<lparr>ch_have_conn1 := True,
     ch_mav1_peer := from_peer, ch_mav1_connected_at := time, ch_mav1_is_tcp := False, ch_last_conn_save := 0\<rparr>"
  have "I s3" if "\<not> ch_have_conn1 s2"
    by (rule user_start_inv [OF I2 that, of _ sy "sock1_udp (ch_p s2)" False]) (simp add: s3_def)
  moreover have "ch_have_conn1 s3"
    by (simp add: s3_def)
  moreover have "fst (user_udp cx now time dgram connect_ok sy me s) =
      (if \<not> ch_have_conn1 s2 then if \<not> connect_ok then s2 else user_data cx True me buf s3
       else user_data cx True me buf s2)"
    by (simp add: user_udp_def Some d Let_def s2_def s3_def)
  ultimately show ?thesis
    using I2 user_data_inv by simp
qed

lemma user_tcp_accept_inv:
  assumes "I s" and "\<not> ch_have_conn1 s"
  shows "I (fst (user_tcp_accept cx now time accepted sy s))"
proof (cases accepted)
  case None
  then show ?thesis
    using core_only [OF assms(1), of "close_udp1 s"] by (simp add: user_tcp_accept_def Let_def)
next
  case (Some d)
  obtain fd2 from_peer where d: "d = (fd2, from_peer)" by (rule prod.exhaust)
  define s2 where "s2 = (upd_p (\<lambda>p. p\<lparr>sock1_tcp := fd2\<rparr>)
      (upd_net (net_close_fd (sock1_tcp (ch_p (close_udp1 s)))) (close_udp1 s)))\<lparr>
      ch_mav1_peer := from_peer, ch_mav1_connected_at := time, ch_mav1_is_tcp := True, ch_last_conn_save := 0\<rparr>"
  have c2: "core s2 = core s"
    by (simp add: s2_def core_upd_p)
  have I2: "I s2" and h2: "\<not> ch_have_conn1 s2"
    using core_only [OF assms(1) c2] core_eqD(1) [OF c2] assms(2) by simp_all
  have flip: "t\<lparr>ch_have_conn1 := True, ch_mav1_peer := from_peer, ch_mav1_connected_at := time,
      ch_mav1_is_tcp := True, ch_last_conn_save := 0\<rparr> = t\<lparr>ch_mav1_peer := from_peer, ch_mav1_connected_at := time,
      ch_mav1_is_tcp := True, ch_last_conn_save := 0, ch_have_conn1 := True\<rparr>" for t :: "('p, 'db) child"
    by simp
  have "fst (user_tcp_accept cx now time accepted sy s) =
      (init_mav1 cx sy (sock1_tcp (ch_p s2)) True (s2\<lparr>ch_have_conn1 := True\<rparr>))\<lparr>ch_last_pkt1 := now\<rparr>"
    unfolding user_tcp_accept_def Some d Let_def option.case prod.case fst_conv by (simp only: flip) (simp add: s2_def)
  then show ?thesis
    using core_only [OF inv_user [OF I2 h2, of sy "sock1_tcp (ch_p s2)" True]] by simp
qed

lemma user_tcp_inv:
  assumes "I s" and "ch_have_conn1 s"
  shows "I (fst (user_tcp cx now ti me s))"
proof -
  define s2 where "s2 = (if ch_count1 (close_udp1 s) = 0 \<and> detect (ti_peek ti)
      then let w = nt_next (ch_net (close_udp1 s));
               t = upd_net (net_new (ws_new (cx_accept cx) (ti_ws_new ti) (ti_peek ti) (ti_ssl_setup ti))) (close_udp1 s)
           in (upd_p (\<lambda>p. p\<lparr>lp_ws := Some w\<rparr>) t)\<lparr>ch_mav1 := set_ws w (ch_mav1 t)\<rparr>
      else close_udp1 s)"
  have I1: "I (upd_p (\<lambda>p. p\<lparr>lp_ws := w\<rparr>) (upd_net f (close_udp1 s)))" and I0: "I (close_udp1 s)" for w f
    using core_only [OF assms(1)] by (simp_all add: core_upd_p)
  have I2: "I s2"
    using I0 inv_user_ws [OF I1] by (simp add: s2_def Let_def upd_p_def)
  have h2: "ch_have_conn1 s2"
    using assms(2) by (simp add: s2_def Let_def upd_p_def upd_net_def close_udp1_def)
  obtain s3 r where r: "stream_recv cx ti (lp_ws (ch_p s2)) s2 = (s3, r)"
    by (rule prod.exhaust)
  have c3: "core s3 = core s2"
    using core_stream_recv [of cx ti "lp_ws (ch_p s2)" s2] r by simp
  let ?s4 = "s3\<lparr>ch_last_pkt1 := now, ch_count1 := ch_count1 s3 + 1\<rparr>"
  have I3: "I s3" and I4: "I ?s4" and h4: "ch_have_conn1 ?s4"
    using core_only [OF I2 c3] core_only [OF I2, of ?s4] core_eqD(1) [OF c3] h2 c3 by simp_all
  have "fst (user_tcp cx now ti me s) =
      (case r of Eof \<Rightarrow> s3 | _ \<Rightarrow> user_data cx False me (case r of Got buf \<Rightarrow> buf | _ \<Rightarrow> []) ?s4)"
    using r unfolding s2_def by (cases r) (simp_all add: user_tcp_def Let_def)
  then show ?thesis
    using I3 user_data_inv [OF I4 h4] by (simp split: received.split)
qed

lemma engineer_turn_inv:
  assumes "I s"
  shows "I (fst (engineer_tcp_turn cx isset ti me i (s, left)))"
proof -
  define c where "c = slot i s"
  define s1 where "s1 = (if \<not> c2_tcp_active c \<and> detect (ti_peek (ti i))
      then let w = nt_next (ch_net s);
               t = upd_net (net_new (ws_new (cx_accept cx) (ti_ws_new (ti i)) (ti_peek (ti i)) (ti_ssl_setup (ti i)))) s
           in upd_slot i (\<lambda>c. c\<lparr>c2_ws := Some w, c2_mav := set_ws w (c2_mav c)\<rparr>) t
      else s)"
  obtain s2 r where r: "stream_recv cx (ti i) (c2_ws (slot i s1)) s1 = (s2, r)"
    by (rule prod.exhaust)
  show ?thesis
  proof (cases "left \<or> \<not> i < unat (ch_max_conn2_count s) \<or> \<not> i < length (ch_conn2 s)
      \<or> c2_is_udp c \<or> \<not> c2_used c \<or> c2_sock c = -1 \<or> \<not> isset (c2_sock c)")
    case True
    then show ?thesis
      using assms core_only [OF assms, of "s\<lparr>ch_crashed := True\<rparr>"]
      by (auto simp: engineer_tcp_turn_def c_def Let_def)
  next
    case False
    then have i: "i < MAX_COMM2_LINKS" and used: "c2_used (slot i s)"
      using table [OF assms] by (simp_all add: c_def)
    have It: "I (upd_net f s)" and ut: "c2_used (slot i (upd_net f s))" for f
      using core_only [OF assms] used by (simp_all add: slot_def upd_net_def)
    have I1: "I s1"
      using assms inv_slot_ws [OF It i ut] by (simp add: s1_def Let_def)
    have u1: "c2_used (slot i s1)"
      using used ut i table [OF It] by (simp add: s1_def Let_def slot_upd_slot)
    have c2: "core s2 = core s1"
      using core_stream_recv [of cx "ti i" "c2_ws (slot i s1)" s1] r by simp
    have I2: "I s2" and u2: "c2_used (slot i s2)"
      using core_only [OF I1 c2] core_eqD(5) [OF c2, of i] u1 i table [OF I1] by simp_all
    let ?s3 = "upd_slot i (\<lambda>c. c\<lparr>c2_tcp_active := True\<rparr>) (s2\<lparr>ch_count2 := ch_count2 s2 + 1\<rparr>)"
    have c3: "core ?s3 = core s2"
      by (simp add: core_upd_slot)
    have "I ?s3" and "c2_used (slot i ?s3)"
      using core_only [OF I2 c3] core_eqD(5) [OF c3, of i] u2 i table [OF I2] by simp_all
    then have "I (fst (engineer_data cx (me i) i buf ?s3))" for buf
      using engineer_data_inv i by blast
    moreover have "engineer_tcp_turn cx isset ti me i (s, left) =
        (case r of Eof \<Rightarrow> (drop_slot i s2, False) | Nothing_yet \<Rightarrow> (s2, False)
         | Got buf \<Rightarrow> engineer_data cx (me i) i buf ?s3)"
      using False r unfolding s1_def c_def by (cases r) (simp_all add: engineer_tcp_turn_def Let_def)
    ultimately show ?thesis
      using inv_drop [OF I2 i u2] I2 by (simp split: received.split)
  qed
qed

lemma engineer_tcp_inv: "I s \<Longrightarrow> I (engineer_tcp cx isset ti me s)"
proof -
  assume "I s"
  have "I (fst (engineer_tcp_turn cx isset ti me i st))" if "I (fst st)" for i st
    using engineer_turn_inv [OF that, of isset ti me i "snd st"] by simp
  then have "I (fst st) \<Longrightarrow> I (fst (fold (engineer_tcp_turn cx isset ti me) is st))" for "is" st
    by (induction "is" arbitrary: st) simp_all
  from this [of "(s, False)"] \<open>I s\<close> show ?thesis
    by (simp add: engineer_tcp_def)
qed

lemma process_drops_inv:
  assumes "I s"
  shows "I (fst (process_drops cx attempt s))"
proof -
  have "I (fst (drop_index i st))" if "I (fst st)" for i st
    using inv_request [OF that, of i "snd st"] by simp
  then have "I (fst st) \<Longrightarrow> I (fst (fold drop_index is st))" for "is" st
    by (induction "is" arbitrary: st) simp_all
  moreover have "I (s\<lparr>ch_conndb := d\<rparr>)" for d
    by (rule core_only [OF assms]) simp
  ultimately show ?thesis
    using assms by (simp add: process_drops_def Let_def split: option.split)
qed

lemma tail_inv: "I s \<Longrightarrow> I (snapshot cx pid sn si (pump_binlog cx sy tn order (engineer_tcp cx isset ti me s)))"
  by (rule core_only [OF engineer_tcp_inv]) simp_all

lemma check_table_inv: "I s \<Longrightarrow> I (check_table s)"
  by (erule core_only) simp

end

end
