(* ===== verification/Child_Run.thy ===== *)
theory Child_Run
  imports Child_Facts
begin

text \<open>
  Two invariants of the child's loop, each an instance of the contract of \<open>Child_Facts\<close>: the
  connection counters against the table, and the authentication state of the links.
\<close>

section \<open>The counters\<close>

definition used_count :: "('p, 'db) child \<Rightarrow> nat" where
  "used_count s = length (filter c2_used (ch_conn2 s))"

text \<open>Used slots are counted, the counter is below the polling bound, the bound is at most \<open>n\<close>.\<close>

definition counted :: "nat \<Rightarrow> ('p, 'db) child \<Rightarrow> bool" where
  "counted n s \<longleftrightarrow> length (ch_conn2 s) = MAX_COMM2_LINKS \<and> used_count s \<le> unat (ch_conn2_count s)
     \<and> ch_conn2_count s \<le> ch_max_conn2_count s \<and> unat (ch_max_conn2_count s) \<le> n"

lemma filter_list_update:
  "i < length xs \<Longrightarrow> length (filter P (xs[i := y])) + (if P (xs ! i) then 1 else 0)
     = length (filter P xs) + (if P y then 1 else 0)"
proof (induction xs arbitrary: i)
  case (Cons x xs)
  then show ?case
    using Cons.IH [of "i - 1"] by (cases i) (auto split: if_splits)
qed simp

lemma used_count_upd_slot:
  "i < length (ch_conn2 s) \<Longrightarrow> used_count (upd_slot i f s) + (if c2_used (slot i s) then 1 else 0)
     = used_count s + (if c2_used (f (slot i s)) then 1 else 0)"
  using filter_list_update [of i "ch_conn2 s" c2_used "f (slot i s)"]
  by (simp add: used_count_def upd_slot_def slot_def)

lemma used_count_cong: "map c2_used (ch_conn2 s') = map c2_used (ch_conn2 s) \<Longrightarrow> used_count s' = used_count s"
  using length_filter_map [of id c2_used "ch_conn2 s"] length_filter_map [of id c2_used "ch_conn2 s'"]
  by (simp add: used_count_def comp_def)

lemma used_count_core:
  assumes "core s' = core s"
  shows "used_count s' = used_count s"
proof (rule used_count_cong)
  have "map (\<lambda>c. (c2_used c, c2_mav c)) (ch_conn2 s') = map (\<lambda>c. (c2_used c, c2_mav c)) (ch_conn2 s)"
    using assms by (simp add: core_def)
  from arg_cong [OF this, of "map fst"] show "map c2_used (ch_conn2 s') = map c2_used (ch_conn2 s)"
    by (simp add: comp_def)
qed

lemma used_count_same_flags: "(\<And>c. c2_used (f c) = c2_used c) \<Longrightarrow> used_count (upd_slot i f s) = used_count s"
  by (rule used_count_cong) (simp add: upd_slot_def slot_def map_upd_same)

lemma used_count_frame [simp]:
  "used_count (put_st st s) = used_count s" "used_count (upd_net g s) = used_count s"
  "used_count (fst (on_mav1 h s)) = used_count s"
  "used_count (s\<lparr>ch_to_user := l\<rparr>) = used_count s" "used_count (s\<lparr>ch_to_eng := l\<rparr>) = used_count s" "used_count (s\<lparr>ch_mav1 := m\<rparr>) = used_count s"
  "used_count (s\<lparr>ch_have_conn1 := b\<rparr>) = used_count s" "used_count (s\<lparr>ch_conn2_count := k\<rparr>) = used_count s"
  "used_count (s\<lparr>ch_max_conn2_count := k\<rparr>) = used_count s" "used_count (s\<lparr>ch_last_conn_save := t\<rparr>) = used_count s"
  by (simp_all add: used_count_def upd_net_def)

lemma used_count_on_slot [simp]: "used_count (fst (on_slot i f s)) = used_count s"
  by (simp add: on_slot_def case_prod_beta used_count_same_flags)

lemma used_count_pos: "i < length (ch_conn2 s) \<Longrightarrow> c2_used (slot i s) \<Longrightarrow> 0 < used_count s"
  unfolding used_count_def slot_def by (metis filter_empty_conv length_greater_0_conv nth_mem)

lemma used_count_close:
  assumes "i < length (ch_conn2 s)" and "c2_used (slot i s)"
  shows "Suc (used_count (close_slot i s)) = used_count s"
  using used_count_upd_slot [of i "upd_net g s" conn2_closed for g] assms
  unfolding close_slot_def by (simp add: upd_net_def slot_def conn2_closed_def used_count_def)

lemma close_counted:
  assumes "counted n s" and "i < MAX_COMM2_LINKS" and "c2_used (slot i s)"
  shows "counted n (close_slot i s)"
  using assms used_count_close [of i s] by (simp add: counted_def)

text \<open>Lowering a counter that counts at least one slot.\<close>

lemma unat_pred: "0 < unat (w :: u8) \<Longrightarrow> unat (w - 1) = unat w - 1"
  by (metis neq0_conv unat_eq_0 unat_minus_one)

lemma drop_counted:
  assumes "counted n s" and "i < MAX_COMM2_LINKS" and "c2_used (slot i s)"
  shows "counted n (drop_slot i s)"
proof -
  have i: "i < length (ch_conn2 s)"
    using assms by (simp add: counted_def)
  have "used_count (drop_slot i s) = used_count (close_slot i s)"
    by (simp add: used_count_def)
  moreover have "0 < unat (ch_conn2_count s)" "0 < unat (ch_max_conn2_count s)"
    using used_count_pos [OF i assms(3)] assms(1) by (simp_all add: counted_def word_le_nat_alt)
  ultimately show ?thesis
    using assms(1) used_count_close [OF i assms(3)]
    by (auto simp: counted_def word_le_nat_alt unat_pred word_unat_eq_iff)
qed

lemma request_counted:
  assumes "counted n s"
  shows "counted n (fst (drop_index idx (s, b)))"
proof -
  let ?i = "sint idx"
  consider "\<not> (?i \<ge> 1 \<and> ?i \<le> int MAX_COMM2_LINKS)" | "?i \<ge> 1" "?i \<le> int MAX_COMM2_LINKS" "\<not> c2_used (slot (nat (?i - 1)) s)"
    | "?i \<ge> 1" "?i \<le> int MAX_COMM2_LINKS" "c2_used (slot (nat (?i - 1)) s)"
    by blast
  then show ?thesis
  proof cases
    case 3
    define i where "i = nat (?i - 1)"
    have i: "i < MAX_COMM2_LINKS" "c2_used (slot i s)"
      using 3 by (simp_all add: i_def)
    have len: "i < length (ch_conn2 s)"
      using i assms by (simp add: counted_def)
    have pos: "0 < unat (ch_conn2_count s)" "0 < unat (ch_max_conn2_count s)"
      using used_count_pos [OF len i(2)] assms by (simp_all add: counted_def word_le_nat_alt)
    then have gt: "0 < ch_conn2_count s" "0 < ch_max_conn2_count s"
      by (simp_all add: word_less_nat_alt)
    let ?c = "(close_slot i s)\<lparr>ch_conn2_count := ch_conn2_count s - 1\<rparr>"
    have "fst (drop_index idx (s, b)) =
        (if ?i = uint (ch_max_conn2_count s) then ?c\<lparr>ch_max_conn2_count := ch_max_conn2_count s - 1\<rparr> else ?c)"
      using 3 gt by (simp add: drop_index_def Let_def i_def)
    then show ?thesis
      using assms used_count_close [OF len i(2)] pos
      by (auto simp: counted_def word_le_nat_alt unat_pred)
  qed (use assms in \<open>auto simp: drop_index_def Let_def\<close>)
qed

lemma counted_core:
  assumes "counted n s" and "core s' = core s"
  shows "counted n s'"
  using assms(1) used_count_core [OF assms(2)] core_eqD(2-4) [OF assms(2)] by (simp add: counted_def)

interpretation counted: child_calls cx "counted n" "\<lambda>_. True" for cx :: "('p, 'db) ctx" and n :: nat
proof unfold_locales
  show "counted n s \<Longrightarrow> core s' = core s \<Longrightarrow> counted n s'" for s s' :: "('p, 'db) child"
    by (rule counted_core)
  show "counted n s \<Longrightarrow> length (ch_conn2 s) = MAX_COMM2_LINKS" for s :: "('p, 'db) child"
    by (simp add: counted_def)
  show "counted n s1 \<and> (\<forall>msg. out = Some msg \<longrightarrow> True)"
    if "counted n s" "receive_user cx sy buf s = (s1, rest, out)" for s s1 sy buf rest out
  proof -
    have "s1 = fst (on_mav1 (receive_message (cx_lib cx) (mav_env_of (cx_api cx) sy) buf) s)"
      using that(2) by (simp add: receive_user_def)
    then show ?thesis
      using that(1) by (simp add: counted_def)
  qed
  show "counted n (fst (send_slot cx sy msg i s))" if "counted n s" for s sy msg i
    using that by (simp add: send_slot_def counted_def)
  show "counted n s1 \<and> (\<forall>msg. out = Some msg \<longrightarrow> counted n (s1\<lparr>ch_to_user := ch_to_user s1 @ [(i, msg)]\<rparr>))"
    if "counted n s" "receive_slot cx sy i buf s = (s1, rest, out)" for s s1 sy i buf rest out
  proof -
    have "s1 = fst (on_slot i (receive_message (cx_lib cx) (mav_env_of (cx_api cx) sy) buf) s)"
      using that(2) by (simp add: receive_slot_def)
    then show ?thesis
      using that(1) by (simp add: counted_def)
  qed
  show "counted n (init_mav1 cx sy fd tcp (s\<lparr>ch_have_conn1 := True\<rparr>))" if "counted n s" for s sy fd tcp
    using that by (simp add: init_mav1_def counted_def)
  show "counted n (upd_slot i (\<lambda>c. c\<lparr>c2_ws := Some w, c2_mav := set_ws w (c2_mav c)\<rparr>) s)" if "counted n s" for s i w
    using that by (simp add: counted_def used_count_same_flags)
qed (simp_all add: close_counted drop_counted request_counted, simp_all add: counted_def)

text \<open>A new connection may raise the bound by one.\<close>

lemma unat_succ: "unat (w :: u8) < 255 \<Longrightarrow> unat (w + 1) = Suc (unat w)"
  using unat_add_lem [of w 1] by simp

lemma opened_counted:
  assumes "counted n s" and "n < 255" and "used_count s' = Suc (used_count s)"
    and "length (ch_conn2 s') = length (ch_conn2 s)" and "ch_conn2_count s' = ch_conn2_count s + 1"
    and "ch_max_conn2_count s' = max (ch_max_conn2_count s) (ch_conn2_count s + 1)"
  shows "counted (max n (Suc (unat (ch_conn2_count s)))) s'"
proof -
  have "unat (ch_conn2_count s) \<le> n"
    using assms(1) by (simp add: counted_def word_le_nat_alt)
  then have "unat (ch_conn2_count s + 1) = Suc (unat (ch_conn2_count s))"
    using assms(2) by (intro unat_succ) simp
  then show ?thesis
    using assms by (auto simp: counted_def max_def word_le_nat_alt)
qed

lemma counted_mono: "counted n s \<Longrightarrow> n \<le> m \<Longrightarrow> counted m s"
  by (simp add: counted_def)

lemma init_slot_frame:
  "used_count (init_slot cx sy i fd ws tcp s) = used_count s"
  "length (ch_conn2 (init_slot cx sy i fd ws tcp s)) = length (ch_conn2 s)"
  "ch_conn2_count (init_slot cx sy i fd ws tcp s) = ch_conn2_count s"
  "ch_max_conn2_count (init_slot cx sy i fd ws tcp s) = ch_max_conn2_count s"
  "ch_p (init_slot cx sy i fd ws tcp s) = ch_p s"
  "ch_have_conn1 (init_slot cx sy i fd ws tcp s) = ch_have_conn1 s"
  "ch_mav1 (init_slot cx sy i fd ws tcp s) = ch_mav1 s"
  "ch_to_user (init_slot cx sy i fd ws tcp s) = ch_to_user s"
  "ch_to_eng (init_slot cx sy i fd ws tcp s) = ch_to_eng s"
  by (simp_all add: init_slot_def)

lemma init_slot_slot:
  "j < length (ch_conn2 s) \<Longrightarrow> c2_used (slot j (init_slot cx sy i fd ws tcp s)) = c2_used (slot j s)"
  by (simp add: init_slot_def on_slot_slot)

lemma new_udp_slot_counted:
  assumes "counted n s" and "n < 255" and "i < MAX_COMM2_LINKS" and "\<not> c2_used (slot i s)"
  shows "counted (Suc n) (new_udp_slot cx now time fr frl sy i s)"
proof -
  have len: "i < length (ch_conn2 s)"
    using assms by (simp add: counted_def)
  have "counted (max n (Suc (unat (ch_conn2_count s)))) (new_udp_slot cx now time fr frl sy i s)"
  proof (rule opened_counted [OF assms(1,2)])
    let ?a = "\<lambda>c. c\<lparr>c2_from := fr, c2_fromlen := frl, c2_tcp_active := True, c2_sock := -1, c2_is_udp := True\<rparr>"
    let ?b = "\<lambda>c. c\<lparr>c2_mav := set_sendto fr (c2_mav c), c2_used := True,
                 c2_last_pkt := now, c2_connected_at := time, c2_rx_msgs := 0, c2_tx_msgs := 0\<rparr>"
    define t where "t = (upd_slot i ?a s)\<lparr>ch_conn2_count := ch_conn2_count s + 1,
      ch_max_conn2_count := max (ch_max_conn2_count s) (ch_conn2_count s + 1)\<rparr>"
    define u where "u = init_slot cx sy i (sock2_udp (ch_p t)) False False t"
    have t: "used_count t = used_count s" "length (ch_conn2 t) = length (ch_conn2 s)" "\<not> c2_used (slot i t)"
      using assms(4) len by (simp_all add: t_def used_count_same_flags) (simp add: slot_def upd_slot_def)
    have n: "new_udp_slot cx now time fr frl sy i s = (upd_slot i ?b u)\<lparr>ch_last_conn_save := 0\<rparr>"
      by (simp add: new_udp_slot_def Let_def t_def u_def)
    have "used_count (upd_slot i ?b u) = Suc (used_count u)"
      using used_count_upd_slot [of i u ?b] t len by (simp add: u_def init_slot_frame init_slot_slot)
    then show "used_count (new_udp_slot cx now time fr frl sy i s) = Suc (used_count s)"
      using t by (simp add: n u_def init_slot_frame)
    show "length (ch_conn2 (new_udp_slot cx now time fr frl sy i s)) = length (ch_conn2 s)"
      "ch_conn2_count (new_udp_slot cx now time fr frl sy i s) = ch_conn2_count s + 1"
      "ch_max_conn2_count (new_udp_slot cx now time fr frl sy i s) = max (ch_max_conn2_count s) (ch_conn2_count s + 1)"
      using t by (simp_all add: n u_def init_slot_frame) (simp_all add: t_def)
  qed
  then show ?thesis
    by (rule counted_mono) (use assms(1) in \<open>simp add: counted_def word_le_nat_alt\<close>)
qed

text \<open>A slot for an accepted stream connection, before the counters are raised.\<close>

definition tcp_slot :: "('p, 'db) ctx \<Rightarrow> int \<Rightarrow> int \<times> peer \<times> nat \<Rightarrow> sys \<Rightarrow> nat \<Rightarrow> ('p, 'db) child \<Rightarrow> ('p, 'db) child" where
  "tcp_slot cx time a sy i s = (case a of (fd2, from, fromlen) \<Rightarrow>
     init_slot cx sy i fd2 True True ((upd_slot i (\<lambda>c. c\<lparr>c2_sock := fd2, c2_tcp_active := False, c2_used := True,
       c2_is_udp := False, c2_from := from, c2_fromlen := fromlen,
       c2_connected_at := time, c2_rx_msgs := 0, c2_tx_msgs := 0\<rparr>) s)\<lparr>ch_last_conn_save := 0\<rparr>))"

lemma engineer_tcp_accept_cases:
  obtains "core (fst (engineer_tcp_accept cx time accepted sy s)) = core s"
  | a i where "accepted = Some a" "unat (ch_conn2_count s) < MAX_COMM2_LINKS" "i < MAX_COMM2_LINKS" "\<not> c2_used (slot i s)"
    "fst (engineer_tcp_accept cx time accepted sy s) = (tcp_slot cx time a sy i s)\<lparr>ch_conn2_count := ch_conn2_count s + 1,
       ch_max_conn2_count := max (ch_max_conn2_count s) (ch_conn2_count s + 1)\<rparr>"
proof (cases accepted)
  case None
  then show ?thesis
    using that(1) by (simp add: engineer_tcp_accept_def)
next
  case (Some a)
  obtain fd2 fr frl where a: "a = (fd2, fr, frl)" by (rule prod_cases3)
  show ?thesis
  proof (cases "unat (ch_conn2_count s) < MAX_COMM2_LINKS")
    case True
    show ?thesis
    proof (cases "find_slot (\<lambda>c. \<not> c2_used c) MAX_COMM2_LINKS s")
      case None
      then show ?thesis
        using that(1) Some a True by (simp add: engineer_tcp_accept_def)
    next
      case (Some i)
      then have "i < MAX_COMM2_LINKS" "\<not> c2_used (slot i s)"
        by (auto simp: find_slot_def find_Some_iff)
      then show ?thesis
        using that(2) [of a i] \<open>accepted = Some a\<close> a True Some
        by (simp add: engineer_tcp_accept_def tcp_slot_def Let_def init_slot_frame)
    qed
  qed (use that(1) Some a in \<open>simp add: engineer_tcp_accept_def\<close>)
qed

lemma tcp_slot_used_count:
  assumes "i < length (ch_conn2 s)" and "\<not> c2_used (slot i s)"
  shows "used_count (tcp_slot cx time a sy i s) = Suc (used_count s)"
proof -
  obtain fd2 fr frl where a: "a = (fd2, fr, frl)" by (rule prod_cases3)
  let ?f = "\<lambda>c. c\<lparr>c2_sock := fd2, c2_tcp_active := False, c2_used := True,
       c2_is_udp := False, c2_from := fr, c2_fromlen := frl,
       c2_connected_at := time, c2_rx_msgs := 0, c2_tx_msgs := 0\<rparr>"
  show ?thesis
    using used_count_upd_slot [OF assms(1), of ?f] assms(2) by (simp add: tcp_slot_def a init_slot_frame)
qed

lemma tcp_slot_frame:
  "length (ch_conn2 (tcp_slot cx time a sy i s)) = length (ch_conn2 s)"
  "ch_conn2_count (tcp_slot cx time a sy i s) = ch_conn2_count s"
  "ch_max_conn2_count (tcp_slot cx time a sy i s) = ch_max_conn2_count s"
  "ch_p (tcp_slot cx time a sy i s) = ch_p s"
  "ch_have_conn1 (tcp_slot cx time a sy i s) = ch_have_conn1 s"
  "ch_mav1 (tcp_slot cx time a sy i s) = ch_mav1 s"
  "ch_to_user (tcp_slot cx time a sy i s) = ch_to_user s"
  "ch_to_eng (tcp_slot cx time a sy i s) = ch_to_eng s"
  by (simp_all add: tcp_slot_def init_slot_frame split: prod.split)

lemma engineer_tcp_accept_counted:
  assumes "counted n s" and "MAX_COMM2_LINKS \<le> n" and "n < 255"
  shows "counted n (fst (engineer_tcp_accept cx time accepted sy s))"
proof (cases rule: engineer_tcp_accept_cases [of cx time accepted sy s])
  case 1
  then show ?thesis
    by (rule counted_core [OF assms(1)])
next
  case (2 a i)
  let ?s = "fst (engineer_tcp_accept cx time accepted sy s)"
  have "i < length (ch_conn2 s)"
    using 2 assms(1) by (simp add: counted_def)
  then have "counted (max n (Suc (unat (ch_conn2_count s)))) ?s"
    using 2 by (intro opened_counted [OF assms(1,3)])
      (simp_all add: tcp_slot_used_count tcp_slot_frame)
  then show ?thesis
    by (rule counted_mono) (use 2(2) assms(2) in simp)
qed

section \<open>Rounds\<close>

text \<open>The contract extended to the opening of engineers' slots; \<open>serve\<close> checks the bound of 100 first.\<close>

locale child_inv = child_calls cx I U for cx :: "('p, 'db) ctx" and I U +
  assumes inv_new_udp: "I s \<Longrightarrow> counted MAX_COMM2_LINKS s \<Longrightarrow> i < MAX_COMM2_LINKS \<Longrightarrow> \<not> c2_used (slot i s) \<Longrightarrow>
      I (new_udp_slot cx now time fr frl sy i s)"
    and inv_new_tcp: "I s \<Longrightarrow> I (fst (engineer_tcp_accept cx time accepted sy s))"

lemma and_then_weak:
  assumes "P (fst r)" and "\<And>s. P s \<Longrightarrow> Q s" and "\<And>s. r = (s, Go) \<Longrightarrow> P s \<Longrightarrow> Q (fst (f s))"
  shows "Q (fst (and_then r f))"
  using assms by (cases r; cases "snd r") (auto simp: and_then_def)

lemma and_then_rule:
  assumes "P (fst r)" and "\<And>s. r = (s, Go) \<Longrightarrow> P s \<Longrightarrow> P (fst (f s))"
  shows "P (fst (and_then r f))"
  by (rule and_then_weak [of P _ P]) (use assms in simp_all)

lemma and_then_Go [simp]: "and_then (s, Go) f = f s"
  by (simp add: and_then_def)

lemma new_udp_slot_used:
  assumes "i < length (ch_conn2 s)"
  shows "c2_used (slot i (new_udp_slot cx now time fr frl sy i s))"
  using assms by (simp add: new_udp_slot_def Let_def slot_def upd_slot_def init_slot_frame)

lemma new_udp_slot_frame:
  "ch_p (new_udp_slot cx now time fr frl sy i s) = ch_p s"
  "ch_have_conn1 (new_udp_slot cx now time fr frl sy i s) = ch_have_conn1 s"
  "ch_mav1 (new_udp_slot cx now time fr frl sy i s) = ch_mav1 s"
  "ch_to_user (new_udp_slot cx now time fr frl sy i s) = ch_to_user s"
  "ch_to_eng (new_udp_slot cx now time fr frl sy i s) = ch_to_eng s"
  "length (ch_conn2 (new_udp_slot cx now time fr frl sy i s)) = length (ch_conn2 s)"
  by (simp_all add: new_udp_slot_def Let_def init_slot_frame)

lemma engineer_udp_cases:
  obtains "core (fst (engineer_udp cx now time dgram sy me s)) = core s"
  | buf s2 i where "core s2 = core s" "i < unat (ch_max_conn2_count s)" "c2_used (slot i s)"
    "fst (engineer_udp cx now time dgram sy me s) = fst (engineer_data cx me i buf s2)"
  | buf fr frl s2 i where "core s2 = core s" "i < MAX_COMM2_LINKS" "\<not> c2_used (slot i s2)"
    "fst (engineer_udp cx now time dgram sy me s) =
       fst (engineer_data cx me i buf (new_udp_slot cx now time fr frl sy i s2))"
proof (cases dgram)
  case None
  then show ?thesis
    using that(1) by (simp add: engineer_udp_def)
next
  case (Some d)
  obtain buf fr frl where d: "d = (buf, fr, frl)" by (rule prod_cases3)
  let ?s1 = "s\<lparr>ch_count2 := ch_count2 s + 1\<rparr>"
  have slots: "slot j ?s1 = slot j s" for j
    by (simp add: slot_def)
  show ?thesis
  proof (cases "find_slot (same_udp_peer fr frl) (unat (ch_max_conn2_count s)) ?s1")
    case (Some i)
    have "i < unat (ch_max_conn2_count s)" "c2_used (slot i s)"
      using Some by (auto simp: find_slot_def find_Some_iff same_udp_peer_def slots)
    moreover have "core (upd_slot i (\<lambda>c. c\<lparr>c2_last_pkt := now\<rparr>) ?s1) = core s"
      by (simp add: core_upd_slot)
    moreover have "fst (engineer_udp cx now time dgram sy me s) =
        fst (engineer_data cx me i buf (upd_slot i (\<lambda>c. c\<lparr>c2_last_pkt := now\<rparr>) ?s1))"
      using \<open>dgram = Some d\<close> Some by (simp add: engineer_udp_def d Let_def split: prod.split)
    ultimately show ?thesis
      using that(2) by blast
  next
    case none: None
    show ?thesis
    proof (cases "find_slot (\<lambda>c. \<not> c2_used c) MAX_COMM2_LINKS ?s1")
      case None
      then show ?thesis
        using that(1) \<open>dgram = Some d\<close> none by (simp add: engineer_udp_def d Let_def)
    next
      case (Some i)
      then have "i < MAX_COMM2_LINKS" "\<not> c2_used (slot i ?s1)"
        by (auto simp: find_slot_def find_Some_iff)
      moreover have "fst (engineer_udp cx now time dgram sy me s) =
          fst (engineer_data cx me i buf (new_udp_slot cx now time fr frl sy i ?s1))"
        using \<open>dgram = Some d\<close> none Some by (simp add: engineer_udp_def d Let_def split: prod.split)
      ultimately show ?thesis
        using that(3) [of ?s1] by simp
    qed
  qed
qed

context child_inv
begin

lemma engineer_udp_inv:
  assumes "I s" and "counted MAX_COMM2_LINKS s"
  shows "I (fst (engineer_udp cx now time dgram sy me s))"
proof (cases rule: engineer_udp_cases [of cx now time dgram sy me s])
  case 1
  then show ?thesis
    by (rule core_only [OF assms(1)])
next
  case (2 buf s2 i)
  have "i < MAX_COMM2_LINKS"
    using 2 assms(2) by (simp add: counted_def)
  moreover have "c2_used (slot i s2)"
    using 2 core_eqD(5) [OF 2(1)] calculation table [OF assms(1)] by simp
  ultimately show ?thesis
    using engineer_data_inv core_only [OF assms(1) 2(1)] 2(4) by simp
next
  case (3 buf fr frl s2 i)
  have "I (new_udp_slot cx now time fr frl sy i s2)"
    using inv_new_udp [OF core_only [OF assms(1) 3(1)] counted_core [OF assms(2) 3(1)] 3(2,3)] .
  then show ?thesis
    using engineer_data_inv 3(2,4) new_udp_slot_used [of i s2] table [OF core_only [OF assms(1) 3(1)]] by simp
qed

lemma datagram_phase_inv:
  assumes "I s" and "counted MAX_COMM2_LINKS s"
  shows "I (fst (datagram_phase cx isset ri s))"
proof -
  let ?user = "if sock1_udp (ch_p s) \<noteq> -1 \<and> isset (sock1_udp (ch_p s))
      then user_udp cx (ri_now ri) (ri_time ri) (ri_user_udp ri) (ri_user_connect ri) (ri_init1 ri) (ri_msgs1 ri) s
      else (s, Go)"
  have "I (fst ?user) \<and> counted MAX_COMM2_LINKS (fst ?user)"
    using user_udp_inv [OF assms(1)] counted.user_udp_inv [OF assms(2)] assms by simp
  then show ?thesis
    unfolding datagram_phase_def
    by (rule and_then_weak [of "\<lambda>t. I t \<and> counted MAX_COMM2_LINKS t" _ I]) (simp_all add: engineer_udp_inv)
qed

lemma stream_phase_inv:
  assumes "I s"
  shows "I (fst (stream_phase cx isset ri s))"
proof -
  let ?accept = "\<lambda>s. if \<not> ch_have_conn1 s \<and> sock1_tcp (ch_p s) \<noteq> -1 \<and> isset (sock1_tcp (ch_p s))
      then user_tcp_accept cx (ri_now ri) (ri_time ri) (ri_accept1 ri) (ri_init1 ri) s else (s, Go)"
  let ?data = "\<lambda>s. if sock1_tcp (ch_p s) \<noteq> -1 \<and> isset (sock1_tcp (ch_p s))
      then user_tcp cx (ri_now ri) (ri_tcp1 ri) (ri_msgs1 ri) s else (s, Go)"
  have "snd (user_tcp_accept cx now time a sy s) \<noteq> Go" for now time a sy
    by (simp add: user_tcp_accept_def Let_def split: option.split prod.split)
  then have conn: "ch_have_conn1 t" if "?accept s = (t, Go)" "sock1_tcp (ch_p t) \<noteq> -1" "isset (sock1_tcp (ch_p t))" for t
    using that by (auto split: if_splits) (metis snd_conv)
  have "I (fst (and_then (s, Go) ?accept))"
    using assms user_tcp_accept_inv by (simp add: and_then_def)
  then have "I (fst (and_then (and_then (s, Go) ?accept) ?data))"
  proof (rule and_then_rule [of I])
    fix t
    assume go: "and_then (s, Go) ?accept = (t, Go)" and "I t"
    show "I (fst (?data t))"
    proof (cases "sock1_tcp (ch_p t) \<noteq> -1 \<and> isset (sock1_tcp (ch_p t))")
      case True
      then have "ch_have_conn1 t"
        using conn [of t] go unfolding and_then_Go by blast
      then show ?thesis
        using True user_tcp_inv [OF \<open>I t\<close>] by simp
    qed (use \<open>I t\<close> in auto)
  qed
  then show ?thesis
    unfolding stream_phase_def by (rule and_then_rule [of I]) (simp add: inv_new_tcp)
qed

lemma serve_inv:
  assumes "I s" and "counted n s"
  shows "I (fst (serve cx pid isset ri s))"
proof (cases "unat (ch_max_conn2_count s) > MAX_COMM2_LINKS")
  case False
  then have c: "counted MAX_COMM2_LINKS s"
    using assms(2) by (simp add: counted_def)
  have "I (fst (datagram_phase cx isset ri (sweep_dead_udp (ri_now ri) s)))"
    by (rule datagram_phase_inv [OF sweep_inv [OF assms(1)] counted.sweep_inv [OF c]])
  then have "I (fst (and_then (datagram_phase cx isset ri (sweep_dead_udp (ri_now ri) s)) (stream_phase cx isset ri)))"
    by (rule and_then_rule [of I]) (rule stream_phase_inv)
  then show ?thesis
    using False unfolding serve_def by (simp only: if_False) (rule and_then_rule [of I], simp_all add: Let_def tail_inv)
qed (use assms in \<open>simp add: serve_def\<close>)

lemma round_inv:
  assumes "I s" and "counted n s"
  shows "I (fst (round cx pid ri s))"
proof -
  obtain s1 e where d: "(case ri_drops ri of None \<Rightarrow> (s, False) | Some attempt \<Rightarrow> process_drops cx attempt s) = (s1, e)"
    by (rule prod.exhaust)
  have s1: "I s1" "counted n s1"
    using assms d process_drops_inv [OF assms(1)] counted.process_drops_inv [OF assms(2)]
    by (auto split: option.splits) (metis fst_conv)+
  then have "I (check_table s1)" "counted n (check_table s1)"
    by (simp_all add: check_table_inv counted.check_table_inv)
  then show ?thesis
    using s1 serve_inv by (simp add: round_def d Let_def split: bool.split select_result.split)
qed

end

interpretation counted_run: child_inv cx "counted 101" "\<lambda>_. True" for cx :: "('p, 'db) ctx"
proof unfold_locales
  show "counted 101 (new_udp_slot cx now time fr frl sy i s)"
    if "counted MAX_COMM2_LINKS s" "i < MAX_COMM2_LINKS" "\<not> c2_used (slot i s)" for s i now time fr frl sy
    using new_udp_slot_counted [OF that(1) _ that(2,3)] by (simp add: MAX_COMM2_LINKS_def)
  show "counted 101 (fst (engineer_tcp_accept cx time accepted sy s))" if "counted 101 s" for s time accepted sy
    by (rule engineer_tcp_accept_counted [OF that]) (simp_all add: MAX_COMM2_LINKS_def)
qed

context child_inv
begin

lemma main_rounds_inv:
  "I s \<Longrightarrow> counted 101 s \<Longrightarrow> I (fst (main_rounds cx pid ris s)) \<and> counted 101 (fst (main_rounds cx pid ris s))"
proof (induction ris arbitrary: s)
  case (Cons ri ris)
  obtain s1 fl where r: "round cx pid ri s = (s1, fl)"
    by (rule prod.exhaust)
  have "I s1" "counted 101 s1"
    using round_inv [OF Cons.prems] counted_run.round_inv [OF Cons.prems(2,2)] r by (metis fst_conv)+
  then show ?case
    using Cons.IH r by (simp split: flow.split)
qed simp

end

lemma child_start_counted: "counted n (child_start m1 ms g disk db conndb listing p)"
proof -
  have "filter c2_used (map (\<lambda>i. conn2_init (ms i)) is) = []" for "is"
    by (induction "is") (simp_all add: conn2_init_def)
  then show ?thesis
    by (simp add: counted_def used_count_def child_start_def del: upt_Suc)
qed

end
