(* ===== verification/Child_Guard.thy ===== *)
theory Child_Guard
  imports Child_Run
begin

text \<open>
  The authentication state of the child's links, as an instance of the contract of \<open>Child_Facts\<close>:
  each link in use has its own channel, the port's key id, and a channel whose signing record
  carries the channel's number, so that a rejected signature marks this link and no other.
\<close>

section \<open>What a link with a key delivers\<close>

text \<open>
  A message that the library completed on a channel, signed, not SETUP_SIGNING, and not rejected
  by the signature check (unless no signing record is attached, the port's key being all zero).
\<close>

definition authentic :: "'p mav_lib \<Rightarrow> nat \<Rightarrow> mavlink_msg \<Rightarrow> bool" where
  "authentic lib chan msg \<longleftrightarrow> m_incompat_flags msg AND MAVLINK_IFLAG_SIGNED \<noteq> 0
     \<and> m_msgid msg \<noteq> MAVLINK_MSG_ID_SETUP_SIGNING
     \<and> (\<exists>p sg c r rejected. lib_parse lib p chan sg c = (r, Some (msg, rejected)) \<and> (rejected \<longrightarrow> snd r = None))"

lemma feed_mav: "ms_mav (feed lib bs st) = ms_mav st"
proof -
  have "ms_mav (fold (\<lambda>c st. fst (parse_char lib c st)) bs st) = ms_mav st"
    by (induction bs arbitrary: st) (simp_all add: parse_char_mav)
  then show ?thesis
    by (simp add: feed_def)
qed

lemma receive_bytes_unloaded:
  assumes "mv_key_id (ms_mav st) \<noteq> -1" and "\<not> mv_key_loaded (ms_mav st)"
  shows "snd (snd (receive_bytes lib env buf st)) = None"
  using assms
proof (induction buf arbitrary: st)
  case (Cons c cs)
  obtain st1 out where p: "parse_char lib c st = (st1, out)"
    by (rule prod.exhaust)
  then have "mv_key_id (ms_mav st1) \<noteq> -1" "\<not> mv_key_loaded (ms_mav st1)"
    using parse_char_mav [of lib c st] Cons.prems by simp_all
  then show ?case
    using Cons.IH p by (cases out) (simp_all add: check_message_def Let_def)
qed simp

lemma receive_authentic:
  assumes "lib_keeps_link lib" and "link_good (ms_mav st) (ms_glob st)" and "mv_key_id (ms_mav st) \<noteq> -1"
    and "receive_message lib env buf st = (st', rest, Some msg)"
  shows "authentic lib (mv_chan (ms_mav st)) msg"
proof -
  let ?st = "st\<lparr>ms_glob := (ms_glob st)\<lparr>mg_bad_sig := (mg_bad_sig (ms_glob st))(mv_chan (ms_mav st) := False)\<rparr>\<rparr>"
  have r: "receive_bytes lib env buf ?st = (st', rest, Some msg)"
    using assms(4) by (simp add: receive_message_def)
  have "mv_key_loaded (ms_mav st)"
  proof (rule ccontr)
    assume "\<not> mv_key_loaded (ms_mav st)"
    then have "snd (snd (receive_bytes lib env buf ?st)) = None"
      by (intro receive_bytes_unloaded) (simp_all add: assms(3))
    then show False
      by (simp add: r)
  qed
  then have "link_ok ?st"
    using assms(2) by (auto simp: link_ok_def link_good_def link_ids_def)
  moreover have "parser_keeps_link lib"
    using assms(1) by (simp add: lib_keeps_link_def)
  ultimately have d: "m_incompat_flags msg AND MAVLINK_IFLAG_SIGNED \<noteq> 0 \<and> m_msgid msg \<noteq> MAVLINK_MSG_ID_SETUP_SIGNING
      \<and> (\<exists>pre c. buf = pre @ c # rest \<and> verified_by lib c msg (feed lib pre ?st))"
    using receive_bytes_delivers [of lib ?st env buf st' rest msg] r assms(3) by simp
  then obtain pre c r rejected where "lib_parse lib (mg_lib (ms_glob (feed lib pre ?st))) (mv_chan (ms_mav st))
      (mg_signing (ms_glob (feed lib pre ?st)) (mv_chan (ms_mav st))) c = (r, Some (msg, rejected))" "rejected \<longrightarrow> snd r = None"
    unfolding verified_by_def feed_mav by auto
  then show ?thesis
    using d unfolding authentic_def by blast
qed

section \<open>The invariant\<close>

definition slot_guard :: "('p, 'db) child \<Rightarrow> nat \<Rightarrow> bool" where
  "slot_guard s i \<longleftrightarrow> mv_chan (c2_mav (slot i s)) = CHAN_COMM2 i \<and> mv_key_id (c2_mav (slot i s)) = port2_int s
     \<and> link_good (c2_mav (slot i s)) (ch_glob s)"

definition user_guard :: "('p, 'db) child \<Rightarrow> bool" where
  "user_guard s \<longleftrightarrow> mv_chan (ch_mav1 s) = CHAN_COMM1 \<and> mv_key_id (ch_mav1 s) = conn1_key_id s
     \<and> link_good (ch_mav1 s) (ch_glob s)"

text \<open>What may pass to the engineers: under bidirectional signing, authentic messages only.\<close>

definition from_user_ok :: "'p mav_lib \<Rightarrow> u32 \<Rightarrow> mavlink_msg \<Rightarrow> bool" where
  "from_user_ok lib flags msg \<longleftrightarrow> (flags AND KEY_FLAG_BIDI_SIGN \<noteq> 0 \<longrightarrow> authentic lib CHAN_COMM1 msg)"

text \<open>
  The standing assumptions on the library and the port are part of the invariant; \<open>X\<close> holds the
  slots that are being opened.
\<close>

definition guarded :: "'p mav_lib \<Rightarrow> u32 \<Rightarrow> u32 \<Rightarrow> nat set \<Rightarrow> ('p, 'db) child \<Rightarrow> bool" where
  "guarded lib port2 flags X s \<longleftrightarrow> lib_keeps_link lib \<and> sint port2 \<noteq> -1
     \<and> lp_port2 (ch_p s) = port2 \<and> lp_flags (ch_p s) = flags \<and> length (ch_conn2 s) = MAX_COMM2_LINKS
     \<and> (\<forall>i < MAX_COMM2_LINKS. i \<notin> X \<longrightarrow> c2_used (slot i s) \<longrightarrow> slot_guard s i)
     \<and> (ch_have_conn1 s \<longrightarrow> user_guard s)
     \<and> list_all (\<lambda>(i, msg). authentic lib (CHAN_COMM2 i) msg) (ch_to_user s)
     \<and> list_all (\<lambda>(i, msg). from_user_ok lib flags msg) (ch_to_eng s)"

lemma chans_differ: "CHAN_COMM2 i \<noteq> CHAN_COMM1" "CHAN_COMM2 i = CHAN_COMM2 j \<longleftrightarrow> i = j"
  by (simp_all add: CHAN_COMM1_def CHAN_COMM2_def)

lemma link_good_cong: "link_ids g' (mv_chan m) = link_ids g (mv_chan m) \<Longrightarrow> link_good m g' = link_good m g"
  by (simp add: link_good_def)

lemma link_good_same:
  "mv_chan m' = mv_chan m \<Longrightarrow> mv_key_loaded m' = mv_key_loaded m \<Longrightarrow> link_good m' g = link_good m g"
  by (simp add: link_good_def)

text \<open>A change that opens no slot and touches no link.\<close>

lemma guarded_shrink:
  assumes "guarded lib p2 fl X s" and "ch_p s' = ch_p s \<or> lp_port2 (ch_p s') = lp_port2 (ch_p s) \<and> lp_flags (ch_p s') = lp_flags (ch_p s)"
    and "ch_mav1 s' = ch_mav1 s" and "ch_have_conn1 s' = ch_have_conn1 s" and "link_ids (ch_glob s') = link_ids (ch_glob s)"
    and "ch_to_user s' = ch_to_user s" and "ch_to_eng s' = ch_to_eng s" and "length (ch_conn2 s') = length (ch_conn2 s)"
    and "\<And>j. j < MAX_COMM2_LINKS \<Longrightarrow> j \<notin> X' \<Longrightarrow> c2_used (slot j s') \<Longrightarrow>
      j \<notin> X \<and> c2_used (slot j s) \<and> c2_mav (slot j s') = c2_mav (slot j s)"
  shows "guarded lib p2 fl X' s'"
proof -
  have p: "port2_int s' = port2_int s" "conn1_key_id s' = conn1_key_id s"
    "lp_port2 (ch_p s') = lp_port2 (ch_p s)" "lp_flags (ch_p s') = lp_flags (ch_p s)"
    using assms(2) by (auto simp: port2_int_def conn1_key_id_def flag_set_def)
  have "slot_guard s' j" if "j < MAX_COMM2_LINKS" "j \<notin> X'" "c2_used (slot j s')" for j
  proof -
    note u = assms(9) [OF that]
    have "slot_guard s j"
      using assms(1) that u by (simp add: guarded_def)
    then show ?thesis
      using u p link_good_cong [of "ch_glob s'" "c2_mav (slot j s)" "ch_glob s"] assms(5) by (simp add: slot_guard_def)
  qed
  moreover have "user_guard s'" if "ch_have_conn1 s'"
    using assms(1,3-5) that p link_good_cong [of "ch_glob s'" "ch_mav1 s" "ch_glob s"]
    by (simp add: guarded_def user_guard_def)
  ultimately show ?thesis
    using assms(1,6,7,8) p unfolding guarded_def by simp
qed

lemma guarded_core:
  assumes "guarded lib p2 fl X s" and "core s' = core s"
  shows "guarded lib p2 fl X s'"
proof (rule guarded_shrink [OF assms(1)])
  have len: "length (ch_conn2 s) = MAX_COMM2_LINKS"
    using assms(1) by (simp add: guarded_def)
  fix j
  assume "j < MAX_COMM2_LINKS" "j \<notin> X" "c2_used (slot j s')"
  then show "j \<notin> X \<and> c2_used (slot j s) \<and> c2_mav (slot j s') = c2_mav (slot j s)"
    using core_eqD(5,6) [OF assms(2), of j] len by simp
qed (use assms(2) core_eqD(4) [OF assms(2)] in \<open>simp_all add: core_def\<close>)

text \<open>A call on one link.\<close>

lemma guarded_on_slot:
  assumes "guarded lib p2 fl X s" and "link_call lib (\<lambda>st. fst (f st))" and "i < MAX_COMM2_LINKS"
    and "i \<notin> X" and "c2_used (slot i s)"
  shows "guarded lib p2 fl X (fst (on_slot i f s))"
proof -
  let ?s = "fst (on_slot i f s)" and ?st = "mav_st (c2_mav (slot i s)) s"
  have lib: "lib_keeps_link lib" and len: "length (ch_conn2 s) = MAX_COMM2_LINKS" and g: "slot_guard s i"
    using assms(1,3-5) by (simp_all add: guarded_def)
  have p: "port2_int ?s = port2_int s" "conn1_key_id ?s = conn1_key_id s"
    by (simp_all add: port2_int_def conn1_key_id_def flag_set_def)
  have own: "slot_guard ?s i"
    using g link_call.keeps_chan [OF assms(2) lib, of ?st] link_call.keeps_key_id [OF assms(2) lib, of ?st]
      link_call.keeps_good [OF assms(2) lib, of ?st] len assms(3) p by (simp add: slot_guard_def on_slot_slot)
  have others: "link_ids (ch_glob ?s) c = link_ids (ch_glob s) c" if "c \<noteq> CHAN_COMM2 i" for c
    using link_call.other_links [OF assms(2) lib, of c ?st] that g by (simp add: slot_guard_def)
  have "slot_guard ?s j" if "j < MAX_COMM2_LINKS" "j \<notin> X" "c2_used (slot j ?s)" for j
  proof (cases "j = i")
    case False
    then have "slot_guard s j"
      using assms(1) that len by (simp add: guarded_def on_slot_slot)
    then show ?thesis
      using False others [of "CHAN_COMM2 j"] that(1) len p
        link_good_cong [of "ch_glob ?s" "c2_mav (slot j s)" "ch_glob s"]
      by (simp add: slot_guard_def on_slot_slot chans_differ)
  qed (use own in simp)
  moreover have "user_guard ?s" if "ch_have_conn1 ?s"
    using assms(1) that others [of CHAN_COMM1] p chans_differ(1) [of i]
      link_good_cong [of "ch_glob ?s" "ch_mav1 s" "ch_glob s"] by (simp add: guarded_def user_guard_def)
  ultimately show ?thesis
    using assms(1) by (simp add: guarded_def)
qed

lemma guarded_on_mav1:
  assumes "guarded lib p2 fl X s" and "link_call lib (\<lambda>st. fst (f st))" and "ch_have_conn1 s"
  shows "guarded lib p2 fl X (fst (on_mav1 f s))"
proof -
  let ?s = "fst (on_mav1 f s)" and ?st = "mav_st (ch_mav1 s) s"
  have lib: "lib_keeps_link lib" and g: "user_guard s"
    using assms(1,3) by (simp_all add: guarded_def)
  have p: "port2_int ?s = port2_int s" "conn1_key_id ?s = conn1_key_id s"
    by (simp_all add: port2_int_def conn1_key_id_def flag_set_def)
  have own: "user_guard ?s"
    using g link_call.keeps_chan [OF assms(2) lib, of ?st] link_call.keeps_key_id [OF assms(2) lib, of ?st]
      link_call.keeps_good [OF assms(2) lib, of ?st] p by (simp add: user_guard_def)
  have others: "link_ids (ch_glob ?s) c = link_ids (ch_glob s) c" if "c \<noteq> CHAN_COMM1" for c
    using link_call.other_links [OF assms(2) lib, of c ?st] that g by (simp add: user_guard_def)
  have "slot_guard ?s j" if "j < MAX_COMM2_LINKS" "j \<notin> X" "c2_used (slot j ?s)" for j
  proof -
    have "slot_guard s j"
      using assms(1) that by (simp add: guarded_def)
    then show ?thesis
      using others [of "CHAN_COMM2 j"] p link_good_cong [of "ch_glob ?s" "c2_mav (slot j s)" "ch_glob s"]
      by (simp add: slot_guard_def chans_differ)
  qed
  then show ?thesis
    using assms(1) own by (simp add: guarded_def)
qed

section \<open>Opening links\<close>

lemma mav_init_fields:
  "mv_chan (ms_mav (mav_init env fd chan req ws tcp key st)) = chan"
  "mv_key_id (ms_mav (mav_init env fd chan req ws tcp key st)) = key"
  "c \<noteq> chan \<Longrightarrow> link_ids (ms_glob (mav_init env fd chan req ws tcp key st)) c = link_ids (ms_glob st) c"
  by (simp_all add: mav_init_def Let_def) (simp_all add: link_ids_def)

lemma mav_init_good:
  assumes "chan < MAVLINK_COMM_NUM_BUFFERS"
  shows "link_good (ms_mav (mav_init env fd chan req ws tcp key st)) (ms_glob (mav_init env fd chan req ws tcp key st))"
proof (cases req)
  case True
  let ?m = "(ms_mav st)\<lparr>mv_fd := fd, mv_chan := chan, mv_key_id := key, mv_is_tcp := tcp,
      mv_got_signed_packet := False, mv_key_loaded := False, mv_last_signing_save := 0,
      mv_last_signing_warning := 0, mv_last_sysid := 0, mv_last_compid := 0,
      mv_bad_sig_count := 0, mv_allow_websocket := ws, mv_sendto := None\<rparr>"
  let ?g = "(ms_glob st)\<lparr>mg_bad_sig := (mg_bad_sig (ms_glob st))(chan := False),
      mg_signing := (mg_signing (ms_glob st))(chan := map_option (\<lambda>_. zero_signing) (mg_signing (ms_glob st) chan))\<rparr>"
  let ?st = "load_signing_key env (st\<lparr>ms_mav := ?m, ms_glob := ?g\<rparr>)"
  have "link_good (ms_mav ?st) (ms_glob ?st)"
    by (rule load_signing_key_good) (simp_all add: assms)
  then have "link_good (ms_mav (update_signing_timestamp env ?st)) (ms_glob (update_signing_timestamp env ?st))"
    by (simp add: link_good_def)
  then show ?thesis
    using True by (simp add: mav_init_def Let_def)
qed (use assms in \<open>simp add: mav_init_def link_good_def\<close>)

lemma init_slot_own:
  assumes "length (ch_conn2 s) = MAX_COMM2_LINKS" and "i < MAX_COMM2_LINKS"
  shows "slot_guard (init_slot cx sy i fd ws tcp s) i"
proof -
  have chan: "CHAN_COMM2 i < MAVLINK_COMM_NUM_BUFFERS"
    using assms(2) by (simp add: CHAN_COMM2_def MAVLINK_COMM_NUM_BUFFERS_def)
  have "port2_int (init_slot cx sy i fd ws tcp s) = port2_int s"
    by (simp add: port2_int_def init_slot_frame)
  then show ?thesis
    using assms mav_init_good [OF chan, of "mav_env_of (cx_api cx) sy" fd True ws tcp "port2_int s"]
    by (simp add: slot_guard_def init_slot_def on_slot_slot mav_init_fields)
qed

lemma init_slot_guarded:
  assumes "guarded lib p2 fl {i} s" and "i < MAX_COMM2_LINKS"
  shows "guarded lib p2 fl {} (init_slot cx sy i fd ws tcp s)"
proof -
  let ?s = "init_slot cx sy i fd ws tcp s"
  have len: "length (ch_conn2 s) = MAX_COMM2_LINKS"
    using assms(1) by (simp add: guarded_def)
  have p: "port2_int ?s = port2_int s" "conn1_key_id ?s = conn1_key_id s"
    by (simp_all add: port2_int_def conn1_key_id_def flag_set_def init_slot_frame)
  have own: "slot_guard ?s i"
    by (rule init_slot_own [OF len assms(2)])
  have others: "link_ids (ch_glob ?s) c = link_ids (ch_glob s) c" if "c \<noteq> CHAN_COMM2 i" for c
    using that by (simp add: init_slot_def mav_init_fields)
  have "slot_guard ?s j" if "j < MAX_COMM2_LINKS" "c2_used (slot j ?s)" for j
  proof (cases "j = i")
    case False
    then have "slot_guard s j" and m: "c2_mav (slot j ?s) = c2_mav (slot j s)"
      using assms(1) that len by (simp_all add: guarded_def init_slot_def on_slot_slot)
    then show ?thesis
      using False others [of "CHAN_COMM2 j"] p link_good_cong [of "ch_glob ?s" "c2_mav (slot j s)" "ch_glob s"]
      by (simp add: slot_guard_def chans_differ)
  qed (use own in simp)
  moreover have "user_guard ?s" if "ch_have_conn1 ?s"
    using assms(1) that others [of CHAN_COMM1] p chans_differ(1) [of i]
      link_good_cong [of "ch_glob ?s" "ch_mav1 s" "ch_glob s"]
    by (simp add: guarded_def user_guard_def init_slot_frame)
  ultimately show ?thesis
    using assms(1) by (simp add: guarded_def init_slot_frame)
qed

lemma init_user_guarded:
  assumes "guarded lib p2 fl X s"
  shows "guarded lib p2 fl X (init_mav1 cx sy fd tcp (s\<lparr>ch_have_conn1 := True\<rparr>))"
proof -
  let ?s = "init_mav1 cx sy fd tcp (s\<lparr>ch_have_conn1 := True\<rparr>)"
  have frame: "ch_p ?s = ch_p s" "length (ch_conn2 ?s) = length (ch_conn2 s)" "ch_to_user ?s = ch_to_user s"
    "ch_to_eng ?s = ch_to_eng s" "\<And>j. slot j ?s = slot j s"
    by (simp_all add: init_mav1_def) (simp add: slot_def)
  have p: "port2_int ?s = port2_int s" "conn1_key_id ?s = conn1_key_id s"
    using frame(1) by (simp_all add: port2_int_def conn1_key_id_def flag_set_def)
  have chan: "CHAN_COMM1 < MAVLINK_COMM_NUM_BUFFERS"
    by (simp add: CHAN_COMM1_def MAVLINK_COMM_NUM_BUFFERS_def)
  have "conn1_key_id (s\<lparr>ch_have_conn1 := True\<rparr>) = conn1_key_id s"
    by (simp add: port2_int_def conn1_key_id_def flag_set_def)
  then have "user_guard ?s"
    using mav_init_good [OF chan] p by (simp add: user_guard_def init_mav1_def mav_init_fields)
  moreover have "link_ids (ch_glob ?s) c = link_ids (ch_glob s) c" if "c \<noteq> CHAN_COMM1" for c
    using that by (simp add: init_mav1_def mav_init_fields)
  then have "slot_guard ?s j = slot_guard s j" if "mv_chan (c2_mav (slot j s)) = CHAN_COMM2 j" for j
    using that link_good_cong [of "ch_glob ?s" "c2_mav (slot j s)" "ch_glob s"] p
    by (simp add: slot_guard_def frame chans_differ)
  then have "slot_guard ?s j" if "slot_guard s j" for j
    using that by (metis slot_guard_def)
  ultimately show ?thesis
    using assms by (simp add: guarded_def frame)
qed

text \<open>Writing a slot whose link is in order.\<close>

lemma guarded_upd_slot:
  assumes "guarded lib p2 fl X s" and "slot_guard s i" and "i < MAX_COMM2_LINKS"
    and f: "mv_chan (c2_mav (f (slot i s))) = mv_chan (c2_mav (slot i s))"
      "mv_key_id (c2_mav (f (slot i s))) = mv_key_id (c2_mav (slot i s))"
      "mv_key_loaded (c2_mav (f (slot i s))) = mv_key_loaded (c2_mav (slot i s))"
  shows "guarded lib p2 fl X (upd_slot i f s)"
proof -
  let ?s = "upd_slot i f s"
  have len: "length (ch_conn2 s) = MAX_COMM2_LINKS"
    using assms(1) by (simp add: guarded_def)
  have p: "port2_int ?s = port2_int s" "conn1_key_id ?s = conn1_key_id s"
    by (simp_all add: port2_int_def conn1_key_id_def flag_set_def)
  have "slot_guard ?s i"
    using assms(2,3) f p len link_good_same [OF f(1,3), of "ch_glob s"] by (simp add: slot_guard_def slot_upd_slot)
  moreover have "slot_guard ?s j = slot_guard s j" if "j \<noteq> i" "j < MAX_COMM2_LINKS" for j
    using that p len by (simp add: slot_guard_def slot_upd_slot)
  moreover have "c2_used (slot j ?s) = c2_used (slot j s)" if "j \<noteq> i" "j < MAX_COMM2_LINKS" for j
    using that len by (simp add: slot_upd_slot)
  ultimately have "\<forall>j < MAX_COMM2_LINKS. j \<notin> X \<longrightarrow> c2_used (slot j ?s) \<longrightarrow> slot_guard ?s j"
    using assms(1) unfolding guarded_def by metis
  moreover have "user_guard ?s = user_guard s"
    using p by (simp add: user_guard_def)
  ultimately show ?thesis
    using assms(1) by (simp add: guarded_def)
qed

lemma new_udp_slot_guarded:
  assumes "guarded lib p2 fl {} s" and "i < MAX_COMM2_LINKS"
  shows "guarded lib p2 fl {} (new_udp_slot cx now time fr frl sy i s)"
proof -
  let ?a = "\<lambda>c. c\<lparr>c2_from := fr, c2_fromlen := frl, c2_tcp_active := True, c2_sock := -1, c2_is_udp := True\<rparr>"
  let ?b = "\<lambda>c. c\<lparr>c2_mav := set_sendto fr (c2_mav c), c2_used := True,
               c2_last_pkt := now, c2_connected_at := time, c2_rx_msgs := 0, c2_tx_msgs := 0\<rparr>"
  define t where "t = (upd_slot i ?a s)\<lparr>ch_conn2_count := ch_conn2_count s + 1,
    ch_max_conn2_count := max (ch_max_conn2_count s) (ch_conn2_count s + 1)\<rparr>"
  define u where "u = init_slot cx sy i (sock2_udp (ch_p t)) False False t"
  have len: "length (ch_conn2 s) = MAX_COMM2_LINKS"
    using assms(1) by (simp add: guarded_def)
  have slots: "slot j t = (if i = j then ?a (slot j s) else slot j s)" if "j < MAX_COMM2_LINKS" for j
    using slot_upd_slot [of j s i ?a] len that by (simp add: t_def slot_def)
  have t: "guarded lib p2 fl {i} t"
    by (rule guarded_shrink [OF assms(1)]) (use slots in \<open>auto simp: t_def split: if_splits\<close>)
  then have "length (ch_conn2 t) = MAX_COMM2_LINKS"
    by (simp add: guarded_def)
  then have "guarded lib p2 fl {} (upd_slot i ?b u)"
    unfolding u_def
    by (intro guarded_upd_slot init_slot_guarded [OF t assms(2)] init_slot_own assms(2)) (simp_all add: set_sendto_def)
  moreover have "core (new_udp_slot cx now time fr frl sy i s) = core (upd_slot i ?b u)"
    by (simp add: new_udp_slot_def Let_def t_def u_def)
  ultimately show ?thesis
    by (rule guarded_core)
qed

lemma engineer_tcp_accept_guarded:
  assumes "guarded lib p2 fl {} s"
  shows "guarded lib p2 fl {} (fst (engineer_tcp_accept cx time accepted sy s))"
proof (cases rule: engineer_tcp_accept_cases [of cx time accepted sy s])
  case 1
  then show ?thesis
    by (rule guarded_core [OF assms])
next
  case (2 a i)
  obtain fd2 fr frl where a: "a = (fd2, fr, frl)" by (rule prod_cases3)
  let ?f = "\<lambda>c. c\<lparr>c2_sock := fd2, c2_tcp_active := False, c2_used := True,
       c2_is_udp := False, c2_from := fr, c2_fromlen := frl,
       c2_connected_at := time, c2_rx_msgs := 0, c2_tx_msgs := 0\<rparr>"
  let ?t = "(upd_slot i ?f s)\<lparr>ch_last_conn_save := 0\<rparr>"
  have len: "length (ch_conn2 s) = MAX_COMM2_LINKS"
    using assms by (simp add: guarded_def)
  have slots: "slot j ?t = (if i = j then ?f (slot j s) else slot j s)" if "j < MAX_COMM2_LINKS" for j
    using slot_upd_slot [of j s i ?f] len that by (simp add: slot_def)
  have "guarded lib p2 fl {i} ?t"
    by (rule guarded_shrink [OF assms]) (use slots in \<open>auto split: if_splits\<close>)
  then have g: "guarded lib p2 fl {} (tcp_slot cx time a sy i s)"
    using init_slot_guarded [OF _ 2(3)] by (simp add: tcp_slot_def a)
  show ?thesis
    unfolding 2(5) by (rule guarded_shrink [OF g]) (auto simp: slot_def)
qed

section \<open>The invariant holds in every run\<close>

lemma receive_slot_guarded:
  assumes "guarded (cx_lib cx) p2 fl {} s" and "i < MAX_COMM2_LINKS" and "c2_used (slot i s)"
    and "receive_slot cx sy i buf s = (s1, rest, out)"
  shows "guarded (cx_lib cx) p2 fl {} s1"
    and "out = Some msg \<Longrightarrow> authentic (cx_lib cx) (CHAN_COMM2 i) msg"
proof -
  let ?f = "receive_message (cx_lib cx) (mav_env_of (cx_api cx) sy) buf"
  have "s1 = fst (on_slot i ?f s)"
    using assms(4) by (simp add: receive_slot_def)
  then show "guarded (cx_lib cx) p2 fl {} s1"
    using guarded_on_slot [OF assms(1) receive_message_call assms(2) _ assms(3)] by simp
  have g: "slot_guard s i" "lib_keeps_link (cx_lib cx)" "port2_int s \<noteq> -1"
    using assms(1-3) by (simp_all add: guarded_def port2_int_def)
  assume "out = Some msg"
  then obtain st' where "?f (mav_st (c2_mav (slot i s)) s) = (st', rest, Some msg)"
    using assms(4) by (auto simp: receive_slot_def on_slot_def split: prod.splits)
  then show "authentic (cx_lib cx) (CHAN_COMM2 i) msg"
    using receive_authentic [of "cx_lib cx" "mav_st (c2_mav (slot i s)) s"] g by (simp add: slot_guard_def)
qed

lemma receive_user_guarded:
  assumes "guarded (cx_lib cx) p2 fl {} s" and "ch_have_conn1 s" and "receive_user cx sy buf s = (s1, rest, out)"
  shows "guarded (cx_lib cx) p2 fl {} s1" and "out = Some msg \<Longrightarrow> from_user_ok (cx_lib cx) fl msg"
proof -
  let ?f = "receive_message (cx_lib cx) (mav_env_of (cx_api cx) sy) buf"
  have "s1 = fst (on_mav1 ?f s)"
    using assms(3) by (simp add: receive_user_def)
  then show "guarded (cx_lib cx) p2 fl {} s1"
    using guarded_on_mav1 [OF assms(1) receive_message_call assms(2)] by simp
  have g: "user_guard s" "lib_keeps_link (cx_lib cx)" "lp_flags (ch_p s) = fl" "port2_int s \<noteq> -1"
    using assms(1,2) by (simp_all add: guarded_def port2_int_def)
  assume "out = Some msg"
  then obtain st' where r: "?f (mav_st (ch_mav1 s) s) = (st', rest, Some msg)"
    using assms(3) by (auto simp: receive_user_def on_mav1_def split: prod.splits)
  have "authentic (cx_lib cx) CHAN_COMM1 msg" if "fl AND KEY_FLAG_BIDI_SIGN \<noteq> 0"
  proof -
    have "mv_key_id (ch_mav1 s) \<noteq> -1"
      using g that by (simp add: user_guard_def conn1_key_id_def flag_set_def)
    then show ?thesis
      using receive_authentic [of "cx_lib cx" "mav_st (ch_mav1 s) s"] g r by (simp add: user_guard_def)
  qed
  then show "from_user_ok (cx_lib cx) fl msg"
    by (simp add: from_user_ok_def)
qed

lemma guard_frame [simp]:
  "slot_guard (s\<lparr>ch_conn2_count := k\<rparr>) = slot_guard s" "slot_guard (s\<lparr>ch_max_conn2_count := k\<rparr>) = slot_guard s"
  "slot_guard (s\<lparr>ch_to_user := l\<rparr>) = slot_guard s" "slot_guard (s\<lparr>ch_to_eng := l\<rparr>) = slot_guard s"
  "slot_guard (s\<lparr>ch_mav1 := m\<rparr>) = slot_guard s"
  "user_guard (s\<lparr>ch_conn2_count := k\<rparr>) = user_guard s" "user_guard (s\<lparr>ch_max_conn2_count := k\<rparr>) = user_guard s"
  "user_guard (s\<lparr>ch_to_user := l\<rparr>) = user_guard s" "user_guard (s\<lparr>ch_to_eng := l\<rparr>) = user_guard s"
  "slot i (s\<lparr>ch_conn2_count := k\<rparr>) = slot i s" "slot i (s\<lparr>ch_max_conn2_count := k\<rparr>) = slot i s"
  "slot i (s\<lparr>ch_to_user := l\<rparr>) = slot i s" "slot i (s\<lparr>ch_to_eng := l\<rparr>) = slot i s" "slot i (s\<lparr>ch_mav1 := m\<rparr>) = slot i s"
  by (simp_all add: fun_eq_iff slot_guard_def user_guard_def port2_int_def conn1_key_id_def flag_set_def slot_def)

lemma user_guard_set_ws: "user_guard (s\<lparr>ch_mav1 := set_ws w (ch_mav1 s)\<rparr>) = user_guard s"
  by (simp add: user_guard_def port2_int_def conn1_key_id_def flag_set_def set_ws_def link_good_def)

lemma guarded_counters [simp]:
  "guarded lib p2 fl X (s\<lparr>ch_conn2_count := k\<rparr>) = guarded lib p2 fl X s"
  "guarded lib p2 fl X (s\<lparr>ch_max_conn2_count := k\<rparr>) = guarded lib p2 fl X s"
  by (simp_all add: guarded_def)

lemma guarded_flags_keep:
  assumes "guarded lib p2 fl {} s"
  shows "guarded lib p2 fl {} (close_slot i s)" and "guarded lib p2 fl {} (drop_slot i s)"
    and "guarded lib p2 fl {} (fst (drop_index idx (s, b)))"
proof -
  have len: "length (ch_conn2 s) = MAX_COMM2_LINKS"
    using assms by (simp add: guarded_def)
  show close: "guarded lib p2 fl {} (close_slot i s)" for i
    by (rule guarded_shrink [OF assms]) (auto simp: close_slot_slot len conn2_closed_def split: if_splits)
  show "guarded lib p2 fl {} (drop_slot i s)"
    by (rule guarded_shrink [OF assms]) (auto simp: drop_slot_slot len conn2_closed_def split: if_splits)
  show "guarded lib p2 fl {} (fst (drop_index idx (s, b)))"
    using assms close by (simp add: drop_index_def Let_def)
qed

lemma guarded_set_ws:
  assumes "guarded lib p2 fl X s"
  shows "guarded lib p2 fl X (s\<lparr>ch_mav1 := set_ws w (ch_mav1 s)\<rparr>)"
  using assms by (simp add: guarded_def user_guard_set_ws)

interpretation guarded_run: child_inv cx "guarded (cx_lib cx) p2 fl {}" "from_user_ok (cx_lib cx) fl"
  for cx :: "('p, 'db) ctx" and p2 fl
proof unfold_locales
  let ?I = "guarded (cx_lib cx) p2 fl {}"
  let ?send = "\<lambda>sy msg. send_message (cx_lib cx) (mav_env_of (cx_api cx) sy) msg"
  show "?I s \<Longrightarrow> core s' = core s \<Longrightarrow> ?I s'" for s s' :: "('p, 'db) child"
    by (rule guarded_core)
  show "?I s \<Longrightarrow> length (ch_conn2 s) = MAX_COMM2_LINKS" for s :: "('p, 'db) child"
    by (simp add: guarded_def)
  show "?I s1 \<and> (\<forall>msg. out = Some msg \<longrightarrow> from_user_ok (cx_lib cx) fl msg)"
    if "?I s" "ch_have_conn1 s" "receive_user cx sy buf s = (s1, rest, out)" for s s1 sy buf rest out
    using receive_user_guarded [OF that] by blast
  show "?I s1 \<and> (\<forall>msg. out = Some msg \<longrightarrow> ?I (s1\<lparr>ch_to_user := ch_to_user s1 @ [(i, msg)]\<rparr>))"
    if "?I s" "i < MAX_COMM2_LINKS" "c2_used (slot i s)" "receive_slot cx sy i buf s = (s1, rest, out)"
    for s s1 i sy buf rest out
    using receive_slot_guarded [OF that] by (simp add: guarded_def)
  show "?I (fst (on_mav1 (?send sy msg) s))" if "?I s" "ch_have_conn1 s" for s sy msg
    by (rule guarded_on_mav1 [OF that(1) send_message_call that(2)])
  show "?I (fst (send_slot cx sy msg i s))"
    if "?I s" "from_user_ok (cx_lib cx) fl msg" "i < MAX_COMM2_LINKS" "c2_used (slot i s)" for s sy msg i
  proof -
    have "?I (s\<lparr>ch_to_eng := ch_to_eng s @ [(i, msg)]\<rparr>)"
      using that(1,2) by (simp add: guarded_def)
    then show ?thesis
      using that(3,4) unfolding send_slot_def by (intro guarded_on_slot send_message_call) (simp_all add: slot_def)
  qed
  show "?I (upd_slot i (\<lambda>c. c\<lparr>c2_ws := Some w, c2_mav := set_ws w (c2_mav c)\<rparr>) s)"
    if "?I s" "i < MAX_COMM2_LINKS" "c2_used (slot i s)" for s i w
  proof (rule guarded_upd_slot [OF that(1) _ that(2)])
    show "slot_guard s i"
      using that by (simp add: guarded_def)
  qed (simp_all add: set_ws_def)
qed (simp_all add: guarded_flags_keep init_user_guarded guarded_set_ws new_udp_slot_guarded engineer_tcp_accept_guarded)

lemma child_start_guarded:
  assumes "lib_keeps_link lib" and "sint (lp_port2 p) \<noteq> -1"
  shows "guarded lib (lp_port2 p) (lp_flags p) {} (child_start m1 ms g disk db conndb listing p)"
  using assms by (simp add: guarded_def child_start_def slot_def conn2_init_def)

lemma run_guarded:
  assumes "lib_keeps_link (cx_lib cx)" and "sint (lp_port2 p) \<noteq> -1"
  shows "guarded (cx_lib cx) (lp_port2 p) (lp_flags p) {}
     (fst (main_rounds cx pid ris (child_start m1 ms g disk db conndb listing p)))"
  using guarded_run.main_rounds_inv [OF child_start_guarded [OF assms] child_start_counted] by simp

end
