(* ===== verification/Child_Props.thy ===== *)
theory Child_Props
  imports Child_Guard
begin

text \<open>
  Properties of the child process: what passes between the two sides, the connection counters,
  and what becomes of slots that are closed.
\<close>

abbreviation run_end ::
  "('p, 'db) ctx \<Rightarrow> u32 \<Rightarrow> 'db round_in list \<Rightarrow> mavlink \<Rightarrow> (nat \<Rightarrow> mavlink) \<Rightarrow> 'p mav_global \<Rightarrow> disk \<Rightarrow>
   'db \<Rightarrow> 'db \<Rightarrow> string list option \<Rightarrow> listen_port \<Rightarrow> ('p, 'db) child" where
  "run_end cx pid ris m1 ms g disk db conndb listing p \<equiv>
     fst (main_rounds cx pid ris (child_start m1 ms g disk db conndb listing p))"

section \<open>A concrete run\<close>

definition sample_port :: listen_port where
  "sample_port = \<lparr>lp_port1 = 10001, lp_port2 = 10002, sock1_udp = 3, sock2_udp = 4, sock1_tcp = 5, sock2_listen = 6,
     lp_pid = 0, lp_flags = KEY_FLAG_BIDI_SIGN, lp_fc_sysid = 0, lp_seen = True, lp_removed = False, lp_ws = None\<rparr>"

definition sample_cx :: "(unit, mem_db) ctx" where
  "sample_cx = \<lparr>cx_lib = sample_lib, cx_api = mem_api, cx_accept = (\<lambda>k. k), cx_decode_block = (\<lambda>m. (0, [])),
     cx_decode_time = (\<lambda>m. 0), cx_pack_status = (\<lambda>p a b c d e f. (p, [0]))\<rparr>"

definition sample_sys :: "usec \<Rightarrow> sys" where
  "sample_sys now = \<lparr>sy_send = (\<lambda>r buf. int (length buf)), sy_tx = Tx_error, sy_now = now, sy_dead = False,
     sy_writable = 5000, sy_db_open = True, sy_malloc = (\<lambda>_. True)\<rparr>"

definition sample_open :: open_env where
  "sample_open = \<lparr>oe_tm = \<lparr>tm_year = 2025, tm_mon = 1, tm_mday = 1\<rparr>, oe_mkdir = (\<lambda>_. Mkdir_ok), oe_fopen = (\<lambda>_. True)\<rparr>"

definition sample_msg :: "usec \<Rightarrow> msg_env" where
  "sample_msg now = \<lparr>me_receive = sample_sys now, me_tlog_open = sample_open, me_tlog_sec = 0, me_tlog_us = 0,
     me_tlog_short1 = None, me_tlog_short2 = None,
     me_block = \<lparr>be_now = now, be_open = sample_open, be_listing_open = None, be_listing_refresh = None,
       be_own = None, be_seek_ok = True, be_short = None\<rparr>,
     me_listing = None, me_send = (\<lambda>_. sample_sys now)\<rparr>"

definition sample_tcp :: tcp_in where
  "sample_tcp = \<lparr>ti_peek = [], ti_ssl_setup = True, ti_ws_new = \<lparr>we_accept = Accept_ok, we_rx = Rx_again, we_tx = []\<rparr>,
     ti_ws_recv = \<lparr>we_accept = Accept_ok, we_rx = Rx_again, we_tx = []\<rparr>, ti_recv = None\<rparr>"

text \<open>A round in which one of the two datagram sockets is readable.\<close>

definition sample_round ::
  "usec \<Rightarrow> int \<Rightarrow> (bytes \<times> peer) option \<Rightarrow> (bytes \<times> peer \<times> nat) option \<Rightarrow> mem_db round_in" where
  "sample_round now fd user engineer = \<lparr>ri_drops = None, ri_now0 = now, ri_select = Select_ready (\<lambda>x. x = fd),
     ri_now = now, ri_time = 0, ri_user_udp = user, ri_user_connect = True, ri_init1 = sample_sys now,
     ri_msgs1 = (\<lambda>_. sample_msg now), ri_engineer_udp = engineer, ri_init2 = sample_sys now,
     ri_msgs2 = (\<lambda>_. sample_msg now), ri_accept1 = None, ri_tcp1 = sample_tcp, ri_accept2 = None,
     ri_tcp2 = (\<lambda>_. sample_tcp), ri_msgs_tcp2 = (\<lambda>_ _. sample_msg now), ri_tick = sample_sys now,
     ri_tick_now = now, ri_tick_order = [], ri_snap_now = now, ri_snap = None\<rparr>"

definition sample_t :: usec where "sample_t = seconds 1800000000"

definition sample_rounds :: "mem_db round_in list" where
  "sample_rounds = [sample_round sample_t 3 (Some ([80], (1, 1))) None,
     sample_round sample_t 4 None (Some ([76, 255, 77], (2, 2), 16)),
     sample_round sample_t 3 (Some ([81], (1, 1))) None]"

definition sample_start :: "(unit, mem_db) child" where
  "sample_start = child_start sample_mav (\<lambda>_. sample_mav) \<lparr>mg_lib = (), mg_signing = Map.empty, mg_bad_sig = (\<lambda>_. False)\<rparr>
     (\<lambda>_. None) sample_keys mem_empty None sample_port"

abbreviation sample_end :: "(unit, mem_db) child" where
  "sample_end \<equiv> fst (main_rounds sample_cx 1 sample_rounds sample_start)"

lemma sample_lib_keeps: "lib_keeps_link (cx_lib sample_cx)"
  by (simp add: lib_keeps_link_def parser_keeps_link_def sample_cx_def sample_lib_def)

lemma sample_port_id: "sint (lp_port2 sample_port) \<noteq> -1"
  by (simp add: sample_port_def)

section \<open>What passes between the two sides\<close>



text \<open>
  C7: The links of a child stay apart: in every run each slot in use holds a link on its own channel
  with the port's key id, a signing record attached to that channel is the link's own, and the
  user's link has channel 0 and a key only under bidirectional signing.\<close>

theorem child_links_separate:
  assumes "lib_keeps_link (cx_lib cx)" and "sint (lp_port2 p) \<noteq> -1"
    and "s = run_end cx pid ris m1 ms g disk db conndb listing p"
  shows "length (ch_conn2 s) = MAX_COMM2_LINKS
    \<and> (i < MAX_COMM2_LINKS \<and> c2_used (slot i s) \<longrightarrow> mv_chan (c2_mav (slot i s)) = CHAN_COMM2 i
        \<and> mv_key_id (c2_mav (slot i s)) = sint (lp_port2 p) \<and> link_good (c2_mav (slot i s)) (ch_glob s))
    \<and> (ch_have_conn1 s \<longrightarrow> mv_chan (ch_mav1 s) = CHAN_COMM1 \<and> link_good (ch_mav1 s) (ch_glob s)
        \<and> mv_key_id (ch_mav1 s) = (if lp_flags p AND KEY_FLAG_BIDI_SIGN \<noteq> 0 then sint (lp_port2 p) else -1))"
  using run_guarded [OF assms(1,2), of pid ris m1 ms g disk db conndb listing] assms(3)
  by (auto simp: guarded_def slot_guard_def user_guard_def port2_int_def conn1_key_id_def flag_set_def)

theorem child_links_separate_witness: "length (ch_conn2 sample_end) = MAX_COMM2_LINKS"
  using child_links_separate [OF sample_lib_keeps sample_port_id refl] unfolding sample_start_def by blast

section \<open>The connection counters\<close>

text \<open>
  C5: The connection counters of a child are bounded: in every run the slots in use are at most
  \<open>conn2_count\<close>, that is at most \<open>max_conn2_count\<close>, and that is at most 101, so neither 8-bit
  counter wraps.\<close>

theorem child_counters_bounded:
  "used_count (run_end cx pid ris m1 ms g disk db conndb listing p) \<le> unat (ch_conn2_count (run_end cx pid ris m1 ms g disk db conndb listing p))
   \<and> ch_conn2_count (run_end cx pid ris m1 ms g disk db conndb listing p) \<le> ch_max_conn2_count (run_end cx pid ris m1 ms g disk db conndb listing p)
   \<and> unat (ch_max_conn2_count (run_end cx pid ris m1 ms g disk db conndb listing p)) \<le> 101"
proof -
  have "counted 101 (run_end cx pid ris m1 ms g disk db conndb listing p)"
    by (rule counted_run.main_rounds_inv [OF child_start_counted child_start_counted, THEN conjunct1])
  then show ?thesis
    by (simp add: counted_def)
qed

end
