(* ===== verification/Child_Faults.thy ===== *)
theory Child_Faults
  imports Child_Props
begin

text \<open>
  What becomes of slots that are closed: a stranded connection, a link that keeps a pointer to a
  deleted \<open>WebSocket\<close>, and UDP sessions that use up the connection counter.
\<close>

section \<open>A stranded connection\<close>

definition two_engineers :: "(unit, mem_db) child" where
  "two_engineers = sample_start\<lparr>ch_conn2 := map (\<lambda>i. (conn2_init sample_mav)\<lparr>c2_used := i < 2\<rparr>) [0..<MAX_COMM2_LINKS],
     ch_conn2_count := 2, ch_max_conn2_count := 2\<rparr>"

text \<open>
  C9: Closing an engineer's connection can strand another: when all slots below \<open>max_conn2_count\<close> are in
  use, closing slot \<open>i\<close> after a failed send leaves a slot in use that no loop polls any more,
  exactly if \<open>i\<close> is not the last one.\<close>

theorem child_drop_strands_last:
  assumes "length (ch_conn2 s) = MAX_COMM2_LINKS" and "ch_conn2_count s = ch_max_conn2_count s"
    and "unat (ch_max_conn2_count s) \<le> MAX_COMM2_LINKS"
    and "\<forall>j < MAX_COMM2_LINKS. c2_used (slot j s) \<longleftrightarrow> j < unat (ch_max_conn2_count s)"
    and "i < unat (ch_max_conn2_count s)"
  shows "(\<exists>j. j < MAX_COMM2_LINKS \<and> c2_used (slot j (drop_slot i s)) \<and> j \<notin> set (polled (drop_slot i s)))
    \<longleftrightarrow> Suc i \<noteq> unat (ch_max_conn2_count s)"
proof -
  have bound: "unat (ch_max_conn2_count (drop_slot i s)) = unat (ch_max_conn2_count s) - 1"
    using assms(2,5) by (simp add: unat_pred)
  have polled: "set (polled (drop_slot i s)) = {0..<unat (ch_max_conn2_count s) - 1}"
    using bound assms(1,3) by (simp add: polled_def)
  have used: "c2_used (slot j (drop_slot i s)) \<longleftrightarrow> j \<noteq> i \<and> j < unat (ch_max_conn2_count s)" if "j < MAX_COMM2_LINKS" for j
    using that assms(1,4) by (auto simp: drop_slot_slot conn2_closed_def)
  show ?thesis
  proof
    assume "\<exists>j. j < MAX_COMM2_LINKS \<and> c2_used (slot j (drop_slot i s)) \<and> j \<notin> set (polled (drop_slot i s))"
    then show "Suc i \<noteq> unat (ch_max_conn2_count s)"
      using used polled by auto
  next
    assume "Suc i \<noteq> unat (ch_max_conn2_count s)"
    then show "\<exists>j. j < MAX_COMM2_LINKS \<and> c2_used (slot j (drop_slot i s)) \<and> j \<notin> set (polled (drop_slot i s))"
      using used [of "unat (ch_max_conn2_count s) - 1"] polled assms(3,5)
      by (intro exI [of _ "unat (ch_max_conn2_count s) - 1"]) auto
  qed
qed

theorem child_drop_strands_last_witness:
  "\<exists>j. j < MAX_COMM2_LINKS \<and> c2_used (slot j (drop_slot 0 two_engineers)) \<and> j \<notin> set (polled (drop_slot 0 two_engineers))"
  using child_drop_strands_last [of two_engineers 0]
  by (simp add: two_engineers_def slot_def MAX_COMM2_LINKS_def)

section \<open>A pointer to a deleted object\<close>

lemma load_signing_key_keeps [simp]:
  "ms_link (load_signing_key env st) = ms_link st" "mv_ws (ms_mav (load_signing_key env st)) = mv_ws (ms_mav st)"
  by (simp_all add: load_signing_key_def Let_def case_prod_beta load_key_fields)

lemma mav_init_keeps_ws:
  "mv_ws (ms_mav (mav_init env fd chan req ws tcp key st)) = mv_ws (ms_mav st)"
  "ms_link (mav_init env fd chan req ws tcp key st) = ms_link st"
  by (simp_all add: mav_init_def Let_def)

lemma net_send_deleted:
  "nt_ws n w = None \<Longrightarrow> nt_bad (fst (net_send ans tx (Via_websocket w) buf n))"
  by (simp add: net_send_def)

text \<open>A HEARTBEAT is always sent on when the socket takes it.\<close>

lemma heartbeat_sent:
  assumes "mv_ws (ms_mav st) = Some w" and "nt_ws (ms_link st) w = None" and "mv_chan (ms_mav st) < MAVLINK_COMM_NUM_BUFFERS"
    and "\<not> sy_dead sy" and "400 \<le> sy_writable sy" and "m_msgid msg = MAVLINK_MSG_ID_HEARTBEAT"
    and "lib_lengths lib (m_msgid msg) \<noteq> (0, 0)" and "\<And>p c sg m. snd (lib_finalize lib p c sg m) \<noteq> []"
  shows "nt_bad (ms_link (fst (send_message lib (mav_env_of api sy) msg st)))"
proof -
  have "nt_bad (ms_link (fst (transmit lib (mav_env_of api sy) m st')))"
    if "ms_link st' = ms_link st" "mv_ws (ms_mav st') = Some w" "mv_chan (ms_mav st') = mv_chan (ms_mav st)"
      "m_msgid m = m_msgid msg" for m st'
    using that assms(2,3,7,8)
    by (simp add: transmit_def Let_def send_data_def send_route_def mav_env_of_def case_prod_beta net_send_deleted)
  then show ?thesis
    using assms(1,4-6) by (simp add: send_message_def Let_def mav_env_of_def)
qed

definition web_engineer :: "(unit, mem_db) child" where
  "web_engineer = sample_start\<lparr>
     ch_conn2 := (ch_conn2 sample_start)[0 := (conn2_init (set_ws 0 sample_mav))\<lparr>c2_used := True, c2_ws := Some 0, c2_sock := 9\<rparr>],
     ch_conn2_count := 1, ch_max_conn2_count := 1,
     ch_net := net_new (ws_new (\<lambda>k. k) (ti_ws_new sample_tcp) [] True) (ch_net sample_start)\<rparr>"

definition heartbeat :: mavlink_msg where
  "heartbeat = \<lparr>m_incompat_flags = 0, m_seq = 0, m_sysid = 1, m_compid = 1, m_msgid = MAVLINK_MSG_ID_HEARTBEAT,
     m_payload = [], m_signature = []\<rparr>"

text \<open>
  C8: A slot keeps its \<open>WebSocket\<close> pointer when it is closed: after an engineer's WebSocket connection has
  been dropped, the next engineer accepted into that slot has no \<open>WebSocket\<close> of its own, and the
  first HEARTBEAT forwarded to it goes through the deleted object.\<close>

theorem child_reused_slot_uses_deleted_websocket:
  fixes s :: "('p, 'db) child"
  assumes "length (ch_conn2 s) = MAX_COMM2_LINKS" and "i < MAX_COMM2_LINKS" and "\<forall>j < i. c2_used (slot j s)"
    and "c2_used (slot i s)" and "c2_ws (slot i s) = Some w" and "mv_ws (c2_mav (slot i s)) = Some w"
    and "unat (ch_conn2_count (drop_slot i s)) < MAX_COMM2_LINKS"
    and "s1 = fst (engineer_tcp_accept cx time (Some a) sy (drop_slot i s))"
    and "\<not> sy_dead sy1" and "400 \<le> sy_writable sy1" and "m_msgid msg = MAVLINK_MSG_ID_HEARTBEAT"
    and "lib_lengths (cx_lib cx) (m_msgid msg) \<noteq> (0, 0)" and "\<And>p c sg m. snd (lib_finalize (cx_lib cx) p c sg m) \<noteq> []"
  shows "c2_used (slot i s1) \<and> c2_ws (slot i s1) = None \<and> nt_bad (ch_net (fst (send_slot cx sy1 msg i s1)))"
proof -
  let ?d = "drop_slot i s" and ?t = "tcp_slot cx time a sy i (drop_slot i s)"
  obtain fd2 fr frl where a: "a = (fd2, fr, frl)" by (rule prod_cases3)
  have d: "slot j ?d = (if i = j then conn2_closed (slot j s) else slot j s)" if "j < MAX_COMM2_LINKS" for j
    using that assms(1) by (simp add: drop_slot_slot)
  have net: "nt_ws (ch_net ?d) w = None"
    using assms(5) by (simp add: drop_slot_def Let_def close_slot_def upd_net_def net_delete_def)
  have "find_slot (\<lambda>c. \<not> c2_used c) MAX_COMM2_LINKS ?d = Some i"
    using assms(2,3) d by (auto simp: find_slot_def find_Some_iff conn2_closed_def intro!: exI [of _ i])
  then have s1: "s1 = ?t\<lparr>ch_conn2_count := ch_conn2_count ?d + 1, ch_max_conn2_count := max (ch_max_conn2_count ?d) (ch_conn2_count ?d + 1)\<rparr>"
    using assms(7,8) by (simp add: engineer_tcp_accept_def tcp_slot_def a Let_def init_slot_frame)
  have save: "slot j (u\<lparr>ch_last_conn_save := 0\<rparr>) = slot j u" for j and u :: "('p, 'db) child"
    by (simp add: slot_def)
  have t: "c2_used (slot i ?t)" "c2_ws (slot i ?t) = None" "mv_ws (c2_mav (slot i ?t)) = Some w"
      "mv_chan (c2_mav (slot i ?t)) = CHAN_COMM2 i" "ch_net ?t = ch_net ?d"
    using assms(1,2,6) d [OF assms(2)]
    by (simp_all add: tcp_slot_def a init_slot_def on_slot_slot on_slot_def case_prod_beta slot_upd_slot mav_init_fields
        mav_init_keeps_ws conn2_closed_def save)
  have "nt_bad (ch_net (fst (send_slot cx sy1 msg i s1)))"
  proof -
    let ?st = "mav_st (c2_mav (slot i s1)) (s1\<lparr>ch_to_eng := ch_to_eng s1 @ [(i, msg)]\<rparr>)"
    have "mv_ws (ms_mav ?st) = Some w" "nt_ws (ms_link ?st) w = None" "mv_chan (ms_mav ?st) < MAVLINK_COMM_NUM_BUFFERS"
      using t net assms(2) by (simp_all add: s1 slot_def CHAN_COMM2_def MAVLINK_COMM_NUM_BUFFERS_def)
    then have "nt_bad (ms_link (fst (send_message (cx_lib cx) (mav_env_of (cx_api cx) sy1) msg ?st)))"
      by (rule heartbeat_sent) (use assms(9-13) in auto)
    then show ?thesis
      by (simp add: send_slot_def on_slot_def case_prod_beta slot_def)
  qed
  then show ?thesis
    using t by (simp add: s1 slot_def)
qed

theorem child_reused_slot_uses_deleted_websocket_witness:
  "nt_bad (ch_net (fst (send_slot sample_cx (sample_sys 0) heartbeat 0
     (fst (engineer_tcp_accept sample_cx 0 (Some (12, (2, 2), 16)) (sample_sys 0) (drop_slot 0 web_engineer))))))"
proof -
  have s: "c2_used (slot 0 web_engineer)" "c2_ws (slot 0 web_engineer) = Some 0" "mv_ws (c2_mav (slot 0 web_engineer)) = Some 0"
    "length (ch_conn2 web_engineer) = MAX_COMM2_LINKS" "unat (ch_conn2_count (drop_slot 0 web_engineer)) < MAX_COMM2_LINKS"
    by (simp_all add: web_engineer_def slot_def set_ws_def sample_start_def child_start_def conn2_init_def MAX_COMM2_LINKS_def)
  show ?thesis
    by (rule child_reused_slot_uses_deleted_websocket [OF s(4) _ _ s(1-3,5) refl, THEN conjunct2, THEN conjunct2])
      (simp_all add: MAX_COMM2_LINKS_def sample_sys_def heartbeat_def sample_cx_def sample_lib_def)
qed

section \<open>UDP sessions that are not given back\<close>

lemma sweep_frame:
  "length (ch_conn2 (sweep_dead_udp now s)) = length (ch_conn2 s)"
  "ch_p (sweep_dead_udp now s) = ch_p s" "ch_have_conn1 (sweep_dead_udp now s) = ch_have_conn1 s"
  "ch_conn2_count (sweep_dead_udp now s) = ch_conn2_count s"
  "ch_max_conn2_count (sweep_dead_udp now s) = ch_max_conn2_count s"
proof -
  let ?f = "at_slot (\<lambda>i s. if dead_udp now (slot i s) then close_slot i s else s)"
  have "length (ch_conn2 (fold ?f is t)) = length (ch_conn2 t) \<and> ch_p (fold ?f is t) = ch_p t
      \<and> ch_have_conn1 (fold ?f is t) = ch_have_conn1 t \<and> ch_conn2_count (fold ?f is t) = ch_conn2_count t
      \<and> ch_max_conn2_count (fold ?f is t) = ch_max_conn2_count t" for "is" t
    by (induction "is" arbitrary: t) (simp_all add: at_slot_def)
  from this [of "[0..<unat (ch_max_conn2_count s)]" s]
  show "length (ch_conn2 (sweep_dead_udp now s)) = length (ch_conn2 s)"
    "ch_p (sweep_dead_udp now s) = ch_p s" "ch_have_conn1 (sweep_dead_udp now s) = ch_have_conn1 s"
    "ch_conn2_count (sweep_dead_udp now s) = ch_conn2_count s"
    "ch_max_conn2_count (sweep_dead_udp now s) = ch_max_conn2_count s"
    by (simp_all add: sweep_dead_udp_def slots_loop_def)
qed

lemma slot_crashed [simp]: "slot j (s\<lparr>ch_crashed := b\<rparr>) = slot j s"
  by (simp add: slot_def)

lemma sweep_fold:
  assumes "distinct is" and "\<forall>i \<in> set is. i < unat (ch_max_conn2_count s)" and "j < length (ch_conn2 s)"
  shows "slot j (fold (at_slot (\<lambda>i s. if dead_udp now (slot i s) then close_slot i s else s)) is s) =
    (if j \<in> set is \<and> dead_udp now (slot j s) then conn2_closed (slot j s) else slot j s)"
  using assms
proof (induction "is" arbitrary: s)
  case (Cons i "is")
  let ?s = "at_slot (\<lambda>i s. if dead_udp now (slot i s) then close_slot i s else s) i s"
  have f: "length (ch_conn2 ?s) = length (ch_conn2 s)" "ch_max_conn2_count ?s = ch_max_conn2_count s"
    by (simp_all add: at_slot_def)
  have "slot j ?s = (if j = i \<and> dead_udp now (slot j s) then conn2_closed (slot j s) else slot j s)"
    using Cons.prems by (auto simp: at_slot_def close_slot_slot)
  then show ?case
    using Cons.IH [of ?s] Cons.prems f by auto
qed simp

lemma sweep_slot:
  assumes "j < length (ch_conn2 s)"
  shows "slot j (sweep_dead_udp now s) =
    (if j < unat (ch_max_conn2_count s) \<and> dead_udp now (slot j s) then conn2_closed (slot j s) else slot j s)"
  using sweep_fold [of "[0..<unat (ch_max_conn2_count s)]" s j now] assms
  by (simp add: sweep_dead_udp_def slots_loop_def)

lemma only_udp_turns:
  assumes "\<forall>j < length (ch_conn2 s). c2_used (slot j s) \<longrightarrow> c2_is_udp (slot j s)"
    and "\<forall>i \<in> set is. i < unat (ch_max_conn2_count s)"
  shows "fold (engineer_tcp_turn cx isset ti me) is (s, False) =
    (if \<exists>i \<in> set is. length (ch_conn2 s) \<le> i then s\<lparr>ch_crashed := True\<rparr> else s, False)"
  using assms
proof (induction "is" arbitrary: s)
  case (Cons i "is")
  have t: "engineer_tcp_turn cx isset ti me i (s, False) =
      (if length (ch_conn2 s) \<le> i then s\<lparr>ch_crashed := True\<rparr> else s, False)"
    using Cons.prems by (auto simp: engineer_tcp_turn_def Let_def)
  show ?case
    using Cons.IH [of s] Cons.IH [of "s\<lparr>ch_crashed := True\<rparr>"] Cons.prems t by auto
qed simp

text \<open>One session: a datagram from a new peer, eleven seconds after the one before.\<close>

definition visit :: "'db round_in \<Rightarrow> int \<Rightarrow> nat \<Rightarrow> 'db round_in" where
  "visit ri fd k = ri\<lparr>ri_drops := None, ri_select := Select_ready (\<lambda>x. x = fd), ri_now := seconds (11 * int k),
     ri_engineer_udp := Some ([], (0, of_nat k), 16)\<rparr>"

text \<open>After \<open>k\<close> sessions: the counters stand at \<open>k\<close>, and at most slot 0 is in use.\<close>

definition visited :: "listen_port \<Rightarrow> nat \<Rightarrow> ('p, 'db) child \<Rightarrow> bool" where
  "visited p k s \<longleftrightarrow> ch_p s = p \<and> \<not> ch_have_conn1 s \<and> length (ch_conn2 s) = MAX_COMM2_LINKS
     \<and> ch_conn2_count s = of_nat k \<and> ch_max_conn2_count s = of_nat k
     \<and> (\<forall>j < MAX_COMM2_LINKS. c2_used (slot j s) \<longrightarrow> j = 0 \<and> 0 < k \<and> c2_is_udp (slot j s)
          \<and> seconds 10 < seconds (11 * int k) - c2_last_pkt (slot j s))"

lemma visit_swept:
  assumes "visited p k s" and "k \<le> MAX_COMM2_LINKS" and "j < MAX_COMM2_LINKS"
  shows "\<not> c2_used (slot j (sweep_dead_udp (seconds (11 * int k)) s))"
proof -
  have "unat (ch_max_conn2_count s) = k"
    using assms(1,2) by (simp add: visited_def unat_of_nat MAX_COMM2_LINKS_def)
  then show ?thesis
    using assms by (auto simp: visited_def sweep_slot dead_udp_def conn2_closed_def)
qed

lemma new_udp_slot_slots:
  assumes "j < length (ch_conn2 s)" and "i < length (ch_conn2 s)"
  shows "c2_used (slot j (new_udp_slot cx now time fr frl sy i s)) \<longleftrightarrow> j = i \<or> c2_used (slot j s)"
    and "c2_is_udp (slot i (new_udp_slot cx now time fr frl sy i s))"
    and "c2_last_pkt (slot i (new_udp_slot cx now time fr frl sy i s)) = now"
    and "ch_conn2_count (new_udp_slot cx now time fr frl sy i s) = ch_conn2_count s + 1"
    and "ch_max_conn2_count (new_udp_slot cx now time fr frl sy i s) = max (ch_max_conn2_count s) (ch_conn2_count s + 1)"
proof -
  have save: "slot j (u\<lparr>ch_last_conn_save := 0\<rparr>) = slot j u" for j and u :: "('p, 'db) child"
    by (simp add: slot_def)
  show "c2_used (slot j (new_udp_slot cx now time fr frl sy i s)) \<longleftrightarrow> j = i \<or> c2_used (slot j s)"
    using assms by (auto simp: new_udp_slot_def Let_def save slot_upd_slot init_slot_frame init_slot_slot)
  show "c2_is_udp (slot i (new_udp_slot cx now time fr frl sy i s))"
    using assms(2)
    by (simp add: new_udp_slot_def Let_def save slot_upd_slot init_slot_frame) (simp add: init_slot_def on_slot_slot slot_upd_slot)
  show "c2_last_pkt (slot i (new_udp_slot cx now time fr frl sy i s)) = now"
    using assms(2) by (simp add: new_udp_slot_def Let_def save slot_upd_slot init_slot_frame)
qed (simp_all add: new_udp_slot_def Let_def init_slot_frame)

lemma max_succ: "Suc n < 256 \<Longrightarrow> max (of_nat n :: u8) (of_nat n + 1) = of_nat (Suc n)"
  by (auto simp: max_def word_le_nat_alt unat_of_nat unat_word_ariths)

lemma visit_datagrams:
  assumes "visited p k s" and "k \<le> MAX_COMM2_LINKS" and "sock2_udp p \<noteq> -1" and "isset (sock2_udp p)" and "\<not> isset (sock1_udp p)"
  obtains s' where "datagram_phase cx isset (visit ri (sock2_udp p) k) (sweep_dead_udp (seconds (11 * int k)) s) = (s', Go)"
    and "visited p (Suc k) s'"
proof -
  define now where "now = seconds (11 * int k)"
  define a where "a = sweep_dead_udp now s"
  define b where "b = a\<lparr>ch_count2 := ch_count2 a + 1\<rparr>"
  let ?n = "new_udp_slot cx now (ri_time ri) (0, of_nat k) 16 (ri_init2 ri) 0 b"
  have len: "length (ch_conn2 a) = MAX_COMM2_LINKS" and pos: "0 < MAX_COMM2_LINKS"
    using assms(1) by (simp_all add: a_def sweep_frame visited_def MAX_COMM2_LINKS_def)
  have unused: "\<not> c2_used (slot j b)" if "j < MAX_COMM2_LINKS" for j
    using visit_swept [OF assms(1,2) that] by (simp add: b_def a_def now_def slot_def)
  have frame: "ch_p a = p" "\<not> ch_have_conn1 a" "ch_conn2_count a = of_nat k" "ch_max_conn2_count a = of_nat k"
    using assms(1) by (simp_all add: a_def sweep_frame visited_def)
  then have bound: "unat (ch_max_conn2_count b) \<le> MAX_COMM2_LINKS"
    using assms(2) by (simp add: b_def unat_of_nat MAX_COMM2_LINKS_def)
  have none: "find_slot (same_udp_peer fr frl) (unat (ch_max_conn2_count b)) b = None" for fr frl
    using unused bound by (auto simp: find_slot_def find_None_iff same_udp_peer_def)
  have "find_slot (\<lambda>c. \<not> c2_used c) MAX_COMM2_LINKS b = Some 0"
    using unused [OF pos] pos by (auto simp: find_slot_def find_Some_iff intro!: exI [of _ 0])
  then have "engineer_udp cx now (ri_time ri) (Some ([], (0, of_nat k), 16)) (ri_init2 ri) (ri_msgs2 ri) a = (?n, Go)"
    using none by (simp add: engineer_udp_def Let_def engineer_data_def engineer_msgs.simps b_def)
  then have "datagram_phase cx isset (visit ri (sock2_udp p) k) a = (?n, Go)"
    using assms(3-5) frame by (simp add: datagram_phase_def visit_def now_def)
  moreover have "visited p (Suc k) ?n"
  proof -
    have lb: "length (ch_conn2 b) = MAX_COMM2_LINKS"
      using len by (simp add: b_def)
    have "seconds 10 < seconds (11 * int (Suc k)) - now"
      by (simp add: now_def seconds_def)
    moreover have "ch_conn2_count b = of_nat k" "ch_max_conn2_count b = of_nat k" "ch_p b = p" "\<not> ch_have_conn1 b"
      using frame by (simp_all add: b_def)
    moreover have "max (of_nat k :: u8) (of_nat k + 1) = of_nat (Suc k)"
      using assms(2) by (intro max_succ) (simp add: MAX_COMM2_LINKS_def)
    moreover have "c2_used (slot j ?n) \<longleftrightarrow> j = 0" if "j < MAX_COMM2_LINKS" for j
      using new_udp_slot_slots(1) [of j b 0] lb that unused pos by auto
    ultimately show ?thesis
      using new_udp_slot_slots(2-5) [of 0 b 0] lb pos
      by (auto simp: visited_def new_udp_slot_frame)
  qed
  ultimately show thesis
    unfolding a_def now_def by (rule that)
qed

definition own_udp_socket :: "listen_port \<Rightarrow> bool" where
  "own_udp_socket p \<longleftrightarrow> sock2_udp p \<notin> {-1, sock1_udp p, sock1_tcp p, sock2_listen p}"

lemma visited_core_free:
  "visited p k (s\<lparr>ch_crashed := b\<rparr>) = visited p k s" "visited p k (s\<lparr>ch_last_conn_save := t\<rparr>) = visited p k s"
  "visited p k (s\<lparr>ch_conndb := d\<rparr>) = visited p k s"
  by (simp_all add: visited_def slot_def)

lemma visit_tail:
  fixes s :: "('p, 'db) child"
  assumes "visited p (Suc k) s" and "k \<le> MAX_COMM2_LINKS"
  shows "visited p (Suc k) (snapshot cx pid sn si (pump_binlog cx sy tn order (engineer_tcp cx isset ti me s)))"
    and "k = MAX_COMM2_LINKS \<Longrightarrow> ch_crashed (snapshot cx pid sn si (pump_binlog cx sy tn order (engineer_tcp cx isset ti me s)))"
proof -
  have max: "unat (ch_max_conn2_count s) = Suc k"
    using assms by (simp add: visited_def unat_of_nat MAX_COMM2_LINKS_def del: of_nat_Suc)
  have "fold (engineer_tcp_turn cx isset ti me) [0..<unat (ch_max_conn2_count s)] (s, False) =
    (if \<exists>i \<in> set [0..<unat (ch_max_conn2_count s)]. length (ch_conn2 s) \<le> i then s\<lparr>ch_crashed := True\<rparr> else s, False)"
    by (rule only_udp_turns) (use assms in \<open>auto simp: visited_def\<close>)
  moreover have "(\<exists>i \<in> set [0..<unat (ch_max_conn2_count s)]. length (ch_conn2 s) \<le> i) \<longleftrightarrow> k = MAX_COMM2_LINKS"
    using assms unfolding max by (auto simp: visited_def simp del: upt_Suc)
  ultimately have t: "engineer_tcp cx isset ti me s = (if k = MAX_COMM2_LINKS then s\<lparr>ch_crashed := True\<rparr> else s)"
    by (simp add: engineer_tcp_def)
  have p: "pump_binlog cx sy tn order u = u" if "\<not> ch_have_conn1 u" for u :: "('p, 'db) child"
    using that by (simp add: pump_binlog_def)
  have "\<not> ch_have_conn1 s"
    using assms by (simp add: visited_def)
  then have eq: "pump_binlog cx sy tn order (engineer_tcp cx isset ti me s) = engineer_tcp cx isset ti me s"
    by (intro p) (simp add: t)
  have snap: "visited p (Suc k) (snapshot cx pid sn si u) = visited p (Suc k) u"
      "ch_crashed (snapshot cx pid sn si u) = ch_crashed u" for u :: "('p, 'db) child"
    by (simp_all add: snapshot_def Let_def visited_core_free split: option.split)
  show "visited p (Suc k) (snapshot cx pid sn si (pump_binlog cx sy tn order (engineer_tcp cx isset ti me s)))"
    using assms(1) unfolding eq snap by (cases "k = MAX_COMM2_LINKS") (simp_all add: t visited_core_free)
  show "k = MAX_COMM2_LINKS \<Longrightarrow> ch_crashed (snapshot cx pid sn si (pump_binlog cx sy tn order (engineer_tcp cx isset ti me s)))"
    unfolding eq snap by (simp add: t)
qed

lemma visit_round:
  assumes "visited p k s" and "k \<le> MAX_COMM2_LINKS" and "own_udp_socket p"
  obtains s' where "round cx pid (visit ri (sock2_udp p) k) s = (s', Go)" and "visited p (Suc k) s'"
    and "k = MAX_COMM2_LINKS \<Longrightarrow> ch_crashed s'"
proof -
  let ?ri = "visit ri (sock2_udp p) k"
  have p: "ch_p s = p" "\<not> ch_have_conn1 s"
    using assms(1) by (simp_all add: visited_def)
  have bound: "unat (ch_max_conn2_count s) \<le> MAX_COMM2_LINKS" "length (ch_conn2 s) = MAX_COMM2_LINKS"
    using assms(1,2) by (simp_all add: visited_def unat_of_nat MAX_COMM2_LINKS_def)
  define isset where "isset = (\<lambda>fd. fd \<in> set (select_fds s) \<and> fd = sock2_udp p)"
  have isset: "isset (sock2_udp p)" "\<not> isset (sock1_udp p)" "\<not> isset (sock1_tcp p)" "\<not> isset (sock2_listen p)"
    using assms(3) p by (auto simp: isset_def select_fds_def socks_def own_udp_socket_def)
  obtain s1 where d: "datagram_phase cx isset ?ri (sweep_dead_udp (seconds (11 * int k)) s) = (s1, Go)"
      and s1: "visited p (Suc k) s1"
    by (rule visit_datagrams [OF assms(1,2) _ isset(1,2)]) (use assms(3) in \<open>auto simp: own_udp_socket_def\<close>)
  have "stream_phase cx isset ?ri s1 = (s1, Go)"
    using isset s1 by (simp add: stream_phase_def visited_def)
  then have serve: "serve cx pid isset ?ri s =
      (snapshot cx pid (ri_snap_now ?ri) (ri_snap ?ri) (pump_binlog cx (ri_tick ?ri) (ri_tick_now ?ri) (ri_tick_order ?ri)
        (engineer_tcp cx isset (ri_tcp2 ?ri) (ri_msgs_tcp2 ?ri) s1)), Go)"
    using bound d by (simp add: serve_def visit_def Let_def)
  have "round cx pid ?ri s = serve cx pid isset ?ri s"
    using p bound by (simp add: round_def visit_def check_table_def Let_def isset_def)
  then show thesis
    unfolding serve by (rule that [OF _ visit_tail [OF s1 assms(2)]])
qed

lemma visit_rounds:
  "visited p k s \<Longrightarrow> k + n \<le> Suc MAX_COMM2_LINKS \<Longrightarrow> own_udp_socket p \<Longrightarrow>
   \<exists>s'. visited p (k + n) s' \<and> (0 < n \<longrightarrow> k + n = Suc MAX_COMM2_LINKS \<longrightarrow> ch_crashed s')
     \<and> (\<forall>ris. main_rounds cx pid (map (visit ri (sock2_udp p)) [k..<k + n] @ ris) s = main_rounds cx pid ris s')"
proof (induction n arbitrary: k s)
  case (Suc n)
  obtain s1 where r: "round cx pid (visit ri (sock2_udp p) k) s = (s1, Go)" "visited p (Suc k) s1"
      "k = MAX_COMM2_LINKS \<Longrightarrow> ch_crashed s1"
    using visit_round [OF Suc.prems(1) _ Suc.prems(3)] Suc.prems(2) by (metis Suc_le_mono add_Suc_right le_add1 order_trans)
  obtain s' where s': "visited p (Suc k + n) s'" "0 < n \<longrightarrow> Suc k + n = Suc MAX_COMM2_LINKS \<longrightarrow> ch_crashed s'"
      "\<And>ris. main_rounds cx pid (map (visit ri (sock2_udp p)) [Suc k..<Suc k + n] @ ris) s1 = main_rounds cx pid ris s'"
    using Suc.IH [OF r(2)] Suc.prems(2,3) by auto
  have "main_rounds cx pid (map (visit ri (sock2_udp p)) [k..<k + Suc n] @ ris) s = main_rounds cx pid ris s'" for ris
  proof -
    have "[k..<k + Suc n] = k # [Suc k..<Suc k + n]"
      by (simp add: upt_conv_Cons del: upt_Suc)
    then show ?thesis
      using s'(3) [of ris] r(1) by (simp del: upt_Suc)
  qed
  moreover have "s' = s1" if "n = 0"
    using s'(3) [of "[]"] that by simp
  ultimately show ?case
    using s'(1,2) r(3) by (intro exI [of _ s']) auto
qed auto

lemma visited_used_count:
  assumes "visited p k s"
  shows "used_count s \<le> 1"
proof -
  have "{j. j < length (ch_conn2 s) \<and> c2_used (ch_conn2 s ! j)} \<subseteq> {0}"
    using assms by (auto simp: visited_def slot_def)
  then have "card {j. j < length (ch_conn2 s) \<and> c2_used (ch_conn2 s ! j)} \<le> card {0 :: nat}"
    by (rule card_mono [rotated]) simp
  then show ?thesis
    by (simp add: used_count_def length_filter_conv_card)
qed



end
