(* ===== verification/Child_Fanout.thy ===== *)
theory Child_Fanout
  imports Child_Faults
begin

text \<open>
  Where a message from the user goes: the turns of the loop over the engineers' slots, one by one,
  and the whole of \<open>handle_user_msg\<close>.
\<close>

section \<open>Fan-out to the engineers\<close>

text \<open>Which slots a message from the user goes to: for a UDP user, TCP slots need a socket.\<close>

definition wants :: "bool \<Rightarrow> conn2 \<Rightarrow> bool" where
  "wants udp c \<longleftrightarrow> c2_used c \<and> (udp \<longrightarrow> c2_is_udp c \<or> c2_sock c \<noteq> -1)"

definition fan_turn :: "('p, 'db) ctx \<Rightarrow> bool \<Rightarrow> msg_env \<Rightarrow> mavlink_msg \<Rightarrow> nat \<Rightarrow> ('p, 'db) child \<Rightarrow> ('p, 'db) child" where
  "fan_turn cx udp me msg = at_slot (if udp then forward_udp cx me msg else forward_tcp cx me msg)"

lemma send_slot_frame:
  "ch_conn2_count (fst (send_slot cx sy msg i s)) = ch_conn2_count s"
  "ch_max_conn2_count (fst (send_slot cx sy msg i s)) = ch_max_conn2_count s"
  "ch_to_eng (fst (send_slot cx sy msg i s)) = ch_to_eng s @ [(i, msg)]"
  "length (ch_conn2 (fst (send_slot cx sy msg i s))) = length (ch_conn2 s)"
  "j \<noteq> i \<Longrightarrow> j < length (ch_conn2 s) \<Longrightarrow> slot j (fst (send_slot cx sy msg i s)) = slot j s"
  by (simp_all add: send_slot_def on_slot_slot)

text \<open>One engineer's turn: the message is handed over and nothing else changes, or a connection is dropped.\<close>

lemma fan_turn_cases:
  assumes "counted MAX_COMM2_LINKS s" and "i < unat (ch_max_conn2_count s)"
  shows "ch_conn2_count (fan_turn cx udp me msg i s) = ch_conn2_count s
      \<and> ch_max_conn2_count (fan_turn cx udp me msg i s) = ch_max_conn2_count s
      \<and> ch_to_eng (fan_turn cx udp me msg i s) = ch_to_eng s @ (if wants udp (slot i s) then [(i, msg)] else [])
      \<and> (\<forall>j < MAX_COMM2_LINKS. j \<noteq> i \<longrightarrow> slot j (fan_turn cx udp me msg i s) = slot j s)
    \<or> unat (ch_conn2_count (fan_turn cx udp me msg i s)) < unat (ch_conn2_count s)"
proof (cases "c2_used (slot i s)")
  case True
  have len: "length (ch_conn2 s) = MAX_COMM2_LINKS" "i < MAX_COMM2_LINKS" "i < length (ch_conn2 s)"
    using assms by (simp_all add: counted_def)
  have "0 < unat (ch_conn2_count s)"
    using used_count_pos [OF len(3) True] assms(1) by (simp add: counted_def)
  then have dec: "unat (ch_conn2_count s - 1) < unat (ch_conn2_count s)"
    by (simp add: unat_pred)
  let ?t = "fst (send_slot cx (me_send me i) msg i s)" and ?ok = "snd (send_slot cx (me_send me i) msg i s)"
  have kept: "c2_is_udp (slot i (drop_slot i ?t)) = c2_is_udp (slot i s)"
      "c2_is_udp (slot i (upd_slot i inc_tx ?t)) = c2_is_udp (slot i s)"
    using len by (simp_all add: drop_slot_slot slot_upd_slot send_slot_slot conn2_closed_def inc_tx_def)
  have sent: "ch_conn2_count (upd_slot i inc_tx ?t) = ch_conn2_count s"
      "ch_max_conn2_count (upd_slot i inc_tx ?t) = ch_max_conn2_count s"
      "ch_to_eng (upd_slot i inc_tx ?t) = ch_to_eng s @ [(i, msg)]"
      "\<And>j. j < MAX_COMM2_LINKS \<Longrightarrow> j \<noteq> i \<Longrightarrow> slot j (upd_slot i inc_tx ?t) = slot j s"
    using len by (simp_all add: send_slot_frame slot_upd_slot)
  have dropped: "ch_conn2_count (drop_slot i ?t) = ch_conn2_count s - 1"
    by (simp add: send_slot_frame)
  have "fan_turn cx udp me msg i s = (if wants udp (slot i s) then
        if ?ok \<or> udp \<and> c2_is_udp (slot i s) then upd_slot i inc_tx ?t else drop_slot i ?t else s)"
    using True kept len assms(2)
    by (auto simp: fan_turn_def at_slot_def forward_udp_def forward_tcp_def wants_def case_prod_beta Let_def)
  then show ?thesis
    using sent dropped dec by auto
next
  case False
  then show ?thesis
    using assms by (auto simp: fan_turn_def at_slot_def forward_udp_def forward_tcp_def wants_def counted_def)
qed

lemma fan_turn_counted:
  assumes "counted n s"
  shows "counted n (fan_turn cx udp me msg i s)"
proof -
  have len: "length (ch_conn2 s) = MAX_COMM2_LINKS"
    using assms by (simp add: counted_def)
  have "counted n (s\<lparr>ch_crashed := True\<rparr>)"
    by (rule counted_core [OF assms]) simp
  then show ?thesis
    using assms len by (cases udp) (simp_all add: fan_turn_def at_slot_def counted.forward_inv)
qed

lemma fan_turn_no_more:
  assumes "counted MAX_COMM2_LINKS s"
  shows "unat (ch_conn2_count (fan_turn cx udp me msg i s)) \<le> unat (ch_conn2_count s)"
  using fan_turn_cases [OF assms, of i cx udp me msg] by (cases "i < unat (ch_max_conn2_count s)") (auto simp: fan_turn_def at_slot_def)

lemma fan_no_more:
  assumes "counted MAX_COMM2_LINKS s"
  shows "unat (ch_conn2_count (fold (fan_turn cx udp me msg) is s)) \<le> unat (ch_conn2_count s)"
  using assms
proof (induction "is" arbitrary: s)
  case (Cons i "is")
  then show ?case
    using fan_turn_no_more [OF Cons.prems, of cx udp me msg i] Cons.IH [OF fan_turn_counted [OF Cons.prems, of cx udp me msg i]]
    by simp
qed simp

lemma fan_out:
  assumes "counted MAX_COMM2_LINKS s" and "distinct is" and "\<forall>i \<in> set is. i < unat (ch_max_conn2_count s)"
    and "ch_conn2_count (fold (fan_turn cx udp me msg) is s) = ch_conn2_count s"
  shows "ch_to_eng (fold (fan_turn cx udp me msg) is s) =
    ch_to_eng s @ map (\<lambda>i. (i, msg)) (filter (\<lambda>i. wants udp (slot i s)) is)"
  using assms
proof (induction "is" arbitrary: s)
  case (Cons i "is")
  let ?s = "fan_turn cx udp me msg i s"
  have c: "counted MAX_COMM2_LINKS ?s"
    by (rule fan_turn_counted [OF Cons.prems(1)])
  have "unat (ch_conn2_count s) \<le> unat (ch_conn2_count ?s)"
    using fan_no_more [OF c, of cx udp me msg "is"] Cons.prems(4) by simp
  then have t: "ch_conn2_count ?s = ch_conn2_count s" "ch_max_conn2_count ?s = ch_max_conn2_count s"
      "ch_to_eng ?s = ch_to_eng s @ (if wants udp (slot i s) then [(i, msg)] else [])"
      "\<And>j. j < MAX_COMM2_LINKS \<Longrightarrow> j \<noteq> i \<Longrightarrow> slot j ?s = slot j s"
    using fan_turn_cases [OF Cons.prems(1), of i cx udp me msg] Cons.prems(3) by auto
  have "j < MAX_COMM2_LINKS \<and> j \<noteq> i" if "j \<in> set is" for j
    using that Cons.prems(1-3) by (auto simp: counted_def)
  then have "filter (\<lambda>j. wants udp (slot j ?s)) is = filter (\<lambda>j. wants udp (slot j s)) is"
    by (intro filter_cong) (auto simp: t(4))
  then show ?case
    using Cons.IH [OF c] Cons.prems t by simp
qed simp

lemma log_message_frame:
  "ch_conn2 (log_message cx me msg s) = ch_conn2 s" "ch_p (log_message cx me msg s) = ch_p s"
  by (simp_all add: log_message_def Let_def case_prod_beta)

lemma binlog_msg_frame:
  "ch_conn2 (fst (binlog_handle_user_msg cx me msg s)) = ch_conn2 s"
  "snd (binlog_handle_user_msg cx me msg s) \<longleftrightarrow> binlog_enabled s \<and> is_remote_log msg"
  by (auto simp: binlog_handle_user_msg_def is_remote_log_def Let_def case_prod_beta)


definition held_msg :: mavlink_msg where
  "held_msg = heartbeat\<lparr>m_msgid := 76\<rparr>"

lemma send_slot_held:
  assumes "i < length (ch_conn2 s)" and "c2_mav (slot i s) = sample_mav"
  shows "snd (send_slot cx (sample_sys t) held_msg i s)"
  using assms
  by (simp add: send_slot_def on_slot_def send_message_def sample_mav_def held_msg_def heartbeat_def slot_def
      MAVLINK_MSG_ID_HEARTBEAT_def Let_def)

lemma two_engineers_counted: "counted MAX_COMM2_LINKS two_engineers"
proof -
  have "used_count two_engineers = length (filter (\<lambda>i. i < 2) [0..<MAX_COMM2_LINKS])"
    by (simp add: used_count_def two_engineers_def filter_map comp_def)
  also have "\<dots> = 2"
    by code_simp
  finally show ?thesis
    by (simp add: counted_def) (simp add: two_engineers_def MAX_COMM2_LINKS_def)
qed

lemma two_engineers_slots: "j < MAX_COMM2_LINKS \<Longrightarrow> slot j two_engineers = (conn2_init sample_mav)\<lparr>c2_used := j < 2\<rparr>"
  by (simp add: two_engineers_def slot_def)


end
