(* ===== verification/Child_Tables.thy ===== *)
theory Child_Tables
  imports Child_Fanout
begin

text \<open>
  What the child writes into the two databases: the snapshot of its connections into
  \<open>connections.tdb\<close>, and the traffic counters into \<open>keys.tdb\<close> when it ends.
\<close>

section \<open>The snapshot of the connections\<close>

definition conn_key_of :: "conn_entry \<Rightarrow> conn_key" where
  "conn_key_of e = (ce_port2 e, ce_conn_index e)"

text \<open>Writes of records with different keys.\<close>

definition put_row :: "conn_entry \<Rightarrow> (conn_key \<Rightarrow> conn_entry option) \<Rightarrow> conn_key \<Rightarrow> conn_entry option" where
  "put_row e m = m(conn_key_of e \<mapsto> e)"

lemma fold_put_row:
  "distinct (map conn_key_of es) \<Longrightarrow>
   fold put_row es m k = (case find (\<lambda>e. conn_key_of e = k) es of None \<Rightarrow> m k | Some e \<Rightarrow> Some e)"
proof (induction es arbitrary: m)
  case (Cons e es)
  have "find (\<lambda>e. conn_key_of e = k) es = None" if "conn_key_of e = k"
    using that Cons.prems by (auto simp: find_None_iff image_iff)
  then show ?case
    using Cons by (auto simp: put_row_def split: option.split)
qed simp

definition put_rows :: "'db tdb_api \<Rightarrow> (nat \<Rightarrow> bool) \<Rightarrow> conn_entry list \<Rightarrow> 'db \<Rightarrow> 'db" where
  "put_rows api malloc_ok = fold (\<lambda>e d. fst (conn_write api malloc_ok d e))"

context tdb
begin

lemma put_rows_write: "(tdb_write api)\<^sup>*\<^sup>* db (put_rows api malloc_ok es db)"
proof (induction es arbitrary: db)
  case (Cons e es)
  obtain d ok where w: "conn_write api malloc_ok db e = (d, ok)"
    by (rule prod.exhaust)
  then show ?case
    using rtranclp_trans [OF conn_write_write [OF w] Cons] by (simp add: put_rows_def)
qed (simp add: put_rows_def)

lemma put_rows_of:
  assumes "\<And>d k v. snd (tdb_store api d k v)" and "\<And>n. malloc_ok n"
  shows "conn_of api (put_rows api malloc_ok es db) = fold put_row es (conn_of api db)"
proof (induction es arbitrary: db)
  case (Cons e es)
  obtain d ok where w: "conn_write api malloc_ok db e = (d, ok)"
    by (rule prod.exhaust)
  have "snd (conn_write api malloc_ok db e)"
    using assms by (simp add: conn_write_def Let_def)
  then have ok
    by (simp add: w)
  then have "conn_of api d = put_row e (conn_of api db)"
    using conn_write_of [OF w] by (simp add: put_row_def conn_key_of_def)
  then show ?case
    using Cons w by (simp add: put_rows_def)
qed (simp add: put_rows_def)

end

lemma snapshot_entries_frame:
  "snapshot_entries pid t (s\<lparr>ch_last_conn_save := now\<rparr>) = snapshot_entries pid t s"
proof -
  have ssl: "is_SSL w (s\<lparr>ch_last_conn_save := now\<rparr>) = is_SSL w s" for w
    by (cases w) (simp_all add: is_SSL_def)
  have slot: "slot i (s\<lparr>ch_last_conn_save := now\<rparr>) = slot i s" "polled (s\<lparr>ch_last_conn_save := now\<rparr>) = polled s" for i
    by (simp_all add: slot_def polled_def)
  have "user_entry pid t (s\<lparr>ch_last_conn_save := now\<rparr>) = user_entry pid t s"
    by (simp add: user_entry_def ssl)
  moreover have "engineer_entry pid t i (s\<lparr>ch_last_conn_save := now\<rparr>) = engineer_entry pid t i s" for i
    by (simp add: engineer_entry_def ssl slot Let_def)
  ultimately show ?thesis
    by (simp add: snapshot_entries_def slot)
qed

lemma snapshot_rows_distinct:
  assumes "length (ch_conn2 s) = MAX_COMM2_LINKS"
  shows "distinct (map conn_key_of (snapshot_entries pid t s))"
proof -
  let ?key = "\<lambda>i. (lp_port2 (ch_p s), of_nat (Suc i) :: u32)"
  let ?is = "filter (\<lambda>i. c2_used (slot i s)) (polled s)"
  have key: "conn_key_of (engineer_entry pid t i s) = ?key i" for i
    by (simp add: conn_key_of_def engineer_entry_def Let_def)
  have unat: "unat (of_nat (Suc i) :: u32) = Suc i" if "i \<in> set ?is" for i
    using that assms by (simp add: polled_def unat_of_nat MAX_COMM2_LINKS_def del: of_nat_Suc)
  have "inj_on ?key (set ?is)"
  proof (rule inj_onI)
    fix i j
    assume "i \<in> set ?is" "j \<in> set ?is" "?key i = ?key j"
    then show "i = j"
      using unat [of i] unat [of j] by simp
  qed
  moreover have "distinct ?is"
    by (simp add: polled_def)
  ultimately have "distinct (map ?key ?is)"
    by (simp only: distinct_map)
  moreover have "(lp_port2 (ch_p s), 0) \<noteq> ?key i" if "i \<in> set ?is" for i
    using unat [OF that] by auto
  then have "(lp_port2 (ch_p s), 0) \<notin> set (map ?key ?is)"
    by (metis (no_types, lifting) imageE list.set_map)
  ultimately show ?thesis
    by (simp add: snapshot_entries_def comp_def key del: of_nat_Suc) (simp add: user_entry_def conn_key_of_def)
qed


definition one_user :: "(unit, mem_db) child" where
  "one_user = sample_start\<lparr>ch_have_conn1 := True, ch_conndb := sample_conns\<rparr>"

definition sample_snap :: "mem_db snap_in" where
  "sample_snap = \<lparr>si_malloc = (\<lambda>_. True), si_attempt = (\<lambda>_. Opened sample_conns), si_time = 5\<rparr>"


section \<open>The counters in the key database\<close>

definition counts_added :: "u32 \<Rightarrow> u32 \<Rightarrow> key_entry \<Rightarrow> key_entry" where
  "counts_added n1 n2 ke = ke\<lparr>ke_count1 := ke_count1 ke + n1, ke_count2 := ke_count2 ke + n2,
     ke_connections := ke_connections ke + 1\<rparr>"

lemma entry_saved:
  assumes "tdb api saved in_txn" and "tdb_transaction_start api db = (t, True)"
    and "wf_KeyEntry ke" and "ke_magic ke = KEY_MAGIC" and "\<And>n. malloc_ok n"
    and "\<And>d k v. snd (tdb_store api d k v)" and "\<And>d. snd (tdb_transaction_commit api d)"
  shows "key_of api (db_close_commit api (fst (db_save_key api malloc_ok t port2 ke))) = (key_of api db)(port2 \<mapsto> ke)"
proof -
  obtain d ok where save: "db_save_key api malloc_ok t port2 ke = (d, ok)"
    by (rule prod.exhaust)
  have "snd (db_save_key api malloc_ok t port2 ke)"
    using assms(5,6) by (simp add: db_save_key_def Let_def)
  then have ok
    by (simp add: save)
  obtain e c where commit: "tdb_transaction_commit api d = (e, c)"
    by (rule prod.exhaust)
  then have c
    using assms(7) [of d] by simp
  then show ?thesis
    using tdb.key_txn_commit [OF assms(1-4) save commit] \<open>ok\<close> save by simp
qed

text \<open>
  C13: At its end a child adds its traffic to the port's record and to nothing else: when data was seen and
  no call on the database fails, both counters and the number of connections of this port are
  raised, and every other record, or the absence of one, stays as it was.\<close>

theorem child_counts_saved:
  assumes "tdb api saved in_txn" and "ch_count1 s \<noteq> 0 \<or> ch_count2 s \<noteq> 0"
    and "tdb_transaction_start api (ch_db s) = (t, True)" and "\<And>n. malloc_ok n"
    and "\<And>d k v. snd (tdb_store api d k v)" and "\<And>d. snd (tdb_transaction_commit api d)"
  shows "key_of api (save_counts api malloc_ok True ke0 s) =
    (key_of api (ch_db s))(lp_port2 (ch_p s) :=
       map_option (counts_added (ch_count1 s) (ch_count2 s)) (key_of api (ch_db s) (lp_port2 (ch_p s))))"
proof -
  have kt: "key_of api t = key_of api (ch_db s)"
    using tdb.start_ok [OF assms(1,3)] by (intro tdb.key_of_cong [OF assms(1)]) simp
  have op: "db_open_transaction api (Some (ch_db s)) = Some t"
    using assms(3) by (simp add: db_open_transaction_def db_open_def)
  obtain found ke where load: "db_load_key api t (lp_port2 (ch_p s)) ke0 = (found, ke)"
    by (rule prod.exhaust)
  show ?thesis
  proof (cases found)
    case False
    then have "key_of api (ch_db s) (lp_port2 (ch_p s)) = None"
      using load db_load_key_iff [of api t "lp_port2 (ch_p s)" ke0] kt
      by (cases "key_of api (ch_db s) (lp_port2 (ch_p s))") auto
    moreover have "save_counts api malloc_ok True ke0 s = db_close_cancel api t"
      using assms(2) op load False by (simp add: save_counts_def)
    moreover have "key_of api (db_close_cancel api t) = key_of api (ch_db s)"
      by (rule tdb.key_txn_cancel [OF assms(1,3)]) simp
    ultimately show ?thesis
      by (simp add: fun_upd_idem)
  next
    case True
    let ?ke = "counts_added (ch_count1 s) (ch_count2 s) ke"
    have ke: "key_of api (ch_db s) (lp_port2 (ch_p s)) = Some ke"
      using load True db_load_key_iff [of api t "lp_port2 (ch_p s)" ke0 ke] kt by simp
    then have wf: "wf_KeyEntry ?ke" "ke_magic ?ke = KEY_MAGIC"
      using wf_key_of [OF ke] ke
      by (auto simp: counts_added_def wf_KeyEntry_def key_of_alt split: option.splits if_splits)
    have "save_counts api malloc_ok True ke0 s =
        db_close_commit api (fst (db_save_key api malloc_ok t (lp_port2 (ch_p s)) ?ke))"
      using assms(2) op load True by (simp add: save_counts_def counts_added_def)
    then show ?thesis
      using entry_saved [where malloc_ok = malloc_ok, OF assms(1,3) wf assms(4-6)] ke by simp
  qed
qed

definition busy_child :: "(unit, mem_db) child" where
  "busy_child = sample_start\<lparr>ch_count1 := 6, ch_count2 := 2\<rparr>"

theorem child_counts_saved_witness:
  "key_of mem_api (save_counts mem_api (\<lambda>_. True) True sample_entry busy_child) 10002 = Some (counts_added 6 2 sample_entry)"
proof -
  have s: "ch_db busy_child = sample_keys" "lp_port2 (ch_p busy_child) = 10002" "ch_count1 busy_child = 6" "ch_count2 busy_child = 2"
    by (simp_all add: busy_child_def sample_start_def child_start_def sample_port_def)
  have "tdb_transaction_start mem_api (ch_db busy_child) = (sample_keys\<lparr>mem_saved := mem_recs sample_keys, mem_txn := True\<rparr>, True)"
    by (simp only: s sample_keys_start)
  from child_counts_saved [OF mem_tdb.tdb_axioms _ this, of "\<lambda>_. True" sample_entry] show ?thesis
    using key_of_sample_keys by (simp add: s)
qed

end
