(* ===== verification/Child_Requests.thy ===== *)
theory Child_Requests
  imports Child_Tables
begin

text \<open>
  Requests of the web administration to drop connections, and the bound on the loop over the bytes
  of one read.
\<close>

section \<open>Requests to drop connections\<close>

lemma drop_index_frame:
  "ch_p (fst (drop_index idx (s, b))) = ch_p s"
  "length (ch_conn2 (fst (drop_index idx (s, b)))) = length (ch_conn2 s)"
  "snd (drop_index idx (s, b)) \<longleftrightarrow> b \<or> idx = 0"
  by (auto simp: drop_index_def Let_def signed_eq_0_iff)

lemma drop_index_used:
  assumes "length (ch_conn2 s) = MAX_COMM2_LINKS" and "j < MAX_COMM2_LINKS"
  shows "c2_used (slot j (fst (drop_index idx (s, b)))) \<longleftrightarrow> c2_used (slot j s) \<and> sint idx \<noteq> int j + 1"
proof -
  have counters: "slot j (u\<lparr>ch_conn2_count := k\<rparr>) = slot j u" "slot j (u\<lparr>ch_max_conn2_count := k\<rparr>) = slot j u" for u :: "('p, 'db) child" and k
    by (simp_all add: slot_def)
  let ?i = "nat (sint idx - 1)"
  have slot: "slot j (fst (drop_index idx (s, b))) =
      (if 1 \<le> sint idx \<and> sint idx \<le> int MAX_COMM2_LINKS \<and> c2_used (slot ?i s) then slot j (close_slot ?i s) else slot j s)"
    by (simp add: drop_index_def Let_def counters)
  show ?thesis
  proof (cases "sint idx = int j + 1")
    case True
    then have "?i = j" "1 \<le> sint idx" "sint idx \<le> int MAX_COMM2_LINKS"
      using assms(2) by simp_all
    then show ?thesis
      using True assms by (auto simp: slot close_slot_slot conn2_closed_def)
  next
    case False
    then have "?i \<noteq> j" if "1 \<le> sint idx"
      using that by auto
    then show ?thesis
      using False assms by (auto simp: slot close_slot_slot)
  qed
qed

lemma drop_indices:
  assumes "length (ch_conn2 s) = MAX_COMM2_LINKS"
  shows "length (ch_conn2 (fst (fold drop_index is (s, b)))) = MAX_COMM2_LINKS
    \<and> (snd (fold drop_index is (s, b)) \<longleftrightarrow> b \<or> 0 \<in> set is)
    \<and> (j < MAX_COMM2_LINKS \<longrightarrow> (c2_used (slot j (fst (fold drop_index is (s, b))))
          \<longleftrightarrow> c2_used (slot j s) \<and> int j + 1 \<notin> sint ` set is))"
  using assms
proof (induction "is" arbitrary: s b)
  case (Cons i "is")
  obtain s1 b1 where d: "drop_index i (s, b) = (s1, b1)"
    by (rule prod.exhaust)
  have "length (ch_conn2 s1) = MAX_COMM2_LINKS" "b1 \<longleftrightarrow> b \<or> i = 0"
      "j < MAX_COMM2_LINKS \<Longrightarrow> c2_used (slot j s1) \<longleftrightarrow> c2_used (slot j s) \<and> sint i \<noteq> int j + 1"
    using drop_index_frame [of i s b] drop_index_used [OF Cons.prems, of j i b] d Cons.prems by simp_all
  then show ?case
    using Cons.IH [of s1 b1] d by auto
qed simp


lemma drop_requested_row:
  "drop_requested p (enc_ConnKey (p', i), enc_ConnEntry e) \<longleftrightarrow>
     p' = p \<and> ce_magic e = CONN_MAGIC \<and> ce_flags e AND CONN_FLAG_DROP_REQUESTED \<noteq> 0"
  using conn_codec.dec_enc_exact [of e]
  by (simp add: drop_requested_def Let_def zero_pad_def CONNENTRY_MIN_SIZE_def sizeof_ConnEntry_def)

text \<open>The row of slot 1 carries the flag.\<close>

definition flagged_conns :: mem_db where
  "flagged_conns = mem_empty\<lparr>mem_recs :=
     [(enc_ConnKey (10002, 2), enc_ConnEntry ((sample_conn 10002 2)\<lparr>ce_flags := CONN_FLAG_DROP_REQUESTED\<rparr>))]\<rparr>"


section \<open>The loops over received bytes\<close>

text \<open>
  The loop over the bytes of one read ends: each message passed on has used up a byte, so one read of
  an engineer's socket hands at most as many messages to the user's link as it has bytes.\<close>

theorem engineer_msgs_bounded:
  "length (ch_to_user (fst (engineer_msgs cx me i k buf s))) \<le> length (ch_to_user s) + length buf"
proof (induction "length buf" arbitrary: buf k s rule: less_induct)
  case less
  obtain s1 rest out where r: "receive_slot cx (me_receive (me k)) i buf s = (s1, rest, out)"
    by (rule prod_cases3)
  have "s1 = fst (on_slot i (receive_message (cx_lib cx) (mav_env_of (cx_api cx) (me_receive (me k))) buf) s)"
    using r by (simp add: receive_slot_def)
  then have s1: "ch_to_user s1 = ch_to_user s"
    by simp
  have log: "ch_to_user (log_message cx (me k) m u) = ch_to_user u" for m u
    using core_log_message [of cx "me k" m u] by (simp add: core_def)
  show ?case
  proof (cases "buf = [] \<or> out = None")
    case True
    then show ?thesis
      using r s1 by (subst engineer_msgs.simps) auto
  next
    case False
    then obtain m where out: "out = Some m" and ne: "buf \<noteq> []"
      by auto
    have shorter: "length rest < length buf"
      using r out receive_slot_shorter by blast
    let ?s2 = "log_message cx (me k) m (upd_slot i (\<lambda>c. c\<lparr>c2_rx_msgs := c2_rx_msgs c + 1\<rparr>) s1)"
    let ?s3 = "fst (send_user cx (me_send (me k) 0) i m ?s2)"
    let ?s4 = "?s3\<lparr>ch_mav1_tx_msgs := ch_mav1_tx_msgs ?s3 + 1\<rparr>"
    have sent: "ch_to_user ?s3 = ch_to_user s @ [(i, m)]"
      by (simp add: send_user_def log s1)
    have "length (ch_to_user (fst (engineer_msgs cx me i (Suc k) rest ?s4))) \<le> length (ch_to_user ?s4) + length rest"
      by (rule less.hyps [OF shorter])
    moreover have "fst (engineer_msgs cx me i k buf s) =
        (if snd (send_user cx (me_send (me k) 0) i m ?s2) then fst (engineer_msgs cx me i (Suc k) rest ?s4) else ?s3)"
      using ne r out by (subst engineer_msgs.simps) (simp add: Let_def case_prod_beta split: bool.split)
    ultimately show ?thesis
      using shorter sent by simp
  qed
qed

end
