(* ===== verification/Listener_Props.thy ===== *)
theory Listener_Props
  imports Listener
begin

text \<open>
  The correctness of the parent process: the list mirrors \<open>keys.tdb\<close> after each reload, a pair that
  has a child or is removed holds no socket, descriptors are neither leaked nor closed twice, one
  child per signalled pair, and what a failed \<open>fork\<close> leads to.
\<close>

section \<open>Loops\<close>

lemma first_port_None: "first_port P f ps = None \<longleftrightarrow> (\<forall>p \<in> set ps. \<not> P p)"
  by (induction ps) (auto split: prod.splits option.splits)

lemma first_port_split:
  "(\<forall>a \<in> set as. \<not> P a) \<Longrightarrow> P p \<Longrightarrow>
    first_port P f (as @ p # bs) = Some (as @ fst (f p) # bs, snd (f p))"
  by (induction as) (auto split: prod.splits)

lemma first_port_SomeE:
  assumes "first_port P f ps = Some r"
  obtains as p bs where "ps = as @ p # bs" and "\<forall>a \<in> set as. \<not> P a" and "P p"
    and "r = (as @ fst (f p) # bs, snd (f p))"
proof -
  have "\<exists>p \<in> set ps. P p"
    using assms first_port_None [of P f ps] by auto
  then obtain as p bs where ps: "ps = as @ p # bs" "P p" "\<forall>a \<in> set as. \<not> P a"
    using split_list_first_prop [of ps P] by blast
  show ?thesis
    by (rule that [OF ps(1,3,2)]) (use assms first_port_split [OF ps(3,2), of f bs] ps(1) in simp)
qed

lemma find_map: "(\<And>p. P (g p) = P p) \<Longrightarrow> find P (map g ps) = map_option g (find P ps)"
  by (induction ps) auto

lemma find_update:
  assumes "\<forall>a \<in> set as. \<not> P a" and "P p" and "P p' \<longleftrightarrow> P p"
  shows "find P (as @ p' # bs) = Some p'" and "find P (as @ p # bs) = Some p"
  using assms by (induction as) auto

section \<open>The list and keys.tdb\<close>

definition entry_of :: "listen_port list \<Rightarrow> u32 \<Rightarrow> listen_port option" where
  "entry_of ps port2 = find (\<lambda>p. lp_port2 p = port2) ps"

lemma close_sockets_fields [frame_simps]:
  "lp_port1 (fst (close_sockets p)) = lp_port1 p" "lp_port2 (fst (close_sockets p)) = lp_port2 p"
  "lp_pid (fst (close_sockets p)) = lp_pid p" "lp_flags (fst (close_sockets p)) = lp_flags p"
  "lp_fc_sysid (fst (close_sockets p)) = lp_fc_sysid p" "lp_seen (fst (close_sockets p)) = lp_seen p"
  "lp_removed (fst (close_sockets p)) = lp_removed p"
  by (simp_all add: close_sockets_def case_prod_beta Let_def)

lemma open_sockets_fields [frame_simps]:
  "lp_port1 (fst (open_sockets env p)) = lp_port1 p" "lp_port2 (fst (open_sockets env p)) = lp_port2 p"
  "lp_pid (fst (open_sockets env p)) = lp_pid p" "lp_flags (fst (open_sockets env p)) = lp_flags p"
  "lp_fc_sysid (fst (open_sockets env p)) = lp_fc_sysid p" "lp_seen (fst (open_sockets env p)) = lp_seen p"
  "lp_removed (fst (open_sockets env p)) = lp_removed p"
  by (simp_all add: open_sockets_def case_prod_beta Let_def)

lemma held_close [simp]: "held (fst (close_sockets p)) = []"
  by (simp add: held_def socks_def close_sockets_def close_socket_def)

lemma open_slot_ok: "fd \<noteq> -1 \<Longrightarrow> - 1 \<noteq> fst (open_slot s fd)"
  by (auto simp: open_slot_def)

lemma open_sockets_all:
  assumes "\<forall>q sl. env q sl \<noteq> -1"
  shows "-1 \<notin> set (socks (fst (open_sockets env p)))"
proof -
  have "env p sl \<noteq> -1" for sl
    using assms by blast
  then show ?thesis
    by (simp add: open_sockets_def socks_def case_prod_beta Let_def open_slot_ok)
qed

lemma socks_frame [simp]:
  "socks (p\<lparr>lp_port1 := a\<rparr>) = socks p" "socks (p\<lparr>lp_flags := b\<rparr>) = socks p"
  "socks (p\<lparr>lp_fc_sysid := c\<rparr>) = socks p" "socks (p\<lparr>lp_seen := d\<rparr>) = socks p"
  "socks (p\<lparr>lp_removed := e\<rparr>) = socks p" "socks (p\<lparr>lp_pid := i\<rparr>) = socks p"
  by (simp_all add: socks_def)

lemma held_frame [simp]:
  "held (p\<lparr>lp_port1 := a\<rparr>) = held p" "held (p\<lparr>lp_flags := b\<rparr>) = held p"
  "held (p\<lparr>lp_fc_sysid := c\<rparr>) = held p" "held (p\<lparr>lp_seen := d\<rparr>) = held p"
  "held (p\<lparr>lp_removed := e\<rparr>) = held p" "held (p\<lparr>lp_pid := i\<rparr>) = held p"
  by (simp_all add: held_def)

lemma reconcile_fields:
  "lp_port2 (fst (reconcile env port1 flags fc p)) = lp_port2 p"
  "lp_pid (fst (reconcile env port1 flags fc p)) = lp_pid p"
  "lp_port1 (fst (reconcile env port1 flags fc p)) = port1"
  "lp_flags (fst (reconcile env port1 flags fc p)) = flags"
  "lp_fc_sysid (fst (reconcile env port1 flags fc p)) = fc"
  "lp_seen (fst (reconcile env port1 flags fc p))"
  "\<not> lp_removed (fst (reconcile env port1 flags fc p))"
  by (auto simp: reconcile_def Let_def case_prod_beta frame_simps)

lemma teardown_fields:
  "lp_port2 (fst (teardown p)) = lp_port2 p" "lp_pid (fst (teardown p)) = lp_pid p"
  "lp_port1 (fst (teardown p)) = lp_port1 p"
  "lp_removed (fst (teardown p)) \<longleftrightarrow> lp_removed p \<or> \<not> lp_seen p"
  by (auto simp: teardown_def case_prod_beta Let_def frame_simps)

lemma reopen_fields:
  "lp_port1 (fst (reopen env p)) = lp_port1 p" "lp_port2 (fst (reopen env p)) = lp_port2 p"
  "lp_pid (fst (reopen env p)) = lp_pid p" "lp_flags (fst (reopen env p)) = lp_flags p"
  "lp_fc_sysid (fst (reopen env p)) = lp_fc_sysid p" "lp_removed (fst (reopen env p)) = lp_removed p"
  by (simp_all add: reopen_def frame_simps)

text \<open>What a record makes of the entry of its port.\<close>

definition record_entry :: "sock_env \<Rightarrow> u32 \<Rightarrow> bytes \<Rightarrow> listen_port option \<Rightarrow> listen_port option" where
  "record_entry env port2 d old =
     (if length d < KEYENTRY_MIN_SIZE then old
      else let k = dec_KeyEntry (zero_pad sizeof_KeyEntry d) in
        Some (fst (case old of
            None \<Rightarrow> open_sockets env (new_port (ke_port1 k) port2 (ke_flags k) (ucast (ke_fc_sysid k)))
          | Some p \<Rightarrow> reconcile env (ke_port1 k) (ke_flags k) (ucast (ke_fc_sysid k)) p)))"

lemma new_port_port2 [simp]: "lp_port2 (new_port port1 port2 flags fc) = port2"
  by (simp add: new_port_def)

lemma upsert_port_of:
  "entry_of (fst (upsert_port env port1 port2 flags fc (ps, es))) x =
    (if x \<noteq> port2 then entry_of ps x
     else Some (fst (case entry_of ps port2 of
         None \<Rightarrow> open_sockets env (new_port port1 port2 flags fc)
       | Some p \<Rightarrow> reconcile env port1 flags fc p)))"
proof (cases "first_port (\<lambda>p. lp_port2 p = port2) (reconcile env port1 flags fc) ps")
  case None
  then have "entry_of ps port2 = None"
    by (simp add: first_port_None entry_of_def find_None_iff)
  then show ?thesis
    using None by (simp add: upsert_port_def entry_of_def case_prod_beta frame_simps)
next
  case (Some r)
  from Some show ?thesis
  proof (rule first_port_SomeE)
    fix as p bs
    assume ps: "ps = as @ p # bs" "\<forall>a \<in> set as. lp_port2 a \<noteq> port2" "lp_port2 p = port2"
      and r: "r = (as @ fst (reconcile env port1 flags fc p) # bs, snd (reconcile env port1 flags fc p))"
    have "entry_of ps port2 = Some p"
      using ps by (simp add: entry_of_def find_update)
    moreover have "entry_of (as @ fst (reconcile env port1 flags fc p) # bs) port2 =
        Some (fst (reconcile env port1 flags fc p))"
      using ps by (simp add: entry_of_def find_update reconcile_fields)
    moreover have "entry_of (as @ fst (reconcile env port1 flags fc p) # bs) x = entry_of ps x" if "x \<noteq> port2"
      using that ps by (induction as arbitrary: ps) (auto simp: entry_of_def reconcile_fields)
    ultimately show ?thesis
      using Some r by (simp add: upsert_port_def)
  qed
qed

interpretation reload_traversal: port_traversal "handle_record env" "\<lambda>st. entry_of (fst st)"
    "record_entry env" for env
proof unfold_locales
  fix k d and p :: u32 and st :: "listen_port list \<times> effects"
  obtain ps es where st: "st = (ps, es)" by (rule prod.exhaust)
  show "k \<noteq> port_key p \<Longrightarrow> entry_of (fst (handle_record env (k, d) st)) p = entry_of (fst st) p"
    using port_key_iff [of k p] by (auto simp: handle_record_def Let_def st upsert_port_of)
  show "entry_of (fst (handle_record env (port_key p, d) st)) p = record_entry env p d (entry_of (fst st) p)"
    using port_key_iff [of "port_key p" p]
    by (auto simp: handle_record_def record_entry_def Let_def st upsert_port_of)
qed

lemma each_port_of:
  assumes "\<And>p. lp_port2 (fst (f p)) = lp_port2 p"
  shows "entry_of (fst (each_port f ps)) port2 = map_option (\<lambda>p. fst (f p)) (entry_of ps port2)"
  using assms by (simp add: entry_of_def each_port_def find_map)

lemma run_ports_ports: "pa_ports (run_ports f s) = fst (f (pa_ports s))"
  by (simp add: run_ports_def case_prod_beta)

lemma record_entry_fields:
  assumes "KEYENTRY_MIN_SIZE \<le> length d" and "record_entry env port2 d old = Some p"
  shows "lp_port2 p = (case old of None \<Rightarrow> port2 | Some q \<Rightarrow> lp_port2 q)"
    and "lp_port1 p = ke_port1 (dec_KeyEntry (zero_pad sizeof_KeyEntry d))"
    and "lp_flags p = ke_flags (dec_KeyEntry (zero_pad sizeof_KeyEntry d))"
    and "lp_fc_sysid p = ucast (ke_fc_sysid (dec_KeyEntry (zero_pad sizeof_KeyEntry d)))"
    and "lp_seen p" and "\<not> lp_removed p"
    and "lp_pid p = (case old of None \<Rightarrow> 0 | Some q \<Rightarrow> lp_pid q)"
  using assms
  by (auto simp: record_entry_def Let_def frame_simps new_port_def reconcile_fields split: option.splits)

definition unseen :: "listen_port \<Rightarrow> listen_port \<times> effects" where
  "unseen p = (p\<lparr>lp_seen := False\<rparr>, [])"

lemma reload_ports_of:
  assumes "tdb api saved in_txn" and "tdb_transaction_start api db = (t, True)"
    and "reload_ports api (Some db) env env' s = Some s'"
  shows "entry_of (pa_ports s') port2 =
    map_option (\<lambda>p. fst (reopen env' (fst (teardown p))))
      (let old = map_option (\<lambda>p. p\<lparr>lp_seen := False\<rparr>) (entry_of (pa_ports s) port2)
       in case tdb_fetch api db (port_key port2) of None \<Rightarrow> old | Some d \<Rightarrow> record_entry env port2 d old)"
proof -
  have unseen: "entry_of (fst (each_port (\<lambda>p. (p\<lparr>lp_seen := False\<rparr>, [])) ps)) port2 =
      map_option (\<lambda>p. p\<lparr>lp_seen := False\<rparr>) (entry_of ps port2)" for ps
    by (subst each_port_of) simp_all
  have "tdb_fetch api t = tdb_fetch api db"
    using tdb.start_ok [OF assms(1,2)] by simp
  then have "entry_of (fst (traverse_keys api t env ps)) port2 =
      (case tdb_fetch api db (port_key port2) of None \<Rightarrow> entry_of ps port2 | Some d \<Rightarrow> record_entry env port2 d (entry_of ps port2))" for ps
    using reload_traversal.fold_view [OF tdb.traverse_distinct [OF assms(1), of t], of env "(ps, [])" port2]
    by (cases "tdb_fetch api db (port_key port2)")
      (simp_all add: traverse_keys_def tdb.traverse_all [OF assms(1)])
  moreover have "t = fst (tdb_transaction_start api db)"
    using assms(2) by simp
  ultimately show ?thesis
    using assms(3)
    by (auto simp: reload_ports_def db_open_transaction_def db_open_def Let_def run_ports_ports
        each_port_of teardown_fields reopen_fields unseen option.map_comp comp_def split: option.split)
qed


section \<open>Descriptors, children and signals\<close>

definition opened_fds :: "effects \<Rightarrow> int multiset" where
  "opened_fds es = mset (concat (map (\<lambda>e. case e of Sock_opened fd \<Rightarrow> [fd] | _ \<Rightarrow> []) es))"

definition closed_fds :: "effects \<Rightarrow> int multiset" where
  "closed_fds es = mset (concat (map (\<lambda>e. case e of Sock_closed fd \<Rightarrow> [fd] | _ \<Rightarrow> []) es))"

definition held_fds :: "listen_port list \<Rightarrow> int multiset" where
  "held_fds ps = mset (concat (map held ps))"

text \<open>The answers of the forks made for a pair.\<close>

definition forked :: "effects \<Rightarrow> u32 \<Rightarrow> int set" where
  "forked es port2 = {pid. Forked_child port2 pid \<in> set es}"

definition killed :: "effects \<Rightarrow> int set" where
  "killed es = {pid. Killed pid \<in> set es}"

lemma fds_append [simp]:
  "opened_fds (es @ es') = opened_fds es + opened_fds es'"
  "closed_fds (es @ es') = closed_fds es + closed_fds es'"
  "forked (es @ es') port2 = forked es port2 \<union> forked es' port2"
  "killed (es @ es') = killed es \<union> killed es'"
  by (auto simp: opened_fds_def closed_fds_def forked_def killed_def)

lemma fds_cons [simp]:
  "opened_fds (e # es) = (case e of Sock_opened fd \<Rightarrow> {#fd#} | _ \<Rightarrow> {#}) + opened_fds es"
  "closed_fds (e # es) = (case e of Sock_closed fd \<Rightarrow> {#fd#} | _ \<Rightarrow> {#}) + closed_fds es"
  "forked (e # es) port2 = (case e of Forked_child q pid \<Rightarrow> if q = port2 then {pid} else {} | _ \<Rightarrow> {}) \<union> forked es port2"
  "killed (e # es) = (case e of Killed pid \<Rightarrow> {pid} | _ \<Rightarrow> {}) \<union> killed es"
  by (auto simp: opened_fds_def closed_fds_def forked_def killed_def split: parent_effect.splits)

lemma fds_nil [simp]: "opened_fds [] = {#}" "closed_fds [] = {#}" "forked [] port2 = {}" "killed [] = {}"
  by (auto simp: opened_fds_def closed_fds_def forked_def killed_def)

lemma held_fds_simps [simp]:
  "held_fds [] = {#}" "held_fds (p # ps) = mset (held p) + held_fds ps"
  "held_fds (ps @ qs) = held_fds ps + held_fds qs"
  by (simp_all add: held_fds_def)

text \<open>A pair that has a child or is removed holds no socket.\<close>

definition quiet :: "listen_port \<Rightarrow> bool" where
  "quiet p \<longleftrightarrow> (\<not> listening p \<longrightarrow> held p = [])"

definition ports_inv :: "listen_port list \<times> effects \<Rightarrow> bool" where
  "ports_inv st \<longleftrightarrow> (case st of (ps, es) \<Rightarrow>
     distinct (map lp_port2 ps) \<and> (\<forall>p \<in> set ps. quiet p)
     \<and> opened_fds es = closed_fds es + held_fds ps
     \<and> (\<forall>p \<in> set ps. lp_pid p \<noteq> 0 \<longrightarrow> lp_pid p \<in> forked es (lp_port2 p))
     \<and> killed es \<subseteq> \<Union> (range (forked es)))"

text \<open>The contract of what the parent does with one pair.\<close>

locale port_op =
  fixes f :: "listen_port \<Rightarrow> listen_port \<times> effects"
  assumes keeps_port2: "lp_port2 (fst (f p)) = lp_port2 p"
    and keeps_quiet: "quiet p \<Longrightarrow> quiet (fst (f p))"
    and balance: "opened_fds (snd (f p)) + mset (held p) = closed_fds (snd (f p)) + mset (held (fst (f p)))"
    and pid_source: "lp_pid (fst (f p)) \<in> {0, lp_pid p} \<union> forked (snd (f p)) (lp_port2 p)"
    and forks_own: "port2 \<noteq> lp_port2 p \<Longrightarrow> forked (snd (f p)) port2 = {}"
    and kills_own: "killed (snd (f p)) \<subseteq> {lp_pid p} - {0}"
begin

lemma update_inv:
  assumes "ports_inv (as @ p # bs, es)"
  shows "ports_inv (as @ fst (f p) # bs, es @ snd (f p))"
proof -
  from assms have pre: "opened_fds es = closed_fds es + (held_fds as + (mset (held p) + held_fds bs))"
    and pid: "lp_pid p \<noteq> 0 \<longrightarrow> lp_pid p \<in> forked es (lp_port2 p)"
    and "killed es \<subseteq> \<Union> (range (forked es))"
    by (auto simp: ports_inv_def)
  have "opened_fds (es @ snd (f p)) =
      closed_fds es + held_fds as + held_fds bs + (opened_fds (snd (f p)) + mset (held p))"
    using pre by (simp add: ac_simps)
  then have bal: "opened_fds (es @ snd (f p)) = closed_fds (es @ snd (f p)) + held_fds (as @ fst (f p) # bs)"
    unfolding balance by (simp add: ac_simps)
  have "killed (es @ snd (f p)) \<subseteq> \<Union> (range (forked (es @ snd (f p))))"
    using kills_own [of p] pid \<open>killed es \<subseteq> \<Union> (range (forked es))\<close> by fastforce
  moreover have "lp_pid (fst (f p)) \<noteq> 0 \<longrightarrow> lp_pid (fst (f p)) \<in> forked (es @ snd (f p)) (lp_port2 (fst (f p)))"
    using pid_source [of p] pid by (auto simp: keeps_port2)
  ultimately show ?thesis
    using assms bal keeps_quiet [of p] by (auto simp: ports_inv_def keeps_port2)
qed

end

lemma close_sockets_effects:
  "opened_fds (snd (close_sockets p)) = {#}" "closed_fds (snd (close_sockets p)) = mset (held p)"
  "forked (snd (close_sockets p)) port2 = {}" "killed (snd (close_sockets p)) = {}"
  by (simp_all add: close_sockets_def close_socket_def held_def socks_def)

lemma open_sockets_effects:
  "opened_fds (snd (open_sockets env p)) + mset (held p) = mset (held (fst (open_sockets env p)))"
  "closed_fds (snd (open_sockets env p)) = {#}"
  "forked (snd (open_sockets env p)) port2 = {}" "killed (snd (open_sockets env p)) = {}"
  by (simp_all add: open_sockets_def open_slot_def held_def socks_def)

lemma listening_frame [simp]:
  "listening (p\<lparr>lp_port1 := a\<rparr>) = listening p" "listening (p\<lparr>lp_flags := b\<rparr>) = listening p"
  "listening (p\<lparr>lp_fc_sysid := c\<rparr>) = listening p" "listening (p\<lparr>lp_seen := d\<rparr>) = listening p"
  by (simp_all add: listening_def)

lemmas port_effects = close_sockets_effects open_sockets_effects frame_simps

lemma quiet_closed: "held p = [] \<Longrightarrow> quiet p"
  by (simp add: quiet_def)

lemma quiet_held: "quiet p \<Longrightarrow> lp_removed p \<or> lp_pid p \<noteq> 0 \<Longrightarrow> held p = []"
  by (auto simp: quiet_def listening_def)

interpretation op_unseen: port_op "\<lambda>p. (p\<lparr>lp_seen := False\<rparr>, [])"
  by unfold_locales (simp_all add: quiet_def)

interpretation op_reopen: port_op "reopen env" for env
  by unfold_locales (simp_all add: reopen_def port_effects quiet_def listening_def)

interpretation op_teardown: port_op teardown
  by unfold_locales
    (auto simp: teardown_def case_prod_beta Let_def port_effects quiet_closed)

interpretation op_connect: port_op "handle_connection fork" for fork
  by unfold_locales
    (simp_all add: handle_connection_def case_prod_beta Let_def port_effects quiet_closed)

interpretation op_exited: port_op "child_exited env" for env
proof unfold_locales
  fix p
  show "quiet p \<Longrightarrow> quiet (fst (child_exited env p))"
    using quiet_held [of p] by (auto simp: child_exited_def case_prod_beta Let_def port_effects quiet_def listening_def)
  show "opened_fds (snd (child_exited env p)) + mset (held p) =
      closed_fds (snd (child_exited env p)) + mset (held (fst (child_exited env p)))"
    using open_sockets_effects(1) [of env "p\<lparr>lp_pid := 0\<rparr>"]
    by (simp add: child_exited_def case_prod_beta Let_def port_effects)
qed (simp_all add: child_exited_def case_prod_beta Let_def port_effects)

interpretation op_reconcile: port_op "reconcile env port1 flags fc" for env port1 flags fc
proof unfold_locales
  fix p
  show "quiet p \<Longrightarrow> quiet (fst (reconcile env port1 flags fc p))"
    using quiet_held [of p]
    by (auto simp: reconcile_def Let_def case_prod_beta port_effects quiet_def listening_def)
  show "opened_fds (snd (reconcile env port1 flags fc p)) + mset (held p) =
      closed_fds (snd (reconcile env port1 flags fc p)) + mset (held (fst (reconcile env port1 flags fc p)))"
    using open_sockets_effects(1) [of env "p\<lparr>lp_seen := True, lp_removed := False, lp_port1 := port1, lp_flags := flags, lp_fc_sysid := fc\<rparr>"]
      open_sockets_effects(1) [of env "fst (close_sockets (p\<lparr>lp_seen := True\<rparr>))\<lparr>lp_port1 := port1, lp_flags := flags, lp_fc_sysid := fc\<rparr>"]
    by (auto simp: reconcile_def Let_def case_prod_beta port_effects)
qed (auto simp: reconcile_def case_prod_beta Let_def port_effects)

section \<open>Runs of the parent\<close>

text \<open>
  A property of the list and the effects so far that each operation on one entry keeps, in the
  situations in which the parent performs it: then every run keeps it.
\<close>

locale parent_list_inv =
  fixes I :: "listen_port list \<times> effects \<Rightarrow> bool"
  assumes inv_unseen: "I (as @ p # bs, es) \<Longrightarrow> I (as @ p\<lparr>lp_seen := False\<rparr> # bs, es)"
    and inv_reopen: "I (as @ p # bs, es) \<Longrightarrow> I (as @ fst (reopen env p) # bs, es @ snd (reopen env p))"
    and inv_teardown: "I (as @ p # bs, es) \<Longrightarrow> I (as @ fst (teardown p) # bs, es @ snd (teardown p))"
    and inv_reconcile: "I (as @ p # bs, es) \<Longrightarrow>
      I (as @ fst (reconcile env port1 flags fc p) # bs, es @ snd (reconcile env port1 flags fc p))"
    and inv_fresh: "I (ps, es) \<Longrightarrow> port2 \<notin> lp_port2 ` set ps \<Longrightarrow>
      I (fst (open_sockets env (new_port port1 port2 flags fc)) # ps,
         es @ snd (open_sockets env (new_port port1 port2 flags fc)))"
    and inv_connect: "I (as @ p # bs, es) \<Longrightarrow> listening p \<Longrightarrow>
      I (as @ fst (handle_connection fork p) # bs, es @ snd (handle_connection fork p))"
    and inv_exited: "I (as @ p # bs, es) \<Longrightarrow> 0 < lp_pid p \<Longrightarrow>
      I (as @ fst (child_exited env p) # bs, es @ snd (child_exited env p))"
    and inv_cleanup: "I (ps, es) \<Longrightarrow> I (ps, es @ [Forked_cleanup pid])"
begin

lemma each_port_inv:
  assumes "\<And>as p bs es. I (as @ p # bs, es) \<Longrightarrow> I (as @ fst (f p) # bs, es @ snd (f p))"
    and "I (as @ ps, es)"
  shows "I (as @ fst (each_port f ps), es @ snd (each_port f ps))"
  using assms(2)
proof (induction ps arbitrary: as es)
  case Nil
  then show ?case by (simp add: each_port_def)
next
  case (Cons p ps)
  show ?case
    using Cons.IH [of "as @ [fst (f p)]" "es @ snd (f p)"] assms(1) [OF Cons.prems]
    by (simp add: each_port_def)
qed

lemma first_port_inv:
  assumes "\<And>as p bs. I (as @ p # bs, es) \<Longrightarrow> P p \<Longrightarrow> I (as @ fst (f p) # bs, es @ snd (f p))"
    and "I (ps, es)"
  shows "I (fst (case first_port P f ps of None \<Rightarrow> (ps, []) | Some r \<Rightarrow> r),
    es @ snd (case first_port P f ps of None \<Rightarrow> (ps, []) | Some r \<Rightarrow> r))"
proof (cases "first_port P f ps")
  case (Some r)
  then show ?thesis
    by (rule first_port_SomeE) (use Some assms in auto)
qed (use assms(2) in simp)

lemma upsert_inv:
  assumes "I st"
  shows "I (upsert_port env port1 port2 flags fc st)"
proof -
  obtain ps es where st: "st = (ps, es)" by (rule prod.exhaust)
  show ?thesis
  proof (cases "first_port (\<lambda>p. lp_port2 p = port2) (reconcile env port1 flags fc) ps")
    case None
    then have "port2 \<notin> lp_port2 ` set ps"
      by (auto simp: first_port_None)
    then show ?thesis
      using None inv_fresh assms by (simp add: upsert_port_def st case_prod_beta)
  next
    case (Some r)
    then show ?thesis
      using first_port_inv [where f = "reconcile env port1 flags fc" and P = "\<lambda>p. lp_port2 p = port2"
          and ps = ps and es = es, OF inv_reconcile] assms
      by (simp add: upsert_port_def st case_prod_beta)
  qed
qed

lemma traverse_keys_inv:
  assumes "I (ps, es)"
  shows "I (fst (traverse_keys api db env ps), es @ snd (traverse_keys api db env ps))"
proof -
  have shift: "handle_record env r (qs, es @ es') = (fst (handle_record env r (qs, es')), es @ snd (handle_record env r (qs, es')))"
    for r qs es'
    by (auto simp: handle_record_def upsert_port_def Let_def split: prod.splits option.splits)
  have "fold (handle_record env) rs (qs, es @ es') =
      (fst (fold (handle_record env) rs (qs, es')), es @ snd (fold (handle_record env) rs (qs, es')))" for rs qs es'
  proof (induction rs arbitrary: qs es')
    case Nil
    show ?case by simp
  next
    case (Cons r rs)
    show ?case
      using Cons.IH [of "fst (handle_record env r (qs, es'))" "snd (handle_record env r (qs, es'))"]
      by (simp add: shift)
  qed
  from this [of "tdb_traverse api db" ps "[]"]
  have "(fst (traverse_keys api db env ps), es @ snd (traverse_keys api db env ps)) =
      fold (handle_record env) (tdb_traverse api db) (ps, es)"
    by (simp add: traverse_keys_def)
  moreover have "I st \<Longrightarrow> I (handle_record env r st)" for r st
    by (cases r) (auto simp: handle_record_def Let_def upsert_inv)
  then have "I st \<Longrightarrow> I (fold (handle_record env) rs st)" for rs st
    by (induction rs arbitrary: st) auto
  ultimately show ?thesis
    using assms by simp
qed

abbreviation inv_of :: "parent \<Rightarrow> bool" where
  "inv_of s \<equiv> I (pa_ports s, pa_effects s)"

lemma run_ports_inv:
  assumes "inv_of s"
    and "\<And>ps es. I (ps, es) \<Longrightarrow> I (fst (f ps), es @ snd (f ps))"
  shows "inv_of (run_ports f s)"
  using assms by (simp add: run_ports_def case_prod_beta)

lemma loop_inv:
  assumes "inv_of s"
    and "\<And>as p bs es. I (as @ p # bs, es) \<Longrightarrow> I (as @ fst (f p) # bs, es @ snd (f p))"
  shows "inv_of (run_ports (each_port f) s)"
  using assms(1) by (rule run_ports_inv) (use each_port_inv [where as = "[]", OF assms(2)] in simp)

lemma reload_ports_inv:
  assumes "inv_of s" and "reload_ports api opened env env' s = Some s'"
  shows "inv_of s'"
proof -
  have "inv_of (run_ports (each_port (\<lambda>p. (p\<lparr>lp_seen := False\<rparr>, []))) s)"
    using assms(1) by (rule loop_inv) (simp add: inv_unseen)
  then have "inv_of (run_ports (traverse_keys api db env) (run_ports (each_port (\<lambda>p. (p\<lparr>lp_seen := False\<rparr>, []))) s))" for db
    by (rule run_ports_inv) (rule traverse_keys_inv)
  then have "inv_of (run_ports (each_port teardown)
      (run_ports (traverse_keys api db env) (run_ports (each_port (\<lambda>p. (p\<lparr>lp_seen := False\<rparr>, []))) s)))" for db
    by (rule loop_inv) (rule inv_teardown)
  then have "inv_of (run_ports (each_port (reopen env')) (run_ports (each_port teardown)
      (run_ports (traverse_keys api db env) (run_ports (each_port (\<lambda>p. (p\<lparr>lp_seen := False\<rparr>, []))) s))))" for db
    by (rule loop_inv) (rule inv_reopen)
  then show ?thesis
    using assms(2) by (auto simp: reload_ports_def Let_def split: option.splits)
qed

lemma check_children_inv: "inv_of s \<Longrightarrow> inv_of (check_children env reaped s)"
proof (induction env reaped s rule: check_children.induct)
  case (1 env s)
  then show ?case by simp
next
  case (2 env pid refork reaped s)
  have cleanup: "inv_of (fork_cleanup_child refork s)" if "inv_of s" for s
    using that by (auto simp: fork_cleanup_child_def inv_cleanup)
  have "inv_of (run_ports (\<lambda>ps. case first_port (\<lambda>p. lp_pid p = pid) (child_exited env) ps of
      None \<Rightarrow> (ps, []) | Some r \<Rightarrow> r) s)" if "0 < pid"
    using "2.prems" by (rule run_ports_inv) (rule first_port_inv, use that inv_exited in auto)
  then show ?case
    using 2 cleanup by simp
qed

lemma wait_round_inv:
  assumes "inv_of s" and "wait_round api ev s = Some s'"
  shows "inv_of s'"
proof -
  have "inv_of (run_ports (dispatch fork fd) t)" if "inv_of t" for fork fd t
    unfolding dispatch_def using that by (rule run_ports_inv) (rule first_port_inv, use inv_connect in auto)
  then have "inv_of (fold (\<lambda>fd. run_ports (dispatch fork fd)) fds t)" if "inv_of t" for fork fds t
    using that by (induction fds arbitrary: t) auto
  moreover have "inv_of t'"
    if "reload_ports api opened env env' (check_children env0 reaped s\<lparr>pa_last_reload := now\<rparr>) = Some t'"
    for opened env env' env0 reaped now t'
    by (rule reload_ports_inv [OF _ that]) (simp add: check_children_inv assms(1))
  ultimately show ?thesis
    using assms check_children_inv
    by (auto simp: wait_round_def Let_def rebuild_epoll_set_def split: wait_event.splits if_splits)
qed

lemma wait_rounds_inv: "inv_of s \<Longrightarrow> wait_rounds api evs s = Some s' \<Longrightarrow> inv_of s'"
  by (induction evs arbitrary: s) (auto split: option.splits intro: wait_round_inv)

lemma main_start_inv:
  assumes "I ([], [Conn_recreated])" and "main_start api opened env cpid now = Some s"
  shows "inv_of s"
proof -
  obtain db ps es where "db_open_transaction api opened = Some db"
    and t: "traverse_keys api db env [] = (ps, es)"
    using assms(2) by (auto simp: main_start_def split: option.splits prod.splits)
  then have "pa_ports s = ps" and "pa_effects s = Conn_recreated # es @ (if cpid < 0 then [] else [Forked_cleanup cpid])"
    using assms(2) by (auto simp: main_start_def rebuild_epoll_set_def fork_cleanup_child_def)
  moreover have "I (ps, Conn_recreated # es)"
    using traverse_keys_inv [OF assms(1), of api db env] t by simp
  ultimately show ?thesis
    using inv_cleanup [of ps "Conn_recreated # es"] by auto
qed

end

lemma new_port_inv:
  assumes "ports_inv (ps, es)" and "port2 \<notin> lp_port2 ` set ps"
  shows "ports_inv (fst (open_sockets env (new_port port1 port2 flags fc)) # ps,
    es @ snd (open_sockets env (new_port port1 port2 flags fc)))"
proof -
  let ?p = "new_port port1 port2 flags fc"
  have new: "listening ?p" "held ?p = []" "lp_pid ?p = 0" "\<not> lp_removed ?p"
    by (simp_all add: new_port_def listening_def held_def socks_def)
  then have "opened_fds (snd (open_sockets env ?p)) = mset (held (fst (open_sockets env ?p)))"
    using open_sockets_effects(1) [of env ?p] by simp
  then show ?thesis
    using assms new by (auto simp: ports_inv_def port_effects quiet_def listening_def)
qed

interpretation ports: parent_list_inv ports_inv
proof unfold_locales
  fix ps es pid
  show "ports_inv (ps, es) \<Longrightarrow> ports_inv (ps, es @ [Forked_cleanup pid])"
    by (auto simp: ports_inv_def)
qed (simp_all add: op_reopen.update_inv op_teardown.update_inv op_reconcile.update_inv
    op_connect.update_inv op_exited.update_inv new_port_inv op_unseen.update_inv [simplified])


section \<open>One child per signalled pair\<close>

definition signalled :: "int set \<Rightarrow> listen_port \<Rightarrow> bool" where
  "signalled fds p \<longleftrightarrow> listening p \<and> fds \<inter> set (held p) \<noteq> {}"

definition connect_if :: "(listen_port \<Rightarrow> int) \<Rightarrow> int set \<Rightarrow> listen_port \<Rightarrow> listen_port" where
  "connect_if fork fds p = (if signalled fds p then fst (handle_connection fork p) else p)"

definition fork_events :: "effects \<Rightarrow> effects" where
  "fork_events es = filter (\<lambda>e. case e of Forked_child _ _ \<Rightarrow> True | _ \<Rightarrow> False) es"

lemma fork_events_append [simp]: "fork_events (es @ es') = fork_events es @ fork_events es'"
  by (simp add: fork_events_def)

lemma fork_events_close: "fork_events (snd (close_sockets p)) = []"
  by (simp add: fork_events_def close_sockets_def close_socket_def)

lemma fork_events_connect: "fork_events (snd (handle_connection fork p)) = [Forked_child (lp_port2 p) (fork p)]"
  using fork_events_close [of "p\<lparr>lp_pid := fork p\<rparr>"]
  by (simp add: handle_connection_def case_prod_beta Let_def) (simp add: fork_events_def)

lemma handle_connection_fields:
  "lp_pid (fst (handle_connection fork p)) = fork p" "held (fst (handle_connection fork p)) = []"
  "lp_port2 (fst (handle_connection fork p)) = lp_port2 p"
  by (simp_all add: handle_connection_def case_prod_beta Let_def frame_simps)

lemma dispatch_one:
  assumes "distinct (concat (map held ps))" and "fd \<noteq> -1"
  shows "fst (dispatch fork fd ps) = map (connect_if fork {fd}) ps"
    and "fork_events (snd (dispatch fork fd ps)) =
      map (\<lambda>p. Forked_child (lp_port2 p) (fork p)) (filter (signalled {fd}) ps)"
proof -
  have held: "fd \<in> set (held p) \<longleftrightarrow> fd \<in> set (socks p)" for p
    using assms(2) by (simp add: held_def)
  have "fst (dispatch fork fd ps) = map (connect_if fork {fd}) ps \<and>
    fork_events (snd (dispatch fork fd ps)) =
      map (\<lambda>p. Forked_child (lp_port2 p) (fork p)) (filter (signalled {fd}) ps)"
  proof (cases "first_port (\<lambda>p. listening p \<and> fd \<in> set (socks p)) (handle_connection fork) ps")
    case None
    then have "\<not> signalled {fd} p" if "p \<in> set ps" for p
      using that by (auto simp: first_port_None signalled_def held)
    then have "map (connect_if fork {fd}) ps = ps" and "filter (signalled {fd}) ps = []"
      by (auto simp: connect_if_def map_idI filter_empty_conv)
    then show ?thesis
      using None by (simp add: dispatch_def fork_events_def)
  next
    case (Some r)
    then obtain as p bs where ps: "ps = as @ p # bs" and as: "\<forall>a \<in> set as. \<not> signalled {fd} a"
      and p: "signalled {fd} p"
      and r: "r = (as @ fst (handle_connection fork p) # bs, snd (handle_connection fork p))"
      by (rule first_port_SomeE) (auto simp: signalled_def held)
    have "\<forall>b \<in> set bs. \<not> signalled {fd} b"
      using assms(1) p by (auto simp: ps signalled_def)
    then have "map (connect_if fork {fd}) as = as" "map (connect_if fork {fd}) bs = bs"
      "filter (signalled {fd}) as = []" "filter (signalled {fd}) bs = []"
      using as by (auto simp: connect_if_def map_idI filter_empty_conv)
    then show ?thesis
      using Some p by (simp add: dispatch_def r ps fork_events_connect connect_if_def)
  qed
  then show "fst (dispatch fork fd ps) = map (connect_if fork {fd}) ps"
    and "fork_events (snd (dispatch fork fd ps)) =
      map (\<lambda>p. Forked_child (lp_port2 p) (fork p)) (filter (signalled {fd}) ps)"
    by auto
qed

lemma connect_if_compose:
  "\<forall>p. fork p \<noteq> 0 \<Longrightarrow> connect_if fork fds (connect_if fork {fd} p) = connect_if fork (insert fd fds) p"
  "\<forall>p. fork p \<noteq> 0 \<Longrightarrow> signalled fds (connect_if fork {fd} p) \<longleftrightarrow> signalled fds p \<and> \<not> signalled {fd} p"
  "\<not> signalled {fd} p \<Longrightarrow> connect_if fork {fd} p = p"
  "signalled (insert fd fds) p \<longleftrightarrow> signalled {fd} p \<or> signalled fds p"
  by (auto simp: connect_if_def signalled_def handle_connection_fields listening_def)

lemma distinct_connect:
  "distinct (concat (map held ps)) \<Longrightarrow> distinct (concat (map held (map (connect_if fork fds) ps)))"
proof (induction ps)
  case Nil
  then show ?case by simp
next
  case (Cons p ps)
  have "set (concat (map held (map (connect_if fork fds) ps))) \<subseteq> set (concat (map held ps))"
    by (auto simp: connect_if_def handle_connection_fields split: if_splits)
  moreover have cases: "held (connect_if fork fds p) = [] \<or> held (connect_if fork fds p) = held p"
    by (simp add: connect_if_def handle_connection_fields)
  moreover have "set (held p) \<inter> set (concat (map held ps)) = {}"
    using Cons.prems by simp
  ultimately have "set (held (connect_if fork fds p)) \<inter> set (concat (map held (map (connect_if fork fds) ps))) = {}"
    by fastforce
  moreover have "distinct (held (connect_if fork fds p))"
    using Cons.prems cases by auto
  ultimately show ?case
    using Cons by simp
qed

lemma signalled_split:
  assumes "\<forall>p. fork p \<noteq> 0"
  shows "mset (map F (filter (signalled {fd}) ps)) + mset (map F (filter (signalled fds) (map (connect_if fork {fd}) ps)))
    = mset (map F (filter (signalled (insert fd fds)) ps))"
proof (induction ps)
  case Nil
  then show ?case by simp
next
  case (Cons p ps)
  show ?case
    using Cons connect_if_compose(2) [OF assms, of fds fd p] connect_if_compose(3) [of fd p fork]
      connect_if_compose(4) [of fd fds p]
    by (cases "signalled {fd} p"; cases "signalled fds p") (simp_all del: mset_map mset_filter)
qed

text \<open>
  C34: The events of one \<open>epoll_wait\<close> fork exactly one child for each idle pair that has a
  signalled socket, however many of its sockets are signalled, close that pair's sockets in the
  parent, and touch no other pair.\<close>

theorem wait_events_one_child_each:
  assumes "wait_round api (Wait_events fds fork) s = Some s'"
    and "distinct (concat (map held (pa_ports s)))" and "-1 \<notin> set fds" and "\<forall>p. fork p \<noteq> 0"
  shows "pa_ports s' = map (connect_if fork (set fds)) (pa_ports s)
    \<and> mset (fork_events (pa_effects s')) = mset (fork_events (pa_effects s))
        + mset (map (\<lambda>p. Forked_child (lp_port2 p) (fork p)) (filter (signalled (set fds)) (pa_ports s)))"
proof -
  let ?F = "\<lambda>p. Forked_child (lp_port2 p) (fork p)"
  have s': "s' = fold (\<lambda>fd. run_ports (dispatch fork fd)) fds s"
    using assms(1) by (simp add: wait_round_def)
  show ?thesis
    using assms(2,3) unfolding s'
  proof (induction fds arbitrary: s)
    case Nil
    then show ?case
      by (simp add: connect_if_def [abs_def] signalled_def)
  next
    case (Cons fd fds)
    let ?t = "run_ports (dispatch fork fd) s"
    have ports: "pa_ports ?t = map (connect_if fork {fd}) (pa_ports s)"
      and evs: "fork_events (pa_effects ?t) =
        fork_events (pa_effects s) @ map ?F (filter (signalled {fd}) (pa_ports s))"
      using dispatch_one [OF Cons.prems(1), of fd fork] Cons.prems(2)
      by (simp_all add: run_ports_def case_prod_beta)
    have "distinct (concat (map held (pa_ports ?t)))"
      unfolding ports by (rule distinct_connect [OF Cons.prems(1)])
    from Cons.IH [OF this] Cons.prems(2) show ?case
      unfolding ports evs
      using signalled_split [OF assms(4), of ?F fd "pa_ports s" "set fds"]
      by (simp add: connect_if_compose(1) [OF assms(4)] comp_def)
  qed
qed

section \<open>A failed fork\<close>

definition fork_log :: "effects \<Rightarrow> u32 \<Rightarrow> int list" where
  "fork_log es port2 =
     concat (map (\<lambda>e. case e of Forked_child q pid \<Rightarrow> if q = port2 then [pid] else [] | _ \<Rightarrow> []) es)"

lemma fork_log_append [simp]: "fork_log (es @ es') port2 = fork_log es port2 @ fork_log es' port2"
  by (simp add: fork_log_def)

lemma fork_log_Nil: "fork_log es port2 = [] \<longleftrightarrow> forked es port2 = {}"
  by (auto simp: fork_log_def forked_def split: parent_effect.splits)

text \<open>
  The pair's entry holds the answer -1 of \<open>fork\<close> as its child, and \<open>log\<close> is what \<open>fork\<close> has
  answered for the pair so far.
\<close>

definition stranded :: "u32 \<Rightarrow> u32 \<Rightarrow> int list \<Rightarrow> listen_port list \<times> effects \<Rightarrow> bool" where
  "stranded port2 port1 log st \<longleftrightarrow> (case st of (ps, es) \<Rightarrow>
     distinct (map lp_port2 ps) \<and> fork_log es port2 = log
     \<and> (\<exists>p \<in> set ps. lp_port2 p = port2 \<and> lp_pid p = -1 \<and> held p = []
          \<and> (lp_removed p \<or> lp_port1 p \<noteq> port1 \<longrightarrow> Killed (-1) \<in> set es)))"

lemma stranded_update:
  assumes "port_op f" and inv: "stranded port2 port1 log (as @ q # bs, es)"
    and keep: "lp_port2 q = port2 \<Longrightarrow> lp_pid q = -1 \<Longrightarrow> held q = [] \<Longrightarrow>
      lp_pid (fst (f q)) = -1 \<and> held (fst (f q)) = [] \<and> forked (snd (f q)) port2 = {}
      \<and> (lp_removed (fst (f q)) \<or> lp_port1 (fst (f q)) \<noteq> port1 \<longrightarrow>
          lp_removed q \<or> lp_port1 q \<noteq> port1 \<or> Killed (-1) \<in> set (snd (f q)))"
  shows "stranded port2 port1 log (as @ fst (f q) # bs, es @ snd (f q))"
proof -
  note port2 = port_op.keeps_port2 [OF assms(1), of q]
  from inv have dist: "distinct (map lp_port2 (as @ q # bs))" and log: "fork_log es port2 = log"
    by (simp_all add: stranded_def)
  from inv obtain p where p: "p \<in> set (as @ q # bs)" "lp_port2 p = port2" "lp_pid p = -1" "held p = []"
    and killed: "lp_removed p \<or> lp_port1 p \<noteq> port1 \<longrightarrow> Killed (-1) \<in> set es"
    by (auto simp: stranded_def)
  show ?thesis
  proof (cases "p = q")
    case True
    then show ?thesis
      using keep p killed dist log port2 by (auto simp: stranded_def fork_log_Nil)
  next
    case False
    then have "lp_port2 q \<noteq> port2"
      using p dist by (auto simp: image_iff)
    then have "fork_log (snd (f q)) port2 = []"
      using port_op.forks_own [OF assms(1), of port2 q] by (simp add: fork_log_Nil)
    then show ?thesis
      using False p killed dist log port2 by (auto simp: stranded_def)
  qed
qed

interpretation stranded: parent_list_inv "stranded port2 port1 log" for port2 port1 log
proof unfold_locales
  fix as p bs es
  assume inv: "stranded port2 port1 log (as @ p # bs, es)"
  show "stranded port2 port1 log (as @ p\<lparr>lp_seen := False\<rparr> # bs, es)"
    using stranded_update [OF op_unseen.port_op_axioms inv] by simp
  show "stranded port2 port1 log (as @ fst (reopen env p) # bs, es @ snd (reopen env p))" for env
    by (rule stranded_update [OF op_reopen.port_op_axioms inv]) (simp add: reopen_def)
  show "stranded port2 port1 log (as @ fst (teardown p) # bs, es @ snd (teardown p))"
    by (rule stranded_update [OF op_teardown.port_op_axioms inv])
      (auto simp: teardown_def case_prod_beta Let_def port_effects)
  show "stranded port2 port1 log (as @ fst (reconcile env p1 flags fc p) # bs, es @ snd (reconcile env p1 flags fc p))"
    for env p1 flags fc
    by (rule stranded_update [OF op_reconcile.port_op_axioms inv])
      (auto simp: reconcile_def case_prod_beta Let_def port_effects)
  show "listening p \<Longrightarrow>
    stranded port2 port1 log (as @ fst (handle_connection fork p) # bs, es @ snd (handle_connection fork p))" for fork
    by (rule stranded_update [OF op_connect.port_op_axioms inv]) (simp_all add: listening_def)
  show "0 < lp_pid p \<Longrightarrow>
    stranded port2 port1 log (as @ fst (child_exited env p) # bs, es @ snd (child_exited env p))" for env
    by (rule stranded_update [OF op_exited.port_op_axioms inv]) simp_all
next
  fix ps es port2' env p1 flags fc
  assume "stranded port2 port1 log (ps, es)" and "port2' \<notin> lp_port2 ` set ps"
  then show "stranded port2 port1 log (fst (open_sockets env (new_port p1 port2' flags fc)) # ps,
      es @ snd (open_sockets env (new_port p1 port2' flags fc)))"
    by (auto simp: stranded_def port_effects fork_log_Nil)
next
  fix ps es pid
  show "stranded port2 port1 log (ps, es) \<Longrightarrow> stranded port2 port1 log (ps, es @ [Forked_cleanup pid])"
    by (auto simp: stranded_def fork_log_def)
qed

text \<open>
  C35: A \<open>fork\<close> that fails for a new connection takes the pair out of service for the life of the
  process: its entry keeps the child \<open>-1\<close>, holds no socket and is never given to \<open>fork\<close> again,
  whatever happens; and when the pair is removed or its port1 changes, the parent has called
  \<open>kill(-1, SIGTERM)\<close>, which signals every process it may signal.\<close>

theorem fork_failure_strands_pair:
  assumes "main_start api opened env cpid now = Some s0" and "wait_rounds api evs0 s0 = Some s"
    and "p \<in> set (pa_ports s)" and "lp_pid p = -1" and "\<not> lp_removed p"
    and "wait_rounds api evs s = Some s'"
  shows "\<exists>p' \<in> set (pa_ports s'). lp_port2 p' = lp_port2 p \<and> lp_pid p' = -1 \<and> held p' = []
    \<and> fork_log (pa_effects s') (lp_port2 p) = fork_log (pa_effects s) (lp_port2 p)
    \<and> (lp_removed p' \<or> lp_port1 p' \<noteq> lp_port1 p \<longrightarrow> Killed (-1) \<in> set (pa_effects s'))"
proof -
  have "ports_inv ([], [Conn_recreated])"
    by (simp add: ports_inv_def)
  then have "ports_inv (pa_ports s, pa_effects s)"
    using ports.wait_rounds_inv ports.main_start_inv assms(1,2) by blast
  then have "stranded (lp_port2 p) (lp_port1 p) (fork_log (pa_effects s) (lp_port2 p)) (pa_ports s, pa_effects s)"
    using assms(3-5) by (auto simp: ports_inv_def stranded_def quiet_def listening_def)
  from stranded.wait_rounds_inv [OF this assms(6)] show ?thesis
    by (auto simp: stranded_def)
qed

section \<open>A concrete run\<close>

definition sample_keys :: mem_db where
  "sample_keys = mem_empty\<lparr>mem_recs := [(port_key 10002, enc_KeyEntry sample_entry)]\<rparr>"

definition sample_socks :: sock_env where
  "sample_socks p sl = (case sl of S1_udp \<Rightarrow> 3 | S2_udp \<Rightarrow> 4 | S1_tcp \<Rightarrow> 5 | S2_listen \<Rightarrow> 6)"

definition sample_port :: listen_port where
  "sample_port = \<lparr>lp_port1 = 10001, lp_port2 = 10002, sock1_udp = 3, sock2_udp = 4, sock1_tcp = 5,
     sock2_listen = 6, lp_pid = 0, lp_flags = 12, lp_fc_sysid = 1, lp_seen = True, lp_removed = False,
     lp_ws = None\<rparr>"

definition sample_parent :: parent where
  "sample_parent = \<lparr>pa_ports = [sample_port], pa_cleanup_pid = 99, pa_epoll = [3, 4, 5, 6],
     pa_last_reload = 0, pa_effects = Conn_recreated # map Sock_opened [3, 4, 5, 6] @ [Forked_cleanup 99]\<rparr>"

lemma sample_start: "main_start mem_api (Some sample_keys) sample_socks 99 0 = Some sample_parent"
proof -
  have key: "length (port_key 10002) = 4" "le_word (port_key 10002) = (10002 :: u32)"
    using port_key_iff [of "port_key 10002" 10002] by simp_all
  have rec: "length (enc_KeyEntry sample_entry) = 168"
    "dec_KeyEntry (enc_KeyEntry sample_entry) = sample_entry"
    using key_codec.dec_enc_exact [of sample_entry] wf_sample_entry
    by (simp_all add: length_enc_KeyEntry sizeof_KeyEntry_def)
  have sel: "ke_port1 sample_entry = 10001" "ke_flags sample_entry = 12" "ke_fc_sysid sample_entry = 1"
    by (simp_all add: sample_entry_def)
  have "handle_record sample_socks (port_key 10002, enc_KeyEntry sample_entry) ([], []) =
      ([sample_port], map Sock_opened [3, 4, 5, 6])"
    by (simp add: handle_record_def key rec sel KEYENTRY_MIN_SIZE_def sizeof_KeyEntry_def Let_def
        upsert_port_def new_port_def open_sockets_def open_slot_def sample_socks_def sample_port_def)
  then show ?thesis
    by (simp add: main_start_def db_open_transaction_def db_open_def sample_keys_def mem_empty_def
        traverse_keys_def rebuild_epoll_set_def epoll_set_def listening_def held_def socks_def
        sample_parent_def sample_port_def fork_cleanup_child_def)
qed


lemma sample_connect:
  "wait_round mem_api (Wait_events [3] (\<lambda>_. k)) sample_parent = Some (sample_parent\<lparr>
     pa_ports := [sample_port\<lparr>lp_pid := k, sock1_udp := -1, sock2_udp := -1, sock1_tcp := -1, sock2_listen := -1\<rparr>],
     pa_effects := pa_effects sample_parent @ Forked_child 10002 k # map Sock_closed [3, 4, 5, 6]\<rparr>)"
  by (simp add: wait_round_def run_ports_def dispatch_def listening_def socks_def handle_connection_def
      close_sockets_def close_socket_def sample_parent_def sample_port_def)


theorem wait_events_one_child_each_witness:
  "map lp_pid (map (connect_if (\<lambda>_. 42) {3, 4}) [sample_port]) = [42]
   \<and> (\<exists>s'. wait_round mem_api (Wait_events [3, 4] (\<lambda>_. 42)) sample_parent = Some s'
        \<and> pa_ports s' = map (connect_if (\<lambda>_. 42) {3, 4}) [sample_port])"
proof -
  obtain s' where s': "wait_round mem_api (Wait_events [3, 4] (\<lambda>_. 42)) sample_parent = Some s'"
    by (simp add: wait_round_def)
  have "distinct (concat (map held (pa_ports sample_parent)))"
    by (simp add: sample_parent_def sample_port_def held_def socks_def)
  from wait_events_one_child_each [OF s' this] s' show ?thesis
    by (simp add: sample_parent_def connect_if_def signalled_def listening_def held_def socks_def
        handle_connection_fields sample_port_def)
qed

theorem fork_failure_strands_pair_witness:
  "\<exists>s p' s'. wait_rounds mem_api [Wait_events [3] (\<lambda>_. -1)] sample_parent = Some s
     \<and> wait_rounds mem_api [Wait_timeout [] sample_socks (seconds 6) (Some mem_empty) sample_socks sample_socks] s = Some s'
     \<and> p' \<in> set (pa_ports s') \<and> lp_pid p' = -1 \<and> lp_removed p' \<and> Killed (-1) \<in> set (pa_effects s')"
proof -
  let ?s = "the (wait_round mem_api (Wait_events [3] (\<lambda>_. -1)) sample_parent)"
  let ?reload = "[Wait_timeout [] sample_socks (seconds 6) (Some mem_empty) sample_socks sample_socks]"
  have s: "wait_rounds mem_api [Wait_events [3] (\<lambda>_. -1)] sample_parent = Some ?s"
    by (simp add: sample_connect)
  obtain p where p: "p \<in> set (pa_ports ?s)" "lp_pid p = -1" "\<not> lp_removed p"
    by (simp add: sample_connect sample_port_def)
  obtain s' where s': "wait_rounds mem_api ?reload ?s = Some s'" and gone: "\<forall>q \<in> set (pa_ports s'). lp_removed q"
    by (simp add: sample_connect wait_round_def sample_parent_def seconds_def reload_ports_def
        db_open_transaction_def db_open_def mem_empty_def run_ports_def each_port_def traverse_keys_def
        rebuild_epoll_set_def case_prod_beta teardown_fields reopen_fields)
  from fork_failure_strands_pair [OF sample_start s p s'] s s' gone show ?thesis
    by blast
qed

end
