(* ===== verification/Binlog_Facts.thy ===== *)
theory Binlog_Facts
  imports Binlog
begin

text \<open>
  Lemmas on the binary-log writer, operation by operation: the bitmap is a set, the gap loop and
  the store have closed forms, and every operation keeps the writer's invariant.
\<close>

section \<open>The bitmap is a set\<close>

locale seq_set =
  fixes empty :: "'s"
    and mem :: "'s \<Rightarrow> 'a \<Rightarrow> bool"
    and ins :: "'s \<Rightarrow> 'a \<Rightarrow> 's"
  assumes mem_empty: "\<not> mem empty x"
    and mem_ins: "mem (ins s x) y \<longleftrightarrow> y = x \<or> mem s y"
begin

lemma mem_fold: "mem (fold (\<lambda>x s. ins s x) xs s) y \<longleftrightarrow> y \<in> set xs \<or> mem s y"
  by (induction xs arbitrary: s) (auto simp: mem_ins)

lemma members_fold: "{y. mem (fold (\<lambda>x s. ins s x) xs empty) y} = set xs"
  by (auto simp: mem_fold mem_empty)

lemma ins_idem: "mem s x \<Longrightarrow> mem (ins s x) = mem s"
  by (auto simp: mem_ins fun_eq_iff)

end

lemma unat_byte_index: "unat (drop_bit 3 (s :: u32)) = unat s div 8"
  by (simp add: drop_bit_eq_div unat_div_distrib)

lemma unat_bit_index: "unat ((s :: u32) AND 7) = unat s mod 8"
proof -
  have "s AND 7 = s mod 8"
    using take_bit_eq_mask [of 3 s] by (simp add: mask_eq_exp_minus_1 take_bit_eq_mod)
  then show ?thesis
    by (simp add: unat_mod_distrib)
qed

lemma and_bit_iff: "(w :: u8) AND 2 ^ j \<noteq> 0 \<longleftrightarrow> bit w j"
  by (simp add: and_exp_eq_0_iff_not_bit)

lemma bitmap_seen_iff:
  "bitmap_seen v s \<longleftrightarrow> unat s div 8 < bv_size v \<and> bit (bv_at v (unat s div 8)) (unat s mod 8)"
  by (simp add: bitmap_seen_def Let_def unat_byte_index unat_bit_index and_bit_iff not_le)

lemma chunk_covers: "n < (n + 1 + 65535) div 65536 * (65536 :: nat)"
proof -
  have "(n + 65536) mod 65536 < (65536 :: nat)"
    by simp
  with div_mult_mod_eq [of "n + 65536" 65536] have "n < (n + 65536) div 65536 * 65536"
    by linarith
  then show ?thesis by (simp add: add.assoc)
qed

lemma bitmap_seen_mark: "bitmap_seen (bitmap_mark v x) y \<longleftrightarrow> y = x \<or> bitmap_seen v y"
proof -
  have eq: "y = x \<longleftrightarrow> unat y div 8 = unat x div 8 \<and> unat y mod 8 = unat x mod 8"
    by (metis div_mult_mod_eq word_unat_eq_iff)
  have bits: "bit (2 ^ (unat x mod 8) :: u8) (unat y mod 8) \<longleftrightarrow> unat y mod 8 = unat x mod 8"
    by (auto simp: bit_exp_iff)
  show ?thesis
    using chunk_covers [of "unat x div 8"]
    by (auto simp: bitmap_seen_iff eq bitmap_mark_def Let_def unat_byte_index unat_bit_index
        vec_resize_def vec_set_def bit_or_iff bits)
qed

interpretation seen_set: seq_set vec_empty bitmap_seen bitmap_mark
  by unfold_locales (simp add: bitmap_seen_iff vec_empty_def, rule bitmap_seen_mark)

lemma seqno_seen_mark [simp]: "seqno_seen (mark_seqno_seen x b) y \<longleftrightarrow> y = x \<or> seqno_seen b y"
  by (simp add: seqno_seen_def mark_seqno_seen_def seen_set.mem_ins)

lemma seqno_seen_cong: "bw_seen_bitmap b' = bw_seen_bitmap b \<Longrightarrow> seqno_seen b' = seqno_seen b"
  by (simp add: seqno_seen_def fun_eq_iff)

section \<open>Closed forms\<close>

lemma gap_seqnos_iff:
  "s \<in> set (gap_seqnos prev new) \<longleftrightarrow> prev + 1 \<le> s \<and> s < new"
proof -
  have "s \<in> set (gap_seqnos prev new) \<longleftrightarrow> unat s \<in> {unat (prev + 1)..<unat new}"
    using unsigned_less [of new, where ?'a = nat]
    by (auto simp: gap_seqnos_def unat_of_nat image_iff intro!: bexI [of _ "unat s"])
  then show ?thesis
    by (simp add: word_less_nat_alt word_le_nat_alt)
qed

lemma queue_gap_nack_eq:
  "queue_gap_nack now s b = b\<lparr>bw_nack_state := (\<lambda>t. if t = s \<and> \<not> seqno_seen b s \<and> bw_nack_state b s = None
      then Some \<lparr>ns_first_seen = now, ns_last_sent = 0\<rparr> else bw_nack_state b t)\<rparr>"
  by (auto simp: queue_gap_nack_def fun_eq_iff intro!: arg_cong [where f = "\<lambda>m. b\<lparr>bw_nack_state := m\<rparr>"])

lemma fold_queue_gap:
  "fold (queue_gap_nack now) ss b = b\<lparr>bw_nack_state := (\<lambda>t. if t \<in> set ss \<and> \<not> seqno_seen b t \<and> bw_nack_state b t = None
      then Some \<lparr>ns_first_seen = now, ns_last_sent = 0\<rparr> else bw_nack_state b t)\<rparr>"
proof (induction ss arbitrary: b)
  case Nil
  then show ?case by simp
next
  case (Cons s ss)
  show ?case
    unfolding fold_Cons comp_apply Cons.IH
    by (auto simp: queue_gap_nack_eq seqno_seen_def fun_eq_iff
        intro!: arg_cong [where f = "\<lambda>m. b\<lparr>bw_nack_state := m\<rparr>"])
qed

lemma queue_gap_nacks_eq:
  "queue_gap_nacks prev new now b = b\<lparr>bw_nack_state := (\<lambda>t.
      if prev + 1 \<le> t \<and> t < new \<and> \<not> seqno_seen b t \<and> bw_nack_state b t = None
      then Some \<lparr>ns_first_seen = now, ns_last_sent = 0\<rparr> else bw_nack_state b t)\<rparr>"
  by (simp add: queue_gap_nacks_def fold_queue_gap gap_seqnos_iff conj_assoc)

lemma length_write_at:
  "bs \<noteq> [] \<Longrightarrow> length (write_at off bs f) = max (length f) (off + length bs)"
  by (auto simp: write_at_def)

lemma write_at_same: "bs \<noteq> [] \<Longrightarrow> field (write_at off bs f) off (length bs) = bs"
  by (simp add: write_at_def field_def)

lemma nth_write_at:
  assumes "j < off \<or> off + length bs \<le> j" and "j < length f"
  shows "write_at off bs f ! j = f ! j"
proof (cases "bs = []")
  case False
  have len: "length (take off (f @ replicate (off - length f) 0)) = off"
    by simp
  show ?thesis
  proof (cases "j < off")
    case True
    then have "write_at off bs f ! j = take off (f @ replicate (off - length f) 0) ! j"
      using False assms(2) by (simp add: write_at_def nth_append)
    also have "\<dots> = f ! j"
      using True assms(2) by (simp add: nth_append)
    finally show ?thesis .
  next
    case ge: False
    have "write_at off bs f ! j = (bs @ drop (off + length bs) f) ! (j - off)"
      using False ge len nth_append [of "take off (f @ replicate (off - length f) 0)" _ j]
      by (simp add: write_at_def)
    also have "\<dots> = f ! j"
    proof -
      have "\<not> j - off < length bs"
        using ge assms by linarith
      then show ?thesis
        using ge assms by (simp add: nth_append)
    qed
    finally show ?thesis .
  qed
qed (simp add: write_at_def)

lemma write_at_other:
  assumes "a + n \<le> off \<or> off + length bs \<le> a" and "a + n \<le> length f"
  shows "field (write_at off bs f) a n = field f a n"
proof (rule nth_equalityI)
  have "length f \<le> length (write_at off bs f)"
    by (cases "bs = []") (simp_all add: length_write_at write_at_def)
  then show "length (field (write_at off bs f) a n) = length (field f a n)"
    using assms(2) by (simp add: field_def)
  fix i
  assume "i < length (field (write_at off bs f) a n)"
  then have i: "i < n"
    by (simp add: field_def)
  have "write_at off bs f ! (a + i) = f ! (a + i)"
    by (rule nth_write_at) (use assms i in linarith)+
  then show "field (write_at off bs f) a n ! i = field f a n ! i"
    using i assms(2) \<open>length f \<le> length (write_at off bs f)\<close> by (simp add: field_def)
qed

section \<open>What one stored block changes\<close>

lemma block_written_sel [frame_simps]:
  "bw_fp (block_written env s n b) = bw_fp b"
  "bw_any_block_seen (block_written env s n b) = bw_any_block_seen b"
  "bw_last_start_sent (block_written env s n b) = bw_last_start_sent b"
  "bw_target_system (block_written env s n b) = bw_target_system b"
  "bw_target_component (block_written env s n b) = bw_target_component b"
  "bw_port2 (block_written env s n b) = bw_port2 b"
  "bw_base_dir (block_written env s n b) = bw_base_dir b"
  "bw_current_file_size (block_written env s n b) = n"
  "bw_fc_sysid_filter (block_written env s n b) = bw_fc_sysid_filter b"
  "bw_last_system_time_boot_ms (block_written env s n b) = bw_last_system_time_boot_ms b"
  "bw_pending_session_n (block_written env s n b) = bw_pending_session_n b"
  "bw_pending_acks (block_written env s n b) = bw_pending_acks b @ [s]"
  "bw_highest_seen (block_written env s n b) = max (bw_highest_seen b) s"
  by (simp_all add: block_written_def Let_def queue_gap_nacks_eq mark_seqno_seen_def
      refresh_other_sessions_bytes_def max_def)

lemma seqno_seen_block_written [simp]:
  "seqno_seen (block_written env s n b) t \<longleftrightarrow> t = s \<or> seqno_seen b t"
  by (simp add: block_written_def Let_def queue_gap_nacks_eq mark_seqno_seen_def
      refresh_other_sessions_bytes_def seqno_seen_def bitmap_seen_mark)

lemma nack_block_written:
  "bw_nack_state (block_written env s n b) t =
     (if t = s then None
      else if bw_any_block_seen b \<and> bw_highest_seen b + 1 < s
              \<and> bw_highest_seen b + 1 \<le> t \<and> t < s \<and> \<not> seqno_seen b t \<and> bw_nack_state b t = None
           then Some \<lparr>ns_first_seen = be_now env, ns_last_sent = 0\<rparr>
           else bw_nack_state b t)"
  by (auto simp: block_written_def Let_def queue_gap_nacks_eq mark_seqno_seen_def
      refresh_other_sessions_bytes_def seqno_seen_def bitmap_seen_mark)

lemma counted_file_nonneg:
  "(\<And>st. df_stat f = Some st \<Longrightarrow> 0 \<le> st_size st) \<Longrightarrow> 0 \<le> counted_file own f"
  by (auto simp: counted_file_def split: option.split)

lemma refresh_nonneg:
  assumes "ok_listing l"
  shows "0 \<le> bw_other_sessions_bytes (refresh_other_sessions_bytes own l b)"
  using assms
  by (auto simp: refresh_other_sessions_bytes_def ok_listing_def intro!: sum_list_nonneg counted_file_nonneg)

definition ok_block_env :: "block_env \<Rightarrow> bool" where
  "ok_block_env env \<longleftrightarrow> ok_listing (be_listing_open env) \<and> ok_listing (be_listing_refresh env)"

lemma block_written_other_nonneg:
  assumes "ok_block_env env" and "0 \<le> bw_other_sessions_bytes b"
  shows "0 \<le> bw_other_sessions_bytes (block_written env s n b)"
  using assms refresh_nonneg [of "be_listing_refresh env"]
  by (simp add: block_written_def Let_def queue_gap_nacks_eq mark_seqno_seen_def ok_block_env_def)

section \<open>The invariant\<close>

text \<open>
  With a file open: the tracked size is that of the highest block stored, within the quota and
  within the file; the seen blocks lie within it; missing blocks lie below the highest one and
  are not seen; only seen blocks are queued for an ACK. With no file open, the per-log state is
  empty.
\<close>

definition open_file_inv :: "binlog_writer \<Rightarrow> bytes \<Rightarrow> bool" where
  "open_file_inv b f \<longleftrightarrow>
     bw_current_file_size b \<le> int (length f)
     \<and> bw_current_file_size b \<le> MAX_PER_PORT2_BYTES
     \<and> bw_current_file_size b =
         (if \<exists>s. seqno_seen b s then block_offset (bw_highest_seen b) + int BLOCK_BYTES else 0)
     \<and> (\<forall>s. seqno_seen b s \<longrightarrow> s \<le> bw_highest_seen b \<and> seqno_seen b (bw_highest_seen b))
     \<and> ((\<forall>s. \<not> seqno_seen b s) \<longrightarrow> bw_highest_seen b = 0)
     \<and> (\<forall>s. bw_nack_state b s \<noteq> None \<longrightarrow> \<not> seqno_seen b s \<and> s < bw_highest_seen b)
     \<and> (\<forall>s \<in> set (bw_pending_acks b). seqno_seen b s)"

definition closed_file_inv :: "binlog_writer \<Rightarrow> bool" where
  "closed_file_inv b \<longleftrightarrow>
     (\<forall>s. \<not> seqno_seen b s) \<and> bw_highest_seen b = 0 \<and> (\<forall>s. bw_nack_state b s = None)
     \<and> bw_pending_acks b = []"

definition binlog_inv :: "binlog_writer \<times> disk \<Rightarrow> bool" where
  "binlog_inv st \<longleftrightarrow>
     (case bw_fp (fst st) of
        None \<Rightarrow> closed_file_inv (fst st)
      | Some path \<Rightarrow> (case snd st path of None \<Rightarrow> False | Some f \<Rightarrow> open_file_inv (fst st) f))
     \<and> 0 \<le> bw_other_sessions_bytes (fst st)
     \<and> (\<forall>s. seqno_seen (fst st) s \<longrightarrow> bw_any_block_seen (fst st))"

lemma binlog_inv_init: "binlog_inv (binlog_init, disk)"
  by (simp add: binlog_inv_def closed_file_inv_def binlog_init_def seqno_seen_def bitmap_seen_iff
      vec_empty_def)

lemma block_gate_cases:
  assumes "block_gate env port2 session_n seqno (b, disk) = Some st1"
  obtains (already) path where "bw_fp b = Some path" and "st1 = (b, disk)"
  | (opened) path b1 where "bw_fp b = None" and "seqno = 0"
      and "st1 = (b1, disk(path \<mapsto> []))" and "bw_fp b1 = Some path" and "bw_current_file_size b1 = 0"
      and "bw_seen_bitmap b1 = bw_seen_bitmap b" and "bw_highest_seen b1 = bw_highest_seen b"
      and "bw_nack_state b1 = bw_nack_state b" and "bw_pending_acks b1 = bw_pending_acks b"
      and "bw_any_block_seen b1 = bw_any_block_seen b"
      and "ok_block_env env \<longrightarrow> 0 \<le> bw_other_sessions_bytes b1"
proof (cases "bw_fp b")
  case None
  define n where "n = (if bw_pending_session_n b \<noteq> 0 then bw_pending_session_n b else session_n)"
  define dir where "dir = session_dir ''logs'' port2 (oe_tm (be_open env))"
  define path where "path = session_path dir n ''.bin''"
  define b1 where "b1 = refresh_other_sessions_bytes (be_own env) (be_listing_open env)
    (b\<lparr>bw_fp := Some path, bw_port2 := port2, bw_base_dir := ''logs'', bw_current_file_size := 0\<rparr>)"
  have "seqno = 0 \<and> st1 = (b1\<lparr>bw_writes_since_quota_refresh := 0, bw_pending_session_n := 0\<rparr>, disk(path \<mapsto> []))"
    using assms None
    by (auto simp: block_gate_def binlog_open_def Let_def n_def dir_def path_def b1_def
        split: if_splits)
  moreover have "ok_block_env env \<longrightarrow> 0 \<le> bw_other_sessions_bytes b1"
    by (auto simp: b1_def ok_block_env_def intro: refresh_nonneg)
  moreover have "bw_fp b1 = Some path" "bw_current_file_size b1 = 0"
    "bw_seen_bitmap b1 = bw_seen_bitmap b" "bw_highest_seen b1 = bw_highest_seen b"
    "bw_nack_state b1 = bw_nack_state b" "bw_pending_acks b1 = bw_pending_acks b"
    "bw_any_block_seen b1 = bw_any_block_seen b"
    by (simp_all add: b1_def refresh_other_sessions_bytes_def)
  ultimately show thesis
    using None by (intro opened [of "b1\<lparr>bw_writes_since_quota_refresh := 0, bw_pending_session_n := 0\<rparr>" path]) simp_all
next
  case (Some path)
  then show thesis
    using assms already by (auto simp: block_gate_def)
qed

lemma block_gate_inv:
  assumes "binlog_inv (b, disk)" and "ok_block_env env"
    and "block_gate env port2 session_n seqno (b, disk) = Some st1"
  shows "binlog_inv st1 \<and> bw_fp (fst st1) \<noteq> None"
  using assms(3)
proof (cases rule: block_gate_cases)
  case (already path)
  then show ?thesis using assms(1) by simp
next
  case (opened path b1)
  have seen: "seqno_seen b1 = seqno_seen b"
    using opened(6) by (rule seqno_seen_cong)
  have "closed_file_inv b"
    using assms(1) opened(1) by (simp add: binlog_inv_def)
  then have "open_file_inv b1 []"
    by (simp add: open_file_inv_def closed_file_inv_def seen opened(5-9) MAX_PER_PORT2_BYTES_def)
  moreover have "\<not> seqno_seen b1 s" for s
    using \<open>closed_file_inv b\<close> by (simp add: closed_file_inv_def seen)
  ultimately show ?thesis
    using opened(3,4,11) assms(2) by (simp add: binlog_inv_def)
qed

section \<open>Storing\<close>

lemma latch_vehicle_sel [simp, frame_simps]:
  "bw_fp (latch_vehicle msg b) = bw_fp b"
  "bw_any_block_seen (latch_vehicle msg b)"
  "bw_highest_seen (latch_vehicle msg b) = bw_highest_seen b"
  "bw_nack_state (latch_vehicle msg b) = bw_nack_state b"
  "bw_pending_acks (latch_vehicle msg b) = bw_pending_acks b"
  "bw_current_file_size (latch_vehicle msg b) = bw_current_file_size b"
  "bw_other_sessions_bytes (latch_vehicle msg b) = bw_other_sessions_bytes b"
  "bw_seen_bitmap (latch_vehicle msg b) = bw_seen_bitmap b"
  "seqno_seen (latch_vehicle msg b) = seqno_seen b"
  by (simp_all add: latch_vehicle_def seqno_seen_def fun_eq_iff)

definition within_caps :: "binlog_writer \<Rightarrow> u32 \<Rightarrow> bool" where
  "within_caps b seqno \<longleftrightarrow>
     prospective_size b seqno - bw_current_file_size b \<le> MAX_FORWARD_JUMP_BYTES
     \<and> bw_other_sessions_bytes b + prospective_size b seqno \<le> MAX_PER_PORT2_BYTES"

lemma block_store_cases:
  assumes "bw_fp b = Some path" and "disk path = Some f" and "length data = BLOCK_BYTES"
  obtains (dropped) "\<not> within_caps b seqno" and "block_store env msg seqno data (b, disk) = (b, disk)"
  | (failed) n where "within_caps b seqno" and "\<not> be_seek_ok env \<or> be_short env \<noteq> None" and
      "block_store env msg seqno data (b, disk) =
        (latch_vehicle msg b, disk(path \<mapsto> write_at (nat (block_offset seqno)) (take n data) f))"
  | (stored) "within_caps b seqno" and "be_seek_ok env" and
      "block_store env msg seqno data (b, disk) =
        (block_written env seqno (prospective_size b seqno) (latch_vehicle msg b),
         disk(path \<mapsto> write_at (nat (block_offset seqno)) data f))"
proof -
  let ?wrote = "case be_short env of None \<Rightarrow> BLOCK_BYTES | Some n \<Rightarrow> min n BLOCK_BYTES"
  consider (caps) "\<not> within_caps b seqno"
    | (seek) "within_caps b seqno" "\<not> be_seek_ok env"
    | (short) "within_caps b seqno" "be_seek_ok env" "?wrote \<noteq> BLOCK_BYTES"
    | (full) "within_caps b seqno" "be_seek_ok env" "?wrote = BLOCK_BYTES"
    by blast
  then show thesis
  proof cases
    case caps
    then show thesis
      by (intro dropped) (auto simp: block_store_def within_caps_def Let_def)
  next
    case seek
    then have "block_store env msg seqno data (b, disk) = (latch_vehicle msg b, disk)"
      by (simp add: block_store_def within_caps_def Let_def)
    moreover have "disk = disk(path \<mapsto> write_at (nat (block_offset seqno)) (take 0 data) f)"
      using assms(2) by (auto simp: write_at_def)
    ultimately show thesis
      using seek failed [of 0] by simp
  next
    case short
    then have "block_store env msg seqno data (b, disk) =
        (latch_vehicle msg b, disk(path \<mapsto> write_at (nat (block_offset seqno)) (take ?wrote data) f))"
      using assms by (simp add: block_store_def within_caps_def Let_def)
    moreover have "be_short env \<noteq> None"
      using short(3) by (auto split: option.splits)
    ultimately show thesis
      using short(1) failed by blast
  next
    case full
    then show thesis
      using assms by (intro stored) (simp_all add: block_store_def within_caps_def Let_def)
  qed
qed

lemma block_offset_nonneg [simp]: "0 \<le> block_offset s"
  by (simp add: block_offset_def)

lemma block_offset_mono: "s \<le> t \<Longrightarrow> block_offset s \<le> block_offset t"
  unfolding block_offset_def word_le_nat_alt by (rule mult_right_mono) (simp_all only: of_nat_le_iff of_nat_0_le_iff)

lemma nat_block_offset: "nat (block_offset s) = unat s * BLOCK_BYTES"
  by (simp add: block_offset_def nat_mult_distrib)

lemma length_write_block:
  assumes "length data = BLOCK_BYTES"
  shows "int (length (write_at (nat (block_offset s)) data f))
       = max (int (length f)) (block_offset s + int BLOCK_BYTES)"
proof -
  have "data \<noteq> []"
    using assms by (auto simp: BLOCK_BYTES_def)
  then show ?thesis
    using assms by (simp add: length_write_at of_nat_max)
qed

lemma max_word_cases: "(max a b :: u32) = a \<and> b \<le> a \<or> max a b = b \<and> a \<le> b"
  by (auto simp: max_def)

lemma prospective_size_highest:
  assumes "open_file_inv b f"
  shows "prospective_size b s = block_offset (max (bw_highest_seen b) s) + int BLOCK_BYTES"
proof (cases "\<exists>t. seqno_seen b t")
  case True
  then have "bw_current_file_size b = block_offset (bw_highest_seen b) + int BLOCK_BYTES"
    using assms by (simp add: open_file_inv_def)
  then show ?thesis
    using block_offset_mono [of s "bw_highest_seen b"] block_offset_mono [of "bw_highest_seen b" s]
      linear [of s "bw_highest_seen b"]
    by (auto simp: prospective_size_def max_def)
next
  case False
  then have "bw_highest_seen b = 0" and "bw_current_file_size b = 0"
    using assms by (auto simp: open_file_inv_def)
  then show ?thesis
    by (simp add: prospective_size_def max_def)
qed

lemma open_file_inv_latch: "open_file_inv (latch_vehicle msg b) f \<longleftrightarrow> open_file_inv b f"
  by (simp add: open_file_inv_def)

lemma open_file_inv_longer: "open_file_inv b f \<Longrightarrow> length f \<le> length g \<Longrightarrow> open_file_inv b g"
  by (simp add: open_file_inv_def)

lemma open_file_inv_stored:
  assumes inv: "open_file_inv b f" and caps: "within_caps b s" and other: "0 \<le> bw_other_sessions_bytes b"
    and len: "length data = BLOCK_BYTES"
  shows "open_file_inv (block_written env s (prospective_size b s) b)
           (write_at (nat (block_offset s)) data f)"
proof -
  let ?b' = "block_written env s (prospective_size b s) b"
  let ?h = "max (bw_highest_seen b) s"
  have "seqno_seen ?b' ?h"
    using inv max_word_cases [of "bw_highest_seen b" s]
    by (metis (no_types, lifting) open_file_inv_def seqno_seen_block_written max_def word_gt_0 word_le_0_iff)
  moreover have "t \<le> ?h" if "seqno_seen ?b' t" for t
    using inv that by (auto simp: open_file_inv_def le_max_iff_disj)
  moreover have "prospective_size b s \<le> int (length (write_at (nat (block_offset s)) data f))"
  proof -
    have "bw_current_file_size b \<le> int (length f)"
      using inv by (simp add: open_file_inv_def)
    then show ?thesis
      using len by (simp add: length_write_block prospective_size_def)
  qed
  moreover have "prospective_size b s \<le> MAX_PER_PORT2_BYTES"
    using caps other by (simp add: within_caps_def)
  moreover have "\<not> seqno_seen ?b' t \<and> t < ?h" if "bw_nack_state ?b' t \<noteq> None" for t
    using inv that by (auto simp: nack_block_written open_file_inv_def less_max_iff_disj split: if_splits)
  moreover have "\<forall>t \<in> set (bw_pending_acks ?b'). seqno_seen ?b' t"
    using inv by (auto simp: open_file_inv_def frame_simps)
  ultimately show ?thesis
    unfolding open_file_inv_def
    by (auto simp: prospective_size_highest [OF inv] block_written_sel)
qed

lemma block_store_inv:
  assumes inv: "binlog_inv (b, disk)" and fp: "bw_fp b \<noteq> None" and ok: "ok_block_env env"
    and len: "length data = BLOCK_BYTES"
  shows "binlog_inv (block_store env msg seqno data (b, disk))"
proof -
  obtain path where path: "bw_fp b = Some path"
    using fp by auto
  obtain f where f: "disk path = Some f" and fi: "open_file_inv b f"
    using inv path by (auto simp: binlog_inv_def split: option.splits)
  have other: "0 \<le> bw_other_sessions_bytes b"
    using inv by (simp add: binlog_inv_def)
  show ?thesis
    using path f len
  proof (cases rule: block_store_cases [where env = env and msg = msg and seqno = seqno])
    case dropped
    then show ?thesis using inv by simp
  next
    case (failed n)
    have "length f \<le> length (write_at (nat (block_offset seqno)) (take n data) f)"
      by (cases "take n data = []") (simp_all add: length_write_at write_at_def)
    then show ?thesis
      using failed(3) path other open_file_inv_longer [OF fi]
      by (simp add: binlog_inv_def open_file_inv_latch)
  next
    case stored
    have "open_file_inv (latch_vehicle msg b) f"
      using fi by (simp add: open_file_inv_latch)
    moreover have "within_caps (latch_vehicle msg b) seqno"
      and "prospective_size (latch_vehicle msg b) seqno = prospective_size b seqno"
      using stored(1) by (simp_all add: within_caps_def prospective_size_def)
    ultimately show ?thesis
      using stored(3) path other open_file_inv_stored [of "latch_vehicle msg b" f seqno data env]
        block_written_other_nonneg [OF ok] len
      by (simp add: binlog_inv_def block_written_sel)
  qed
qed

lemma handle_block_inv:
  assumes "binlog_inv st" and "ok_block_env env" and "\<And>m. length (snd (decode m)) = BLOCK_BYTES"
  shows "binlog_inv (handle_block decode env port2 session_n msg st)"
proof -
  obtain b disk where st: "st = (b, disk)" by (rule prod.exhaust)
  show ?thesis
  proof (cases "block_gate env port2 session_n (fst (decode msg)) (b, disk)")
    case None
    then show ?thesis
      using assms(1) st by (simp add: handle_block_def case_prod_beta)
  next
    case (Some st1)
    have "binlog_inv st1 \<and> bw_fp (fst st1) \<noteq> None"
      using assms(1,2) Some st by (intro block_gate_inv) simp_all
    then show ?thesis
      using Some st assms(2,3) block_store_inv [of "fst st1" "snd st1"]
      by (simp add: handle_block_def case_prod_beta)
  qed
qed

end
