(* ===== verification/Binlog_Props.thy ===== *)
theory Binlog_Props
  imports Binlog_Facts
begin

text \<open>
  The binary-log writer as a whole: its run over an arbitrary sequence of calls, the abstract
  log it implements, what the pump sends, and the properties built on them.
\<close>

section \<open>Runs\<close>

text \<open>One call of the main loop into the writer, with what the environment answers.\<close>

datatype binlog_event =
    EBlock block_env u32 u32 mavlink_msg
  | ETick usec "u32 list"
  | EObserve "string list option" mavlink_msg

record 'l binlog_io =
  io_decode :: "mavlink_msg \<Rightarrow> u32 \<times> bytes"
  io_time :: "mavlink_msg \<Rightarrow> u32"
  io_link :: "'l user_link"

type_synonym 'l binlog_state = "(binlog_writer \<times> disk) \<times> 'l pump"

fun binlog_step :: "'l binlog_io \<Rightarrow> binlog_event \<Rightarrow> 'l binlog_state \<Rightarrow> 'l binlog_state" where
  "binlog_step io (EBlock env port2 n msg) (st, p) = (handle_block (io_decode io) env port2 n msg st, p)"
| "binlog_step io (ETick now order) ((b, disk), p) =
     (case tick (io_link io) now order (b, p) of (b1, p1) \<Rightarrow> ((b1, disk), p1))"
| "binlog_step io (EObserve listing msg) ((b, disk), p) =
     ((observe (io_time io) listing msg b, disk), p)"

definition ok_event :: "'l binlog_io \<Rightarrow> binlog_event \<Rightarrow> bool" where
  "ok_event io e \<longleftrightarrow> (case e of
     EBlock env port2 n msg \<Rightarrow> ok_block_env env \<and> length (snd (io_decode io msg)) = BLOCK_BYTES
   | _ \<Rightarrow> True)"

section \<open>The pump\<close>

definition packs :: "'l user_link \<Rightarrow> bool" where
  "packs ul \<longleftrightarrow> (\<forall>l a b c d s st. snd (ul_pack_status ul l a b c d s st) \<noteq> [])"

lemma pack_and_send_packs:
  assumes "packs ul"
  shows "\<exists>l' ok. pack_and_send ul b s st (l, out) = ((l', out @ [(s, st, ok)]), ok)"
  using assms by (auto simp: pack_and_send_def packs_def Let_def split: prod.split) (metis snd_conv)

lemma drain_acks_sends:
  assumes "packs ul" and "bw_any_block_seen b"
  shows "\<exists>l' oks. length oks = length ss \<and>
    drain_acks ul b ss (l, out) =
      (l', out @ map2 (\<lambda>s ok. (s, MAV_REMOTE_LOG_DATA_BLOCK_ACK, ok)) ss oks)"
proof (induction ss arbitrary: l out)
  case Nil
  then show ?case by auto
next
  case (Cons s ss)
  obtain l1 ok where *: "pack_and_send ul b s MAV_REMOTE_LOG_DATA_BLOCK_ACK (l, out)
      = ((l1, out @ [(s, MAV_REMOTE_LOG_DATA_BLOCK_ACK, ok)]), ok)"
    using pack_and_send_packs [OF assms(1)] by blast
  obtain l2 oks where "length oks = length ss" and
    "drain_acks ul b ss (l1, out @ [(s, MAV_REMOTE_LOG_DATA_BLOCK_ACK, ok)]) =
      (l2, (out @ [(s, MAV_REMOTE_LOG_DATA_BLOCK_ACK, ok)]) @ map2 (\<lambda>s ok. (s, MAV_REMOTE_LOG_DATA_BLOCK_ACK, ok)) ss oks)"
    using Cons.IH by blast
  then show ?case
    using * assms(2) by (intro exI [of _ l2] exI [of _ "ok # oks"]) (simp add: send_status_def)
qed

text \<open>The entry may be NACKed now: it was never NACKed, or the throttle has elapsed.\<close>

definition nack_due :: "usec \<Rightarrow> binlog_writer \<Rightarrow> u32 \<Rightarrow> bool" where
  "nack_due now b s \<longleftrightarrow> (case bw_nack_state b s of None \<Rightarrow> False
     | Some ns \<Rightarrow> ns_last_sent ns = 0 \<or> NACK_REPEAT \<le> now - ns_last_sent ns)"

definition nacks_ok :: "usec \<Rightarrow> nat \<Rightarrow> u32 list \<Rightarrow> binlog_writer \<Rightarrow> binlog_writer
    \<Rightarrow> (u32 \<times> u8 \<times> bool) list \<Rightarrow> bool" where
  "nacks_ok now budget order b b' nacks \<longleftrightarrow>
     (\<forall>(s, st, ok) \<in> set nacks. st = MAV_REMOTE_LOG_DATA_BLOCK_NACK \<and> s \<in> set order \<and> nack_due now b s)
     \<and> length (filter (\<lambda>(s, st, ok). ok) nacks) \<le> budget
     \<and> (length (filter (\<lambda>(s, st, ok). ok) nacks) < budget \<longrightarrow>
          (\<forall>s \<in> set order. nack_due now b s \<longrightarrow> s \<in> fst ` set nacks))
     \<and> b' = b\<lparr>bw_nack_state := (\<lambda>s. if (s, MAV_REMOTE_LOG_DATA_BLOCK_NACK, True) \<in> set nacks
               then map_option (\<lambda>ns. ns\<lparr>ns_last_sent := now\<rparr>) (bw_nack_state b s)
               else bw_nack_state b s)\<rparr>"

lemma nacks_ok_skip:
  "nacks_ok now k ss b b' nacks \<Longrightarrow> \<not> nack_due now b s \<Longrightarrow> nacks_ok now k (s # ss) b b' nacks"
  by (auto simp: nacks_ok_def)

lemma nacks_ok_failed:
  "nacks_ok now k ss b b' nacks \<Longrightarrow> nack_due now b s \<Longrightarrow>
   nacks_ok now k (s # ss) b b' ((s, MAV_REMOTE_LOG_DATA_BLOCK_NACK, False) # nacks)"
  by (auto simp: nacks_ok_def)

lemma nack_due_upd: "t \<noteq> s \<Longrightarrow>
  nack_due now (b\<lparr>bw_nack_state := (bw_nack_state b)(s := x)\<rparr>) t = nack_due now b t"
  by (simp add: nack_due_def)

lemma nacks_ok_sent:
  assumes "nacks_ok now k ss (b\<lparr>bw_nack_state := (bw_nack_state b)(s \<mapsto> ns\<lparr>ns_last_sent := now\<rparr>)\<rparr>) b' nacks"
    and due: "nack_due now b s" and st: "bw_nack_state b s = Some ns" and new: "s \<notin> set ss"
  shows "nacks_ok now (Suc k) (s # ss) b b' ((s, MAV_REMOTE_LOG_DATA_BLOCK_NACK, True) # nacks)"
proof -
  let ?b1 = "b\<lparr>bw_nack_state := (bw_nack_state b)(s \<mapsto> ns\<lparr>ns_last_sent := now\<rparr>)\<rparr>"
  have due': "nack_due now ?b1 t = nack_due now b t" if "t \<in> set ss" for t
    using that new by (intro nack_due_upd) auto
  have notin: "(s, st, ok) \<notin> set nacks" for st ok
    using assms(1) new by (auto simp: nacks_ok_def)
  show ?thesis
    using assms(1) due st notin new
    unfolding nacks_ok_def
    by (auto simp: due' fun_eq_iff intro!: arg_cong [where f = "\<lambda>m. b\<lparr>bw_nack_state := m\<rparr>"])
qed

lemma nack_loop_ok:
  assumes "packs ul" and "bw_any_block_seen b" and "distinct order"
  shows "\<exists>b' l' nacks. nack_loop ul now k order (b, (l, out)) = (b', (l', out @ nacks))
           \<and> nacks_ok now k order b b' nacks"
  using assms(2,3)
proof (induction order arbitrary: k b l out)
  case Nil
  then show ?case by (auto simp: nacks_ok_def intro!: exI [of _ "[]"])
next
  case (Cons s ss)
  have ss: "s \<notin> set ss" "distinct ss"
    using Cons.prems(2) by auto
  show ?case
  proof (cases "k = 0")
    case True
    then show ?thesis by (auto simp: nacks_ok_def intro!: exI [of _ "[]"])
  next
    case k: False
    show ?thesis
    proof (cases "nack_due now b s")
      case False
      then have "nack_loop ul now k (s # ss) (b, l, out) = nack_loop ul now k ss (b, l, out)"
        using k by (auto simp: nack_due_def split: option.splits)
      then show ?thesis
        using Cons.IH [OF Cons.prems(1) ss(2), of k l out] False nacks_ok_skip by metis
    next
      case True
      then obtain ns where ns: "bw_nack_state b s = Some ns"
        and due: "\<not> (ns_last_sent ns \<noteq> 0 \<and> now - ns_last_sent ns < NACK_REPEAT)"
        by (auto simp: nack_due_def split: option.splits)
      obtain l1 ok where sent: "send_status ul b s MAV_REMOTE_LOG_DATA_BLOCK_NACK (l, out)
          = ((l1, out @ [(s, MAV_REMOTE_LOG_DATA_BLOCK_NACK, ok)]), ok)"
        using pack_and_send_packs [OF assms(1)] Cons.prems(1)
        by (metis send_status_def)
      show ?thesis
      proof (cases ok)
        case False
        have "nack_loop ul now k (s # ss) (b, l, out) =
            nack_loop ul now k ss (b, l1, out @ [(s, MAV_REMOTE_LOG_DATA_BLOCK_NACK, False)])"
          using k ns due sent False by auto
        then show ?thesis
          using Cons.IH [OF Cons.prems(1) ss(2), of k l1 "out @ [(s, MAV_REMOTE_LOG_DATA_BLOCK_NACK, False)]"]
            nacks_ok_failed [OF _ True] by fastforce
      next
        case ok: True
        let ?b1 = "b\<lparr>bw_nack_state := (bw_nack_state b)(s \<mapsto> ns\<lparr>ns_last_sent := now\<rparr>)\<rparr>"
        have "nack_loop ul now k (s # ss) (b, l, out) =
            nack_loop ul now (k - 1) ss (?b1, l1, out @ [(s, MAV_REMOTE_LOG_DATA_BLOCK_NACK, True)])"
          using k ns due sent ok by auto
        then show ?thesis
          using Cons.IH [of ?b1 "k - 1" l1 "out @ [(s, MAV_REMOTE_LOG_DATA_BLOCK_NACK, True)]"]
            Cons.prems(1) ss nacks_ok_sent [OF _ True ns ss(1), where k = "k - 1"] k by fastforce
      qed
    qed
  qed
qed

lemma maybe_start_sends:
  assumes "packs ul"
  shows "\<exists>l' ok. maybe_start ul now interval (b, (l, out)) =
    (if interval \<le> now - bw_last_start_sent b
     then (if ok then b\<lparr>bw_last_start_sent := now\<rparr> else b,
           (l', out @ [(MAV_REMOTE_LOG_DATA_BLOCK_START, MAV_REMOTE_LOG_DATA_BLOCK_ACK, ok)]))
     else (b, (l, out)))"
proof -
  obtain l' ok where
    "send_start_packet ul b (l, out) =
       ((l', out @ [(MAV_REMOTE_LOG_DATA_BLOCK_START, MAV_REMOTE_LOG_DATA_BLOCK_ACK, ok)]), ok)"
    using pack_and_send_packs [OF assms] unfolding send_start_packet_def by blast
  then show ?thesis
    by (intro exI [of _ l'] exI [of _ ok]) (simp add: maybe_start_def)
qed

lemma maybe_start_writer:
  "fst (maybe_start ul now interval (b, p)) = b
   \<or> fst (maybe_start ul now interval (b, p)) = b\<lparr>bw_last_start_sent := now\<rparr>"
  by (auto simp: maybe_start_def split: prod.split)

section \<open>Every call keeps the invariant\<close>

lemma binlog_inv_start_sent [simp]:
  "binlog_inv (b\<lparr>bw_last_start_sent := t\<rparr>, disk) = binlog_inv (b, disk)"
  by (auto simp: binlog_inv_def open_file_inv_def closed_file_inv_def seqno_seen_def split: option.split)

lemma binlog_inv_fewer:
  assumes "binlog_inv (b, disk)" and "set acks \<subseteq> set (bw_pending_acks b)"
    and "\<And>s. nacks s \<noteq> None \<Longrightarrow> bw_nack_state b s \<noteq> None"
  shows "binlog_inv (b\<lparr>bw_pending_acks := acks, bw_nack_state := nacks\<rparr>, disk)"
proof -
  let ?b' = "b\<lparr>bw_pending_acks := acks, bw_nack_state := nacks\<rparr>"
  have seen: "seqno_seen ?b' = seqno_seen b"
    by (rule seqno_seen_cong) simp
  have op: "open_file_inv ?b' f" if "open_file_inv b f" for f
    using that assms(2,3) unfolding open_file_inv_def seen by (simp add: subset_iff) metis
  have cl: "closed_file_inv ?b'" if "closed_file_inv b"
  proof -
    have "nacks s = None" for s
      using assms(3) [of s] that by (cases "nacks s") (auto simp: closed_file_inv_def)
    then show ?thesis
      using that assms(2) unfolding closed_file_inv_def seen by simp
  qed
  show ?thesis
    using assms(1) op cl by (auto simp: binlog_inv_def seen split: option.splits)
qed

lemma nack_loop_writer:
  "\<exists>nacks. fst (nack_loop ul now k order (b, p)) = b\<lparr>bw_nack_state := nacks\<rparr>
     \<and> (\<forall>s. nacks s \<noteq> None \<longrightarrow> bw_nack_state b s \<noteq> None)"
proof (induction order arbitrary: k b p)
  case Nil
  then show ?case by (auto intro!: exI [of _ "bw_nack_state b"])
next
  case (Cons s ss)
  consider (stop) "k = 0" | (none) "k \<noteq> 0" "bw_nack_state b s = None"
    | (some) "k \<noteq> 0" "bw_nack_state b s \<noteq> None"
    by blast
  then show ?case
  proof cases
    case stop
    then show ?thesis
      by (auto intro!: exI [of _ "bw_nack_state b"])
  next
    case none
    then have "nack_loop ul now k (s # ss) (b, p) = nack_loop ul now k ss (b, p)"
      by simp
    then show ?thesis
      using Cons.IH [of k b p] by simp
  next
    case some
    then obtain ns where ns: "bw_nack_state b s = Some ns" and k: "k \<noteq> 0"
      by auto
    let ?b1 = "b\<lparr>bw_nack_state := (bw_nack_state b)(s \<mapsto> ns\<lparr>ns_last_sent := now\<rparr>)\<rparr>"
    obtain p1 ok where snd: "send_status ul b s MAV_REMOTE_LOG_DATA_BLOCK_NACK p = (p1, ok)"
      by (rule prod.exhaust)
    consider "nack_loop ul now k (s # ss) (b, p) = nack_loop ul now k ss (b, p)"
      | "nack_loop ul now k (s # ss) (b, p) = nack_loop ul now k ss (b, p1)"
      | "nack_loop ul now k (s # ss) (b, p) = nack_loop ul now (k - 1) ss (?b1, p1)"
    proof (cases "ns_last_sent ns \<noteq> 0 \<and> now - ns_last_sent ns < NACK_REPEAT")
      case True
      then show thesis using ns k by (intro that(1)) simp
    next
      case False
      then have "nack_loop ul now k (s # ss) (b, p) =
          (if ok then nack_loop ul now (k - 1) ss (?b1, p1) else nack_loop ul now k ss (b, p1))"
        using ns k snd by auto
      then show thesis
        using that(2,3) by (cases ok) simp_all
    qed
    then show ?thesis
    proof cases
      case 3
      obtain nacks where "fst (nack_loop ul now (k - 1) ss (?b1, p1)) = ?b1\<lparr>bw_nack_state := nacks\<rparr>"
        and "\<forall>t. nacks t \<noteq> None \<longrightarrow> bw_nack_state ?b1 t \<noteq> None"
        using Cons.IH [of "k - 1" ?b1 p1] by blast
      then show ?thesis
        using 3 ns by (intro exI [of _ nacks]) (auto split: if_splits)
    qed (use Cons.IH in metis)+
  qed
qed

lemma drop_stale_subset:
  "bw_nack_state (drop_stale_nack_state now b) s \<noteq> None \<Longrightarrow> bw_nack_state b s \<noteq> None"
  by (auto simp: drop_stale_nack_state_def split: option.splits)

lemma tick_inv:
  assumes "binlog_inv (b, disk)"
  shows "binlog_inv (fst (tick ul now order (b, p)), disk)"
proof -
  define iv where "iv = (if bw_any_block_seen b then START_KEEPALIVE else START_REPEAT)"
  obtain b1 p1 where s1: "maybe_start ul now iv (b, p) = (b1, p1)"
    by (rule prod.exhaust)
  have inv1: "binlog_inv (b1, disk)"
    using maybe_start_writer [of ul now iv b p] assms by (auto simp: s1)
  show ?thesis
  proof (cases "bw_any_block_seen b \<and> bw_fp b1 \<noteq> None")
    case False
    then show ?thesis
      using inv1 s1 by (auto simp: tick_def iv_def split: if_splits)
  next
    case True
    let ?b2 = "drop_stale_nack_state now (b1\<lparr>bw_pending_acks := []\<rparr>)"
    let ?p2 = "drain_acks ul b1 (bw_pending_acks b1) p1"
    obtain nacks where nl: "fst (nack_loop ul now MAX_NACKS_PER_TICK order (?b2, ?p2)) = ?b2\<lparr>bw_nack_state := nacks\<rparr>"
      and sub: "\<forall>s. nacks s \<noteq> None \<longrightarrow> bw_nack_state ?b2 s \<noteq> None"
      using nack_loop_writer by blast
    have "?b2\<lparr>bw_nack_state := nacks\<rparr> = b1\<lparr>bw_pending_acks := [], bw_nack_state := nacks\<rparr>"
      by (simp add: drop_stale_nack_state_def)
    moreover have "binlog_inv (b1\<lparr>bw_pending_acks := [], bw_nack_state := nacks\<rparr>, disk)"
      using sub drop_stale_subset [of now "b1\<lparr>bw_pending_acks := []\<rparr>"]
      by (intro binlog_inv_fewer [OF inv1]) auto
    ultimately show ?thesis
      using True s1 nl by (auto simp: tick_def iv_def)
  qed
qed

lemma rotate_sel:
  "bw_fp (rotate_for_reboot l b) = None"
  "bw_highest_seen (rotate_for_reboot l b) = 0"
  "bw_nack_state (rotate_for_reboot l b) = Map.empty"
  "bw_pending_acks (rotate_for_reboot l b) = []"
  "bw_last_start_sent (rotate_for_reboot l b) = 0"
  "bw_pending_session_n (rotate_for_reboot l b) = next_session_n l"
  "bw_other_sessions_bytes (rotate_for_reboot l b) = bw_other_sessions_bytes b"
  "bw_any_block_seen (rotate_for_reboot l b) = bw_any_block_seen b"
  "bw_target_system (rotate_for_reboot l b) = bw_target_system b"
  "bw_target_component (rotate_for_reboot l b) = bw_target_component b"
  "\<not> seqno_seen (rotate_for_reboot l b) s"
  by (simp_all add: rotate_for_reboot_def binlog_close_def seqno_seen_def bitmap_seen_iff vec_empty_def)

lemma binlog_inv_boot_ms [simp]:
  "binlog_inv (b\<lparr>bw_last_system_time_boot_ms := t\<rparr>, disk) = binlog_inv (b, disk)"
  by (auto simp: binlog_inv_def open_file_inv_def closed_file_inv_def seqno_seen_def split: option.split)

lemma observe_inv:
  assumes "binlog_inv (b, disk)"
  shows "binlog_inv (observe dt listing msg b, disk)"
proof -
  have "binlog_inv (rotate_for_reboot listing b, disk)"
    using assms by (simp add: binlog_inv_def closed_file_inv_def rotate_sel)
  then show ?thesis
    using assms by (simp add: observe_def Let_def)
qed

lemma handle_block_inv_1:
  assumes "binlog_inv st" and "ok_block_env env" and "length (snd (decode msg)) = BLOCK_BYTES"
  shows "binlog_inv (handle_block decode env port2 session_n msg st)"
proof -
  let ?d = "\<lambda>m. if m = msg then decode m else (0, replicate BLOCK_BYTES 0)"
  have "handle_block decode env port2 session_n msg st = handle_block ?d env port2 session_n msg st"
    by (simp add: handle_block_def)
  then show ?thesis
    using handle_block_inv [of st env ?d] assms by simp
qed

interpretation binlog_calls: inductive_invariant "binlog_step io" "\<lambda>st. binlog_inv (fst st)" "ok_event io"
  for io :: "'l binlog_io"
proof
  fix st :: "'l binlog_state" and e
  assume inv: "binlog_inv (fst st)" and ok: "ok_event io e"
  obtain b disk p where st: "st = ((b, disk), p)"
    by (metis prod.exhaust)
  show "binlog_inv (fst (binlog_step io e st))"
  proof (cases e)
    case (EBlock env port2 n msg)
    then show ?thesis
      using inv ok by (auto simp: st ok_event_def intro: handle_block_inv_1)
  next
    case (ETick now order)
    then show ?thesis
      using inv tick_inv [of b disk "io_link io" now order p] by (auto simp: st split: prod.split)
  next
    case (EObserve listing msg)
    then show ?thesis
      using inv by (auto simp: st intro: observe_inv)
  qed
qed

section \<open>The log it implements\<close>

text \<open>
  The abstract log: a partial map from sequence numbers to blocks, read back from the file. A
  block is accepted when it passes the start gate and the two size caps.
\<close>

definition abs_log :: "binlog_writer \<times> disk \<Rightarrow> u32 \<Rightarrow> bytes option" where
  "abs_log st s = (case bw_fp (fst st) of None \<Rightarrow> None | Some path \<Rightarrow>
     (case snd st path of None \<Rightarrow> None | Some f \<Rightarrow>
        if seqno_seen (fst st) s then Some (field f (unat s * BLOCK_BYTES) BLOCK_BYTES) else None))"

definition accepts :: "block_env \<Rightarrow> u32 \<Rightarrow> u32 \<Rightarrow> u32 \<Rightarrow> binlog_writer \<times> disk \<Rightarrow> bool" where
  "accepts env port2 session_n seqno st \<longleftrightarrow> (case block_gate env port2 session_n seqno st of
     None \<Rightarrow> False | Some st1 \<Rightarrow> within_caps (fst st1) seqno)"

lemma seen_block_within:
  assumes "open_file_inv b f" and "seqno_seen b s"
  shows "unat s * BLOCK_BYTES + BLOCK_BYTES \<le> length f"
proof -
  have "block_offset s \<le> block_offset (bw_highest_seen b)"
    using assms by (intro block_offset_mono) (simp add: open_file_inv_def)
  moreover have "block_offset (bw_highest_seen b) + int BLOCK_BYTES \<le> int (length f)"
    using assms by (auto simp: open_file_inv_def split: if_splits)
  ultimately have "nat (block_offset s) + BLOCK_BYTES \<le> length f"
    using block_offset_nonneg [of s] by linarith
  then show ?thesis
    by (simp add: nat_block_offset)
qed

lemma abs_log_gate:
  assumes inv: "binlog_inv (b, disk)"
    and "block_gate env port2 session_n seqno (b, disk) = Some st1"
  shows "abs_log st1 = abs_log (b, disk) \<and> bw_pending_acks (fst st1) = bw_pending_acks b"
  using assms(2)
proof (cases rule: block_gate_cases)
  case (already path)
  then show ?thesis by simp
next
  case (opened path b1)
  have "\<not> seqno_seen b1 s" for s
    using inv opened(1) seqno_seen_cong [OF opened(6)] by (simp add: binlog_inv_def closed_file_inv_def)
  then show ?thesis
    using opened(1,3,4,9) by (simp add: abs_log_def fun_eq_iff)
qed

lemma abs_log_stored:
  assumes inv: "open_file_inv b f" and len: "length data = BLOCK_BYTES"
    and path: "bw_fp b = Some path" "disk path = Some f"
  shows "abs_log (block_written env s n (latch_vehicle msg b), disk(path \<mapsto> write_at (nat (block_offset s)) data f))
       = (abs_log (b, disk))(s \<mapsto> data)"
proof
  fix t
  let ?g = "write_at (nat (block_offset s)) data f"
  have ne: "data \<noteq> []"
    using len by (auto simp: BLOCK_BYTES_def)
  have "field ?g (unat t * BLOCK_BYTES) BLOCK_BYTES = field f (unat t * BLOCK_BYTES) BLOCK_BYTES"
    if "t \<noteq> s" "seqno_seen b t"
  proof (rule write_at_other)
    have "unat t < unat s \<or> unat s < unat t"
      using \<open>t \<noteq> s\<close> by (metis nat_neq_iff word_unat_eq_iff)
    then show "unat t * BLOCK_BYTES + BLOCK_BYTES \<le> nat (block_offset s)
        \<or> nat (block_offset s) + length data \<le> unat t * BLOCK_BYTES"
      by (auto simp: nat_block_offset len BLOCK_BYTES_def)
    show "unat t * BLOCK_BYTES + BLOCK_BYTES \<le> length f"
      using inv \<open>seqno_seen b t\<close> by (rule seen_block_within)
  qed
  moreover have "field ?g (unat s * BLOCK_BYTES) BLOCK_BYTES = data"
    using write_at_same [OF ne, of "nat (block_offset s)" f] by (simp only: nat_block_offset len)
  ultimately show "abs_log (block_written env s n (latch_vehicle msg b), disk(path \<mapsto> ?g)) t
      = ((abs_log (b, disk))(s \<mapsto> data)) t"
    using path by (simp add: abs_log_def block_written_sel)
qed

lemma block_store_refines:
  assumes "open_file_inv b f" and "length data = BLOCK_BYTES" and "bw_fp b = Some path" and "disk path = Some f"
    and "be_seek_ok env" and "be_short env = None"
  shows "abs_log (block_store env msg s data (b, disk)) =
      (if within_caps b s then (abs_log (b, disk))(s \<mapsto> data) else abs_log (b, disk))
    \<and> bw_pending_acks (fst (block_store env msg s data (b, disk))) = bw_pending_acks b @ (if within_caps b s then [s] else [])"
  using assms(3,4,2)
proof (cases rule: block_store_cases [where env = env and msg = msg and seqno = s])
  case (failed n)
  then show ?thesis
    using assms(5,6) by simp
next
  case stored
  then show ?thesis
    using abs_log_stored [where disk = disk and path = path, OF assms(1-4)] by (simp add: block_written_sel)
qed simp

text \<open>
  C15: Storing refines the abstract log. With a healthy disk, \<open>handle_block\<close> maps the block's
  sequence number to its 200 bytes and queues exactly one ACK for it when the block passes the
  start gate and the caps, and changes neither the log nor the ACK queue otherwise; no other
  stored block is altered.\<close>

theorem binlog_block_refines:
  assumes inv: "binlog_inv st" and ok: "ok_block_env env"
    and len: "length (snd (decode msg)) = BLOCK_BYTES"
    and healthy: "be_seek_ok env" "be_short env = None"
  shows "abs_log (handle_block decode env port2 session_n msg st) =
           (if accepts env port2 session_n (fst (decode msg)) st
            then (abs_log st)(fst (decode msg) \<mapsto> snd (decode msg)) else abs_log st)
         \<and> bw_pending_acks (fst (handle_block decode env port2 session_n msg st)) =
             bw_pending_acks (fst st) @
               (if accepts env port2 session_n (fst (decode msg)) st then [fst (decode msg)] else [])"
proof -
  obtain b disk where st: "st = (b, disk)" by (rule prod.exhaust)
  define s where "s = fst (decode msg)"
  define data where "data = snd (decode msg)"
  show ?thesis
  proof (cases "block_gate env port2 session_n s (b, disk)")
    case None
    then show ?thesis
      by (simp add: handle_block_def accepts_def case_prod_beta st s_def)
  next
    case (Some st1)
    obtain b1 disk1 where st1: "st1 = (b1, disk1)" by (rule prod.exhaust)
    have g: "binlog_inv (b1, disk1)" "bw_fp b1 \<noteq> None"
      using block_gate_inv [OF inv [unfolded st] ok Some] by (simp_all add: st1)
    have a: "abs_log (b1, disk1) = abs_log (b, disk)" "bw_pending_acks b1 = bw_pending_acks b"
      using abs_log_gate [OF inv [unfolded st] Some] by (simp_all add: st1)
    obtain path f where pf: "bw_fp b1 = Some path" "disk1 path = Some f" and fi: "open_file_inv b1 f"
      using g by (auto simp: binlog_inv_def split: option.splits)
    have hb: "handle_block decode env port2 session_n msg st = block_store env msg s data (b1, disk1)"
      using Some by (simp add: handle_block_def case_prod_beta st st1 s_def data_def)
    have acc: "accepts env port2 session_n s st \<longleftrightarrow> within_caps b1 s"
      using Some by (simp add: accepts_def st st1)
    show ?thesis
      using block_store_refines [where disk = disk1 and path = path, OF fi len [folded data_def] pf healthy, of msg s]
      unfolding hb acc s_def [symmetric] data_def [symmetric] by (simp add: a st)
  qed
qed

section \<open>A concrete writer\<close>

definition sample_block_env :: block_env where
  "sample_block_env = \<lparr>be_now = seconds 5,
     be_open = \<lparr>oe_tm = \<lparr>tm_year = 126, tm_mon = 0, tm_mday = 1\<rparr>, oe_mkdir = (\<lambda>_. Mkdir_ok),
                oe_fopen = (\<lambda>_. True)\<rparr>,
     be_listing_open = Some [], be_listing_refresh = Some [], be_own = None,
     be_seek_ok = True, be_short = None\<rparr>"

definition sample_block_msg :: mavlink_msg where
  "sample_block_msg = \<lparr>m_incompat_flags = 0, m_seq = 0, m_sysid = 1, m_compid = 1, m_msgid = 184,
     m_payload = [], m_signature = []\<rparr>"

definition sample_open_log :: "binlog_writer \<times> disk" where
  "sample_open_log = (binlog_init\<lparr>bw_fp := Some ''a.bin''\<rparr>, [''a.bin'' \<mapsto> []])"

lemma sample_log_ok:
  "binlog_inv sample_open_log" "ok_block_env sample_block_env"
  "be_seek_ok sample_block_env" "be_short sample_block_env = None"
  by (simp_all add: sample_open_log_def sample_block_env_def ok_block_env_def ok_listing_def
      listing_dirs_def binlog_inv_def open_file_inv_def binlog_init_def seqno_seen_def bitmap_seen_iff
      vec_empty_def MAX_PER_PORT2_BYTES_def)

lemma sample_log_accepts: "accepts sample_block_env 10001 1 0 sample_open_log"
  by (simp add: accepts_def sample_open_log_def block_gate_def within_caps_def prospective_size_def
      block_offset_def binlog_init_def BLOCK_BYTES_def MAX_FORWARD_JUMP_BYTES_def MAX_PER_PORT2_BYTES_def)

theorem binlog_block_refines_witness:
  "abs_log (handle_block (\<lambda>_. (0, replicate 200 7)) sample_block_env 10001 1 sample_block_msg sample_open_log) 0
     = Some (replicate 200 7)
   \<and> bw_pending_acks (fst (handle_block (\<lambda>_. (0, replicate 200 7)) sample_block_env 10001 1
       sample_block_msg sample_open_log)) = [0]"
proof -
  have "length (snd ((0, replicate 200 7) :: u32 \<times> bytes)) = BLOCK_BYTES"
    by (simp add: BLOCK_BYTES_def)
  then have "abs_log (handle_block (\<lambda>_. (0, replicate 200 7)) sample_block_env 10001 1 sample_block_msg sample_open_log)
      = (abs_log sample_open_log)(0 \<mapsto> replicate 200 7)
    \<and> bw_pending_acks (fst (handle_block (\<lambda>_. (0, replicate 200 7)) sample_block_env 10001 1
       sample_block_msg sample_open_log)) = bw_pending_acks (fst sample_open_log) @ [0]"
    using binlog_block_refines [OF sample_log_ok(1,2) _ sample_log_ok(3,4),
        of "\<lambda>_. (0, replicate 200 7)" sample_block_msg] sample_log_accepts by simp
  then show ?thesis
    by (simp add: sample_open_log_def binlog_init_def)
qed

section \<open>Runs of the writer\<close>

lemma abs_log_inv:
  assumes "binlog_inv st"
  shows "s \<in> set (bw_pending_acks (fst st)) \<Longrightarrow> \<exists>blk. abs_log st s = Some blk \<and> length blk = BLOCK_BYTES"
    and "bw_nack_state (fst st) s \<noteq> None \<Longrightarrow> abs_log st s = None \<and> s < bw_highest_seen (fst st)"
    and "bw_fp (fst st) \<noteq> None \<Longrightarrow> bw_current_file_size (fst st) \<le> MAX_PER_PORT2_BYTES"
proof -
  obtain b disk where st: "st = (b, disk)" by (rule prod.exhaust)
  consider (closed) "bw_fp b = None" "closed_file_inv b"
    | (opened) path f where "bw_fp b = Some path" "disk path = Some f" "open_file_inv b f"
    using assms by (auto simp: binlog_inv_def st split: option.splits)
  then have "(s \<in> set (bw_pending_acks b) \<longrightarrow> (\<exists>blk. abs_log st s = Some blk \<and> length blk = BLOCK_BYTES))
      \<and> (bw_nack_state b s \<noteq> None \<longrightarrow> abs_log st s = None \<and> s < bw_highest_seen b)
      \<and> (bw_fp b \<noteq> None \<longrightarrow> bw_current_file_size b \<le> MAX_PER_PORT2_BYTES)"
  proof cases
    case closed
    then show ?thesis
      by (simp add: closed_file_inv_def)
  next
    case opened
    have "length (field f (unat s * BLOCK_BYTES) BLOCK_BYTES) = BLOCK_BYTES" if "seqno_seen b s"
      using seen_block_within [OF opened(3) that] by (simp add: field_def)
    then show ?thesis
      using opened by (auto simp: open_file_inv_def abs_log_def st)
  qed
  then show "s \<in> set (bw_pending_acks (fst st)) \<Longrightarrow> \<exists>blk. abs_log st s = Some blk \<and> length blk = BLOCK_BYTES"
    and "bw_nack_state (fst st) s \<noteq> None \<Longrightarrow> abs_log st s = None \<and> s < bw_highest_seen (fst st)"
    and "bw_fp (fst st) \<noteq> None \<Longrightarrow> bw_current_file_size (fst st) \<le> MAX_PER_PORT2_BYTES"
    by (simp_all add: st)
qed

text \<open>
  C14: Over any sequence of blocks, ticks and observed messages, starting from a new writer:
  every sequence number waiting to be acknowledged has its complete 200-byte block in the open
  file, every sequence number tracked as missing is below the highest one and not stored, and
  the tracked file size never exceeds the 1 GiB quota.\<close>

theorem binlog_run_safe:
  assumes "\<forall>e \<in> set evs. ok_event io e"
    and "st = fst (fold (binlog_step io) evs ((binlog_init, disk), p))"
  shows "(\<forall>s \<in> set (bw_pending_acks (fst st)). \<exists>blk. abs_log st s = Some blk \<and> length blk = BLOCK_BYTES)
    \<and> (\<forall>s. bw_nack_state (fst st) s \<noteq> None \<longrightarrow> abs_log st s = None \<and> s < bw_highest_seen (fst st))
    \<and> (bw_fp (fst st) \<noteq> None \<longrightarrow> bw_current_file_size (fst st) \<le> MAX_PER_PORT2_BYTES)"
proof -
  have "binlog_inv st"
    unfolding assms(2) by (rule binlog_calls.run_inv) (use assms(1) binlog_inv_init in auto)
  then show ?thesis
    using abs_log_inv by blast
qed

definition sample_io :: "unit binlog_io" where
  "sample_io = \<lparr>io_decode = (\<lambda>m. (of_nat (length (m_payload m)), replicate 200 7)), io_time = (\<lambda>_. 0),
     io_link = \<lparr>ul_pack_status = (\<lambda>l _ _ _ _ _ _. (l, [0])), ul_send_buf = (\<lambda>l _. (l, 1))\<rparr>\<rparr>"

text \<open>A first block, then the fourth: three missing ones are tracked.\<close>

definition sample_gap_run :: "binlog_event list" where
  "sample_gap_run = [EBlock sample_block_env 10001 1 sample_block_msg,
     ETick (seconds 6) [], EBlock sample_block_env 10001 1 (sample_block_msg\<lparr>m_payload := [0, 0, 0]\<rparr>)]"

theorem binlog_run_safe_witness:
  "set (bw_pending_acks (fst (fst (fold (binlog_step sample_io) sample_gap_run
      ((binlog_init, Map.empty), ((), []))))))
    \<subseteq> dom (abs_log (fst (fold (binlog_step sample_io) sample_gap_run ((binlog_init, Map.empty), ((), [])))))"
proof -
  have "\<forall>e \<in> set sample_gap_run. ok_event sample_io e"
    using sample_log_ok(2) by (simp add: sample_gap_run_def ok_event_def sample_io_def BLOCK_BYTES_def)
  from binlog_run_safe [OF this refl, of Map.empty "((), [])"] show ?thesis
    by (meson domI subsetI)
qed

section \<open>The strict start\<close>

definition not_start_block :: "'l binlog_io \<Rightarrow> binlog_event \<Rightarrow> bool" where
  "not_start_block io e \<longleftrightarrow> (case e of EBlock _ _ _ msg \<Rightarrow> fst (io_decode io msg) \<noteq> 0 | _ \<Rightarrow> True)"

lemma maybe_start_out:
  "\<exists>starts. snd (snd (maybe_start ul now iv (b, p))) = snd p @ starts
     \<and> (fst ` set starts \<subseteq> {MAV_REMOTE_LOG_DATA_BLOCK_START})"
  by (cases p) (auto simp: maybe_start_def send_start_packet_def pack_and_send_def Let_def split: prod.splits)

lemma tick_closed:
  assumes "bw_fp b = None"
  shows "bw_fp (fst (tick ul now order (b, p))) = None"
    and "\<exists>starts. snd (snd (tick ul now order (b, p))) = snd p @ starts
      \<and> (fst ` set starts \<subseteq> {MAV_REMOTE_LOG_DATA_BLOCK_START})"
proof -
  define iv where "iv = (if bw_any_block_seen b then START_KEEPALIVE else START_REPEAT)"
  have "bw_fp (fst (maybe_start ul now iv (b, p))) = None"
    using maybe_start_writer [of ul now iv b p] assms by auto
  then have "tick ul now order (b, p) = maybe_start ul now iv (b, p)"
    by (auto simp: tick_def iv_def split: prod.split)
  then show "bw_fp (fst (tick ul now order (b, p))) = None"
    and "\<exists>starts. snd (snd (tick ul now order (b, p))) = snd p @ starts
      \<and> (fst ` set starts \<subseteq> {MAV_REMOTE_LOG_DATA_BLOCK_START})"
    using maybe_start_writer [of ul now iv b p] assms maybe_start_out [of ul now iv b p] by auto
qed

lemma closed_step:
  assumes "bw_fp b = None" and "not_start_block io e"
  shows "\<exists>b' l' starts. binlog_step io e ((b, disk), (l, out)) = ((b', disk), (l', out @ starts))
    \<and> bw_fp b' = None \<and> (fst ` set starts \<subseteq> {MAV_REMOTE_LOG_DATA_BLOCK_START})"
proof (cases e)
  case (EBlock env port2 n msg)
  then have "handle_block (io_decode io) env port2 n msg (b, disk) = (b, disk)"
    using assms by (simp add: handle_block_def block_gate_def not_start_block_def case_prod_beta)
  then show ?thesis
    using EBlock assms(1) by (auto intro!: exI [of _ b] exI [of _ l] exI [of _ "[]"])
next
  case (ETick now order)
  obtain b' l' out' where t: "tick (io_link io) now order (b, l, out) = (b', l', out')"
    by (metis prod.exhaust)
  then show ?thesis
    using ETick tick_closed [OF assms(1), of "io_link io" now order "(l, out)"] by auto
next
  case (EObserve listing msg)
  then show ?thesis
    using assms(1) by (auto simp: observe_def Let_def rotate_sel intro!: exI [of _ "[]"])
qed

text \<open>
  C16: The strict start: while no file is open, no sequence of ticks, observed messages and blocks
  other than block 0 touches the disk, opens a file, or sends anything but START requests; in
  particular delayed blocks of the previous boot cannot reach the file opened after a rotation.\<close>

theorem binlog_strict_start:
  assumes "bw_fp b = None" and "\<forall>e \<in> set evs. not_start_block io e"
  shows "\<exists>b' l' starts. fold (binlog_step io) evs ((b, disk), (l, out)) = ((b', disk), (l', out @ starts))
    \<and> bw_fp b' = None \<and> (fst ` set starts \<subseteq> {MAV_REMOTE_LOG_DATA_BLOCK_START})"
  using assms
proof (induction evs arbitrary: b l out)
  case Nil
  then show ?case by (auto intro!: exI [of _ "[]"])
next
  case (Cons e evs)
  obtain b1 l1 starts where 1: "binlog_step io e ((b, disk), (l, out)) = ((b1, disk), (l1, out @ starts))"
    "bw_fp b1 = None" "fst ` set starts \<subseteq> {MAV_REMOTE_LOG_DATA_BLOCK_START}"
    using closed_step [of b io e disk l out] Cons.prems by auto
  obtain b2 l2 more where 2: "fold (binlog_step io) evs ((b1, disk), (l1, out @ starts)) = ((b2, disk), (l2, (out @ starts) @ more))"
    "bw_fp b2 = None" "fst ` set more \<subseteq> {MAV_REMOTE_LOG_DATA_BLOCK_START}"
    using Cons.IH [OF 1(2), of l1 "out @ starts"] Cons.prems(2) by auto
  show ?case
    using 1 2 by (intro exI [of _ b2] exI [of _ l2] exI [of _ "starts @ more"]) auto
qed

theorem binlog_strict_start_witness:
  "\<exists>b' l' starts. fold (binlog_step sample_io)
      [EBlock sample_block_env 10001 1 (sample_block_msg\<lparr>m_payload := [0, 0, 0]\<rparr>), ETick (seconds 6) []]
      ((binlog_init, Map.empty), ((), [])) = ((b', Map.empty), (l', [] @ starts))
    \<and> bw_fp b' = None \<and> (fst ` set starts \<subseteq> {MAV_REMOTE_LOG_DATA_BLOCK_START})"
  by (rule binlog_strict_start) (simp_all add: binlog_init_def not_start_block_def sample_io_def)

section \<open>What a tick sends\<close>

lemma tick_shape:
  assumes "packs ul" and "bw_any_block_seen b" and "bw_fp b \<noteq> None" and "distinct order"
  shows "\<exists>b1 starts oks nacks.
    snd (snd (tick ul now order (b, (l, out)))) =
      out @ starts @ map2 (\<lambda>s ok. (s, MAV_REMOTE_LOG_DATA_BLOCK_ACK, ok)) (bw_pending_acks b) oks @ nacks
    \<and> length oks = length (bw_pending_acks b)
    \<and> map (\<lambda>(s, st, ok). (s, st)) starts =
        (if START_KEEPALIVE \<le> now - bw_last_start_sent b
         then [(MAV_REMOTE_LOG_DATA_BLOCK_START, MAV_REMOTE_LOG_DATA_BLOCK_ACK)] else [])
    \<and> b1 = drop_stale_nack_state now (b\<lparr>bw_pending_acks := [], bw_last_start_sent := bw_last_start_sent b1\<rparr>)
    \<and> nacks_ok now MAX_NACKS_PER_TICK order b1 (fst (tick ul now order (b, (l, out)))) nacks"
proof -
  obtain l1 ok where s: "maybe_start ul now START_KEEPALIVE (b, (l, out)) =
      (if START_KEEPALIVE \<le> now - bw_last_start_sent b
       then (if ok then b\<lparr>bw_last_start_sent := now\<rparr> else b,
             (l1, out @ [(MAV_REMOTE_LOG_DATA_BLOCK_START, MAV_REMOTE_LOG_DATA_BLOCK_ACK, ok)]))
       else (b, (l, out)))"
    using maybe_start_sends [OF assms(1)] by blast
  define starts where "starts = (if START_KEEPALIVE \<le> now - bw_last_start_sent b
      then [(MAV_REMOTE_LOG_DATA_BLOCK_START, MAV_REMOTE_LOG_DATA_BLOCK_ACK, ok)] else [])"
  obtain b1 l2 where s1: "maybe_start ul now START_KEEPALIVE (b, (l, out)) = (b1, (l2, out @ starts))"
    and b1: "b1 = b\<lparr>bw_last_start_sent := bw_last_start_sent b1\<rparr>"
    using s by (auto simp: starts_def split: if_splits)
  have keep: "bw_any_block_seen b1" "bw_fp b1 \<noteq> None" "bw_pending_acks b1 = bw_pending_acks b"
    by (subst b1, simp add: assms(2,3))+
  obtain l3 oks where d: "length oks = length (bw_pending_acks b)"
    "drain_acks ul b1 (bw_pending_acks b) (l2, out @ starts) =
      (l3, (out @ starts) @ map2 (\<lambda>s ok. (s, MAV_REMOTE_LOG_DATA_BLOCK_ACK, ok)) (bw_pending_acks b) oks)"
    using drain_acks_sends [OF assms(1) keep(1)] by blast
  let ?b2 = "drop_stale_nack_state now (b1\<lparr>bw_pending_acks := []\<rparr>)"
  have "bw_any_block_seen ?b2"
    using keep(1) by (simp add: drop_stale_nack_state_def)
  then obtain b3 l4 nacks where n: "nack_loop ul now MAX_NACKS_PER_TICK order
        (?b2, (l3, (out @ starts) @ map2 (\<lambda>s ok. (s, MAV_REMOTE_LOG_DATA_BLOCK_ACK, ok)) (bw_pending_acks b) oks))
      = (b3, (l4, ((out @ starts) @ map2 (\<lambda>s ok. (s, MAV_REMOTE_LOG_DATA_BLOCK_ACK, ok)) (bw_pending_acks b) oks) @ nacks))"
    "nacks_ok now MAX_NACKS_PER_TICK order ?b2 b3 nacks"
    using nack_loop_ok [OF assms(1) _ assms(4)] by blast
  have t: "tick ul now order (b, (l, out)) = (b3, (l4, out @ starts
      @ map2 (\<lambda>s ok. (s, MAV_REMOTE_LOG_DATA_BLOCK_ACK, ok)) (bw_pending_acks b) oks @ nacks))"
    using assms(2) s1 keep d n(1) by (auto simp: tick_def Let_def)
  have b2: "?b2 = drop_stale_nack_state now (b\<lparr>bw_pending_acks := [], bw_last_start_sent := bw_last_start_sent ?b2\<rparr>)"
  proof -
    have "b1\<lparr>bw_pending_acks := []\<rparr> = b\<lparr>bw_pending_acks := [], bw_last_start_sent := bw_last_start_sent b1\<rparr>"
      by (subst b1) (rule binlog_writer.equality, simp_all)
    moreover have "bw_last_start_sent ?b2 = bw_last_start_sent b1"
      by (simp add: drop_stale_nack_state_def)
    ultimately show ?thesis by metis
  qed
  show ?thesis
    using d(1) n(2) b2 unfolding t snd_conv fst_conv
    by (intro exI [of _ ?b2] exI [of _ starts] exI [of _ oks] exI [of _ nacks]) (simp add: starts_def)
qed

definition sample_streaming :: binlog_writer where
  "sample_streaming = binlog_init\<lparr>bw_fp := Some ''a.bin'', bw_any_block_seen := True,
     bw_last_start_sent := seconds 9, bw_highest_seen := 5, bw_pending_acks := [0, 5],
     bw_nack_state := [3 \<mapsto> \<lparr>ns_first_seen = seconds 9, ns_last_sent = 0\<rparr>]\<rparr>"

lemma sample_streaming_ok:
  "packs (io_link sample_io)" "bw_any_block_seen sample_streaming" "bw_fp sample_streaming \<noteq> None"
  "distinct [3 :: u32]"
  by (simp_all add: packs_def sample_io_def sample_streaming_def)

lemma sample_streaming_tick:
  "snd (snd (tick (io_link sample_io) (seconds 10) [3] (sample_streaming, ((), [])))) =
     [(0, 1, True), (5, 1, True), (3, 0, True)]"
  by (simp add: tick_def sample_streaming_def sample_io_def maybe_start_def binlog_init_def seconds_def
      START_KEEPALIVE_def drop_stale_nack_state_def stale_nack_def seqno_seen_def bitmap_seen_iff
      vec_empty_def NACK_GIVEUP_def NACK_GIVEUP_BLOCKS_def MAX_NACKS_PER_TICK_def send_status_def
      pack_and_send_def MAV_REMOTE_LOG_DATA_BLOCK_ACK_def MAV_REMOTE_LOG_DATA_BLOCK_NACK_def)

text \<open>
  C17: A tick while streaming sends, in this order: a START if the 5 s keep-alive is due; one ACK
  for every queued sequence number, oldest first, leaving the queue empty; then NACKs only for
  sequence numbers that are missing, not given up, and whose 100 ms throttle has elapsed, at most
  ten of them successfully and, if fewer succeed, all that are due. A successful NACK stamps its
  entry with the present time and nothing else changes.\<close>

theorem binlog_tick_streaming:
  assumes "packs ul" and "bw_any_block_seen b" and "bw_fp b \<noteq> None" and "distinct order"
  shows "\<exists>b1 starts oks nacks.
    snd (snd (tick ul now order (b, (l, out)))) =
      out @ starts @ map2 (\<lambda>s ok. (s, MAV_REMOTE_LOG_DATA_BLOCK_ACK, ok)) (bw_pending_acks b) oks @ nacks
    \<and> length oks = length (bw_pending_acks b)
    \<and> map (\<lambda>(s, st, ok). (s, st)) starts =
        (if START_KEEPALIVE \<le> now - bw_last_start_sent b
         then [(MAV_REMOTE_LOG_DATA_BLOCK_START, MAV_REMOTE_LOG_DATA_BLOCK_ACK)] else [])
    \<and> b1 = drop_stale_nack_state now (b\<lparr>bw_pending_acks := [], bw_last_start_sent := bw_last_start_sent b1\<rparr>)
    \<and> nacks_ok now MAX_NACKS_PER_TICK order b1 (fst (tick ul now order (b, (l, out)))) nacks"
  using assms by (rule tick_shape)

theorem binlog_tick_streaming_witness:
  "\<exists>starts oks nacks.
    [(0 :: u32, 1 :: u8, True), (5, 1, True), (3, 0, True)] =
      starts @ map2 (\<lambda>s ok. (s, MAV_REMOTE_LOG_DATA_BLOCK_ACK, ok)) [0, 5] oks @ nacks
    \<and> length oks = 2"
proof -
  obtain starts oks nacks where
    "[(0, 1, True), (5, 1, True), (3, 0, True)] = starts
       @ map2 (\<lambda>s ok. (s, MAV_REMOTE_LOG_DATA_BLOCK_ACK, ok)) (bw_pending_acks sample_streaming) oks @ nacks"
    and "length oks = length (bw_pending_acks sample_streaming)"
    using binlog_tick_streaming [OF sample_streaming_ok, of "seconds 10" "()" "[]"]
    unfolding sample_streaming_tick append_Nil by blast
  then show ?thesis
    by (intro exI [of _ starts] exI [of _ oks] exI [of _ nacks]) (simp add: sample_streaming_def)
qed

text \<open>
  The NACK throttle: a tick that sends a NACK for a sequence number finds that it is not
  stored, lies at most 200 blocks behind the highest one, was first missed at most 60 s ago, and
  was last successfully NACKed at least 100 ms ago, or never.\<close>

theorem binlog_nack_throttle:
  assumes "packs ul" and "bw_any_block_seen b" and "bw_fp b \<noteq> None" and "distinct order"
    and "(s, MAV_REMOTE_LOG_DATA_BLOCK_NACK, ok) \<in> set (snd (snd (tick ul now order (b, (l, [])))))"
  shows "\<exists>ns. bw_nack_state b s = Some ns \<and> \<not> seqno_seen b s
    \<and> now - ns_first_seen ns \<le> NACK_GIVEUP
    \<and> \<not> (s \<le> bw_highest_seen b \<and> NACK_GIVEUP_BLOCKS < bw_highest_seen b - s)
    \<and> (ns_last_sent ns = 0 \<or> NACK_REPEAT \<le> now - ns_last_sent ns)
    \<and> (ok \<longrightarrow> bw_nack_state (fst (tick ul now order (b, (l, [])))) s = Some (ns\<lparr>ns_last_sent := now\<rparr>))"
proof -
  let ?t = "tick ul now order (b, (l, []))"
  obtain b1 starts oks nacks where t:
    "snd (snd ?t) = starts @ map2 (\<lambda>s ok. (s, MAV_REMOTE_LOG_DATA_BLOCK_ACK, ok)) (bw_pending_acks b) oks @ nacks"
    "map (\<lambda>(s, st, ok). (s, st)) starts =
        (if START_KEEPALIVE \<le> now - bw_last_start_sent b
         then [(MAV_REMOTE_LOG_DATA_BLOCK_START, MAV_REMOTE_LOG_DATA_BLOCK_ACK)] else [])"
    "b1 = drop_stale_nack_state now (b\<lparr>bw_pending_acks := [], bw_last_start_sent := bw_last_start_sent b1\<rparr>)"
    "nacks_ok now MAX_NACKS_PER_TICK order b1 (fst ?t) nacks"
    using tick_shape [OF assms(1-4), of now l "[]"] by auto
  have ne: "MAV_REMOTE_LOG_DATA_BLOCK_NACK \<noteq> MAV_REMOTE_LOG_DATA_BLOCK_ACK"
    by (simp add: MAV_REMOTE_LOG_DATA_BLOCK_NACK_def MAV_REMOTE_LOG_DATA_BLOCK_ACK_def)
  have "(s, MAV_REMOTE_LOG_DATA_BLOCK_NACK, ok) \<notin> set starts"
  proof
    assume "(s, MAV_REMOTE_LOG_DATA_BLOCK_NACK, ok) \<in> set starts"
    then have "(s, MAV_REMOTE_LOG_DATA_BLOCK_NACK) \<in> set (map (\<lambda>(s, st, ok). (s, st)) starts)"
      by force
    with ne show False
      unfolding t(2) by (auto split: if_splits)
  qed
  moreover have "(s, MAV_REMOTE_LOG_DATA_BLOCK_NACK, ok) \<notin>
      set (map2 (\<lambda>s ok. (s, MAV_REMOTE_LOG_DATA_BLOCK_ACK, ok)) (bw_pending_acks b) oks)"
    using ne by auto
  ultimately have sent: "(s, MAV_REMOTE_LOG_DATA_BLOCK_NACK, ok) \<in> set nacks"
    using assms(5) unfolding t(1) by auto
  then have "nack_due now b1 s"
    using t(4) by (auto simp: nacks_ok_def)
  then obtain ns where ns: "bw_nack_state b1 s = Some ns"
    and due: "ns_last_sent ns = 0 \<or> NACK_REPEAT \<le> now - ns_last_sent ns"
    by (auto simp: nack_due_def split: option.splits)
  have "bw_nack_state b s = Some ns \<and> \<not> stale_nack now b s ns"
    using ns by (subst (asm) t(3)) (auto simp: drop_stale_nack_state_def stale_nack_def seqno_seen_def
        split: option.splits if_splits)
  moreover have "ok \<longrightarrow> bw_nack_state (fst ?t) s = Some (ns\<lparr>ns_last_sent := now\<rparr>)"
    using t(4) sent ns by (auto simp: nacks_ok_def)
  ultimately show ?thesis
    using due by (auto simp: stale_nack_def split: if_splits)
qed

theorem binlog_nack_throttle_witness:
  "\<exists>ns. bw_nack_state sample_streaming 3 = Some ns \<and> \<not> seqno_seen sample_streaming 3
    \<and> (ns_last_sent ns = 0 \<or> NACK_REPEAT \<le> seconds 10 - ns_last_sent ns)"
proof -
  have "(3, MAV_REMOTE_LOG_DATA_BLOCK_NACK, True) \<in>
      set (snd (snd (tick (io_link sample_io) (seconds 10) [3] (sample_streaming, ((), [])))))"
    by (simp add: sample_streaming_tick MAV_REMOTE_LOG_DATA_BLOCK_NACK_def)
  from binlog_nack_throttle [OF sample_streaming_ok this] show ?thesis
    by blast
qed

section \<open>The caps\<close>

lemma length_write_prefix:
  assumes "length data = BLOCK_BYTES" and "open_file_inv b f"
  shows "int (length (write_at (nat (block_offset s)) (take n data) f))
       \<le> max (int (length f)) (prospective_size b s)"
proof (cases "take n data = []")
  case True
  then show ?thesis by (simp add: write_at_def)
next
  case False
  have "int (length (take n data)) \<le> int BLOCK_BYTES"
    using assms(1) by simp
  then have "block_offset s + int (length (take n data)) \<le> prospective_size b s"
    by (simp add: prospective_size_def)
  then show ?thesis
    using False by (simp add: length_write_at of_nat_max)
qed

text \<open>
  Damage bounds: whatever sequence number a peer sends, and even if the write fails half-way,
  one block makes the open file at most 100 MiB longer than its tracked size, and never takes the
  file, together with the other sessions' bytes as last counted, beyond the 1 GiB quota; no other
  file changes.\<close>

theorem binlog_block_growth:
  assumes inv: "binlog_inv (b, disk)" and path: "bw_fp b = Some path" "disk path = Some f"
    and len: "length (snd (decode msg)) = BLOCK_BYTES"
  shows "\<exists>g. snd (handle_block decode env port2 session_n msg (b, disk)) = disk(path \<mapsto> g)
    \<and> int (length g) \<le> max (int (length f)) (bw_current_file_size b + MAX_FORWARD_JUMP_BYTES)
    \<and> int (length g) \<le> max (int (length f)) (MAX_PER_PORT2_BYTES - bw_other_sessions_bytes b)"
proof -
  let ?s = "fst (decode msg)" and ?d = "snd (decode msg)"
  have fi: "open_file_inv b f"
    using inv path by (simp add: binlog_inv_def)
  have hb: "handle_block decode env port2 session_n msg (b, disk) = block_store env msg ?s ?d (b, disk)"
    using path(1) by (simp add: handle_block_def block_gate_def case_prod_beta)
  have grown: "\<exists>g. disk(path \<mapsto> write_at (nat (block_offset ?s)) (take n ?d) f) = disk(path \<mapsto> g)
      \<and> int (length g) \<le> max (int (length f)) (bw_current_file_size b + MAX_FORWARD_JUMP_BYTES)
      \<and> int (length g) \<le> max (int (length f)) (MAX_PER_PORT2_BYTES - bw_other_sessions_bytes b)"
    if "within_caps b ?s" for n
    using length_write_prefix [OF len fi, of ?s n] that
    by (intro exI [of _ "write_at (nat (block_offset ?s)) (take n ?d) f"]) (auto simp: within_caps_def)
  from path len show ?thesis
  proof (cases rule: block_store_cases [where env = env and msg = msg and seqno = ?s])
    case dropped
    then show ?thesis
      unfolding hb using path(2) by (intro exI [of _ f]) auto
  next
    case (failed n)
    then show ?thesis
      unfolding hb using grown [OF failed(1), of n] by simp
  next
    case stored
    then show ?thesis
      unfolding hb using grown [OF stored(1), of BLOCK_BYTES] len by simp
  qed
qed

theorem binlog_block_growth_witness:
  "\<exists>g. snd (handle_block (\<lambda>_. (4294967295, replicate 200 0)) sample_block_env 10001 1 sample_block_msg
        sample_open_log) = (snd sample_open_log)(''a.bin'' \<mapsto> g)
    \<and> int (length g) \<le> MAX_FORWARD_JUMP_BYTES"
  using binlog_block_growth [of "fst sample_open_log" "snd sample_open_log" "''a.bin''" "[]"
      "\<lambda>_. (4294967295, replicate 200 0)" sample_block_msg sample_block_env 10001 1] sample_log_ok(1)
  by (simp add: sample_open_log_def binlog_init_def BLOCK_BYTES_def MAX_FORWARD_JUMP_BYTES_def) blast

section \<open>The quota does not recover by itself\<close>

definition over_quota :: "binlog_writer \<Rightarrow> bool" where
  "over_quota b \<longleftrightarrow> bw_fp b \<noteq> None
     \<and> MAX_PER_PORT2_BYTES < bw_other_sessions_bytes b + max (bw_current_file_size b) (int BLOCK_BYTES)"

definition block_or_tick :: "binlog_event \<Rightarrow> bool" where
  "block_or_tick e \<longleftrightarrow> (case e of EObserve _ _ \<Rightarrow> False | _ \<Rightarrow> True)"

lemma over_quota_block:
  assumes "over_quota b"
  shows "handle_block decode env port2 session_n msg (b, disk) = (b, disk)"
proof -
  have "max (bw_current_file_size b) (int BLOCK_BYTES) \<le> prospective_size b (fst (decode msg))"
    unfolding prospective_size_def using block_offset_nonneg [of "fst (decode msg)"] by linarith
  then have "MAX_PER_PORT2_BYTES < bw_other_sessions_bytes b + prospective_size b (fst (decode msg))"
    using assms unfolding over_quota_def by linarith
  then show ?thesis
    using assms by (auto simp: handle_block_def block_gate_def block_store_def over_quota_def Let_def case_prod_beta)
qed

lemma tick_writer_frame:
  "bw_fp (fst (tick ul now order (b, p))) = bw_fp b
   \<and> bw_other_sessions_bytes (fst (tick ul now order (b, p))) = bw_other_sessions_bytes b
   \<and> bw_current_file_size (fst (tick ul now order (b, p))) = bw_current_file_size b
   \<and> bw_seen_bitmap (fst (tick ul now order (b, p))) = bw_seen_bitmap b"
proof -
  define iv where "iv = (if bw_any_block_seen b then START_KEEPALIVE else START_REPEAT)"
  obtain b1 p1 where s1: "maybe_start ul now iv (b, p) = (b1, p1)"
    by (rule prod.exhaust)
  have b1: "bw_fp b1 = bw_fp b \<and> bw_other_sessions_bytes b1 = bw_other_sessions_bytes b
      \<and> bw_current_file_size b1 = bw_current_file_size b \<and> bw_seen_bitmap b1 = bw_seen_bitmap b"
    using maybe_start_writer [of ul now iv b p] by (auto simp: s1)
  obtain nacks where "fst (nack_loop ul now MAX_NACKS_PER_TICK order
      (drop_stale_nack_state now (b1\<lparr>bw_pending_acks := []\<rparr>), drain_acks ul b1 (bw_pending_acks b1) p1))
    = drop_stale_nack_state now (b1\<lparr>bw_pending_acks := []\<rparr>)\<lparr>bw_nack_state := nacks\<rparr>"
    using nack_loop_writer by blast
  then show ?thesis
    using b1 s1 by (auto simp: tick_def iv_def drop_stale_nack_state_def split: if_splits)
qed

lemma over_quota_step:
  assumes "over_quota b" and "block_or_tick e"
  shows "\<exists>b' p'. binlog_step io e ((b, disk), p) = ((b', disk), p') \<and> over_quota b'
    \<and> seqno_seen b' = seqno_seen b"
proof (cases e)
  case (EBlock env port2 n msg)
  then show ?thesis
    using over_quota_block [OF assms(1)] assms(1) by auto
next
  case (ETick now order)
  then show ?thesis
    using assms(1) tick_writer_frame [of "io_link io" now order b p]
    by (auto simp: over_quota_def seqno_seen_def fun_eq_iff split: prod.split)
next
  case (EObserve listing msg)
  then show ?thesis
    using assms(2) by (simp add: block_or_tick_def)
qed

text \<open>
  The quota does not recover by itself: once the open file (or its first block) and the bytes
  counted for the other sessions exceed the quota, no sequence of blocks and ticks stores
  anything, whatever the cleanup deletes in the meantime and however often the vehicle retries,
  because the count is refreshed only after successful writes.\<close>

theorem binlog_quota_stuck:
  assumes "over_quota b" and "\<forall>e \<in> set evs. block_or_tick e"
  shows "\<exists>b' p'. fold (binlog_step io) evs ((b, disk), p) = ((b', disk), p') \<and> over_quota b'
    \<and> seqno_seen b' = seqno_seen b"
  using assms
proof (induction evs arbitrary: b p)
  case Nil
  then show ?case by simp
next
  case (Cons e evs)
  obtain b1 p1 where "binlog_step io e ((b, disk), p) = ((b1, disk), p1)" "over_quota b1"
    "seqno_seen b1 = seqno_seen b"
    using over_quota_step [of b e io disk p] Cons.prems by auto
  then show ?case
    using Cons.IH [of b1 p1] Cons.prems(2) by auto
qed

theorem binlog_quota_stuck_witness:
  "\<exists>b' p'. fold (binlog_step sample_io)
      [EBlock sample_block_env 10001 1 sample_block_msg, EBlock sample_block_env 10001 1 sample_block_msg]
      ((binlog_init\<lparr>bw_fp := Some ''a.bin'', bw_other_sessions_bytes := MAX_PER_PORT2_BYTES\<rparr>, [''a.bin'' \<mapsto> []]), ((), []))
    = ((b', [''a.bin'' \<mapsto> []]), p') \<and> over_quota b'
    \<and> seqno_seen b' = seqno_seen (binlog_init\<lparr>bw_fp := Some ''a.bin'', bw_other_sessions_bytes := MAX_PER_PORT2_BYTES\<rparr>)"
  by (rule binlog_quota_stuck)
    (simp_all add: over_quota_def block_or_tick_def binlog_init_def BLOCK_BYTES_def)

section \<open>Reboots\<close>

text \<open>
  Reboot detection, exactly: with a file open and a previous reading, a reading at least
  10000 ms below the previous one is always taken for a reboot; so is, because the sum is taken
  modulo 2^32, a reading in the last 10 s before the counter wraps that is not 10000 ms below but
  follows any reading above its wrapped sum; nothing else is.\<close>

theorem reboot_detected_exact:
  "reboot_detected b t \<longleftrightarrow>
     bw_fp b \<noteq> None \<and> bw_last_system_time_boot_ms b \<noteq> 0
     \<and> (unat t + 10000 \<le> unat (bw_last_system_time_boot_ms b)
         \<or> 2 ^ 32 \<le> unat t + 10000 \<and> unat t + 10000 - 2 ^ 32 \<le> unat (bw_last_system_time_boot_ms b))"
proof -
  let ?l = "bw_last_system_time_boot_ms b"
  have t: "unat t < 2 ^ 32" and l: "unat ?l < 2 ^ 32"
    using unsigned_less [of t, where ?'a = nat] unsigned_less [of ?l, where ?'a = nat] by simp_all
  have "t + 10000 \<le> ?l \<longleftrightarrow> (unat t + 10000) mod 2 ^ 32 \<le> unat ?l"
    by (simp add: word_le_nat_alt unat_word_ariths)
  also have "\<dots> \<longleftrightarrow> unat t + 10000 \<le> unat ?l \<or> 2 ^ 32 \<le> unat t + 10000 \<and> unat t + 10000 - 2 ^ 32 \<le> unat ?l"
  proof (cases "unat t + 10000 < 2 ^ 32")
    case True
    then show ?thesis by auto
  next
    case False
    then have "(unat t + 10000) mod 2 ^ 32 = unat t + 10000 - 2 ^ 32"
      using t by (simp add: le_mod_geq not_less)
    then show ?thesis
      using False l by linarith
  qed
  finally show ?thesis
    by (auto simp: reboot_detected_def REBOOT_TIME_BACKWARD_MS_def)
qed

text \<open>
  Rotation: when a message makes \<open>observe\<close> detect a reboot, the file is closed and every
  per-log field is reset, the vehicle's identity is kept, the next tick may send START at once, and
  the next block 0 creates today's session file with the next free number, leaving every other
  file as it was.\<close>

theorem reboot_rotation:
  assumes "m_msgid msg = MAVLINK_MSG_ID_SYSTEM_TIME" and "m_compid msg = MAV_COMP_ID_AUTOPILOT1"
    and "bw_fc_sysid_filter b = 0 \<or> m_sysid msg = bw_fc_sysid_filter b"
    and "reboot_detected b (dt msg)" and "next_session_n listing \<noteq> 0"
    and "path = session_path (session_dir ''logs'' port2 (oe_tm (be_open env))) (next_session_n listing) ''.bin''"
  shows "bw_fp (observe dt listing msg b) = None
    \<and> (\<forall>s. \<not> seqno_seen (observe dt listing msg b) s) \<and> bw_highest_seen (observe dt listing msg b) = 0
    \<and> bw_pending_acks (observe dt listing msg b) = [] \<and> bw_nack_state (observe dt listing msg b) = Map.empty
    \<and> bw_last_start_sent (observe dt listing msg b) = 0
    \<and> bw_target_system (observe dt listing msg b) = bw_target_system b
    \<and> bw_target_component (observe dt listing msg b) = bw_target_component b
    \<and> (\<forall>st1. block_gate env port2 n 0 (observe dt listing msg b, disk) = Some st1 \<longrightarrow>
          bw_fp (fst st1) = Some path \<and> snd st1 = disk(path \<mapsto> []))"
proof -
  define r where "r = (rotate_for_reboot listing b)\<lparr>bw_last_system_time_boot_ms := dt msg\<rparr>"
  have o: "observe dt listing msg b = r"
    using assms(1-4) by (auto simp: observe_def Let_def r_def)
  have seen: "\<not> seqno_seen r s" for s
    using seqno_seen_cong [of r "rotate_for_reboot listing b"] by (simp add: r_def rotate_sel)
  have "bw_fp (fst st1) = Some path \<and> snd st1 = disk(path \<mapsto> [])"
    if "block_gate env port2 n 0 (r, disk) = Some st1" for st1
    using that assms(5)
    by (auto simp: block_gate_def binlog_open_def r_def rotate_sel Let_def assms(6)
        refresh_other_sessions_bytes_def split: if_splits)
  then show ?thesis
    using seen unfolding o by (auto simp: r_def rotate_sel)
qed

definition sample_rebooting :: binlog_writer where
  "sample_rebooting = binlog_init\<lparr>bw_fp := Some ''a.bin'', bw_any_block_seen := True,
     bw_target_system := 7, bw_last_system_time_boot_ms := 60000\<rparr>"

theorem reboot_rotation_witness:
  "bw_fp (observe (\<lambda>_. 3000) (Some []) (sample_block_msg\<lparr>m_msgid := 2\<rparr>) sample_rebooting) = None
   \<and> bw_target_system (observe (\<lambda>_. 3000) (Some []) (sample_block_msg\<lparr>m_msgid := 2\<rparr>) sample_rebooting) = 7"
proof -
  have "next_session_n (Some []) \<noteq> 0"
    by (simp add: next_session_n_def session_highest_def)
  moreover have "reboot_detected sample_rebooting 3000"
    by (simp add: reboot_detected_def REBOOT_TIME_BACKWARD_MS_def sample_rebooting_def binlog_init_def)
  ultimately show ?thesis
    using reboot_rotation [where msg = "sample_block_msg\<lparr>m_msgid := 2\<rparr>" and b = sample_rebooting
        and dt = "\<lambda>_. 3000" and listing = "Some []", OF _ _ _ _ _ refl]
    by (simp add: sample_block_msg_def MAVLINK_MSG_ID_SYSTEM_TIME_def MAV_COMP_ID_AUTOPILOT1_def
        sample_rebooting_def binlog_init_def)
qed

end
