(* ===== verification/Websocket_Props.thy ===== *)
theory Websocket_Props
  imports Websocket
begin

text \<open>
  Properties of the WebSocket layer: delivery of framed data under any fragmentation, memory
  safety of the decoder and where it fails, the handshake, and the limits of the buffer.
\<close>

section \<open>The received bytes\<close>

definition view :: "websocket \<Rightarrow> bytes" where
  "view w = take (ws_npending w) (ws_pending w)"

definition ws_ok :: "websocket \<Rightarrow> bool" where
  "ws_ok w \<longleftrightarrow> length (ws_pending w) = PENDING_SIZE \<and> ws_npending w < PENDING_SIZE"

text \<open>An established connection: the handshakes are over.\<close>

definition established :: "websocket \<Rightarrow> bool" where
  "established w \<longleftrightarrow> ws_ok w \<and> ws_open w \<and> ws_done_headers w \<and> (ws_ssl w \<longrightarrow> ws_ssl_done w)"

lemma length_view: "ws_ok w \<Longrightarrow> length (view w) = ws_npending w"
  by (simp add: ws_ok_def view_def)

text \<open>The bytes one call takes from the kernel; the peer stays connected.\<close>

definition accepted :: "ws_env \<Rightarrow> websocket \<Rightarrow> bytes" where
  "accepted env w = (case we_rx env of Rx bs \<Rightarrow> take (PENDING_SIZE - 1 - ws_npending w) bs | _ \<Rightarrow> [])"

definition alive :: "ws_env \<Rightarrow> bool" where
  "alive env \<longleftrightarrow> we_rx env \<noteq> Rx_closed \<and> we_rx env \<noteq> Rx []"

lemma store_pending_view:
  assumes "ws_ok w" and "ws_npending w + length bs < PENDING_SIZE"
  shows "ws_ok (store_pending bs w)" and "view (store_pending bs w) = view w @ bs"
  using assms by (auto simp: ws_ok_def view_def store_pending_def)

lemma fill_pending_established:
  assumes "established w" and "alive env"
  shows "established (fill_pending env w)" and "view (fill_pending env w) = view w @ accepted env w"
proof -
  let ?space = "PENDING_SIZE - 1 - ws_npending w"
  have ok: "ws_ok w" and np: "ws_npending w \<le> PENDING_SIZE - 1"
    using assms(1) by (auto simp: established_def ws_ok_def)
  have fp: "fill_pending env w = (if ?space > 0 then fill_rx (we_rx env) ?space w else w)"
    using assms(1) by (auto simp: fill_pending_def established_def Let_def)
  have fill: "fill_rx (we_rx env) ?space w = (if we_rx env = Rx_again then w else store_pending (accepted env w) w)"
    using assms(2) by (auto simp: fill_rx_def accepted_def alive_def split: rx_result.split)
  have "ws_npending w + length (accepted env w) < PENDING_SIZE"
    using ok by (auto simp: accepted_def ws_ok_def PENDING_SIZE_def split: rx_result.split)
  note st = store_pending_view [OF ok this]
  have e: "established (store_pending (accepted env w) w)"
    using st(1) assms(1) by (simp add: established_def store_pending_def)
  have none: "accepted env w = []" if "?space = 0 \<or> we_rx env = Rx_again"
    using that by (auto simp: accepted_def split: rx_result.split)
  show "established (fill_pending env w)" and "view (fill_pending env w) = view w @ accepted env w"
    using assms(1) e st(2) none unfolding fp fill by auto
qed

lemma consume_view:
  assumes "ws_ok w" and "length buf = PENDING_SIZE" and "used \<le> ws_npending w"
    and "drop used (take (ws_npending w) buf) = left"
  shows "ws_ok (consume buf used w)" and "view (consume buf used w) = left"
  using assms by (auto simp: ws_ok_def view_def consume_def Let_def field_def take_drop min_def)

section \<open>Delivery\<close>

type_synonym frame = "byte \<times> bytes \<times> bytes"   \<comment> \<open>first byte, masking key, payload\<close>

definition frame_bytes :: "frame \<Rightarrow> bytes" where
  "frame_bytes f = (case f of (b0, mkey, payload) \<Rightarrow> client_frame b0 mkey payload)"

definition frame_ok :: "nat \<Rightarrow> frame \<Rightarrow> bool" where
  "frame_ok n f \<longleftrightarrow> (case f of (b0, mkey, payload) \<Rightarrow> length mkey = 4 \<and> length payload \<le> n)"

lemma length_frame_bytes:
  "length payload \<le> length (frame_bytes (b0, mkey, payload))"
  by (simp add: frame_bytes_def client_frame_def)

text \<open>Whether a frame is complete depends on the received bytes only.\<close>

lemma decode_header_cong:
  assumes "take n buf = take n buf'"
  shows "decode_header buf n = decode_header buf' n"
proof -
  have f: "field buf off k = field buf' off k" if "off + k \<le> n" for off k
    using field_take [OF that, of buf] field_take [OF that, of buf'] assms by simp
  have "buf ! 1 = buf' ! 1" if "2 \<le> n"
    using nth_take [of 1 n buf] nth_take [of 1 n buf'] assms that by simp
  then show ?thesis
    using f [of 2 2] f [of 2 8] by (auto simp: decode_header_def Let_def)
qed

lemma decode_fail_cong:
  assumes "take n buf = take n buf'"
  shows "decode buf n = Decode_fail \<longleftrightarrow> decode buf' n = Decode_fail"
  using decode_header_cong [OF assms] by (auto simp: decode_def split: option.splits prod.splits if_splits)

text \<open>One call on a buffer that holds part of a frame, or a frame and more.\<close>

lemma ws_recv_frame:
  assumes e: "established w" and a: "alive env" and f: "frame_ok n (b0, mkey, payload)"
    and n: "n < 2 ^ 63"
    and all_bytes: "view w @ accepted env w @ tail = frame_bytes (b0, mkey, payload) @ rest"
  shows "\<exists>w'. established w' \<and>
    (length (view w @ accepted env w) < length (frame_bytes (b0, mkey, payload))
       \<and> ws_recv accept env n w = Some (w', [], 0, []) \<and> view w' = view w @ accepted env w
     \<or> length (frame_bytes (b0, mkey, payload)) \<le> length (view w @ accepted env w)
       \<and> ws_recv accept env n w = Some (w', [], int (length payload), payload) \<and> view w' @ tail = rest)"
proof -
  define w1 where "w1 = fill_pending env w"
  have e1: "established w1" and v1: "view w1 = view w @ accepted env w"
    using fill_pending_established [OF e a] by (simp_all add: w1_def)
  have ok1: "ws_ok w1"
    using e1 by (simp add: established_def)
  define fb where "fb = client_frame b0 mkey payload"
  have key: "length mkey = 4" and pl: "length payload \<le> n"
    using f by (simp_all add: frame_ok_def)
  have all: "view w1 @ tail = fb @ rest"
    using all_bytes by (simp add: v1 frame_bytes_def fb_def)
  have buf: "ws_pending w1 = view w1 @ drop (ws_npending w1) (ws_pending w1)"
    by (simp add: view_def)
  have run: "ws_recv accept env n w = (case decode (ws_pending w1) (ws_npending w1) of
      Decode_fail \<Rightarrow> Some (w1, [], 0, [])
    | Decode_oob \<Rightarrow> None
    | Decode_ok buf len used \<Rightarrow> Some (consume buf used w1, [], int (min n len), take (min n len) buf))"
    using e1 by (simp add: ws_recv_def established_def Let_def flip: w1_def split: decode_res.split)
  have np: "ws_npending w1 = length (view w1)" "ws_npending w1 < 2 ^ 63"
    using ok1 length_view [OF ok1] by (simp_all add: ws_ok_def PENDING_SIZE_def)
  show ?thesis
  proof (cases "length fb \<le> length (view w1)")
    case True
    define left where "left = drop (length fb) (view w1)"
    have v: "view w1 = fb @ left"
    proof -
      have "take (length fb) (view w1 @ tail) = fb"
        by (simp add: all)
      then have "take (length fb) (view w1) = fb"
        using True by simp
      then show ?thesis
        by (metis append_take_drop_id left_def)
    qed
    define stale where "stale = drop (ws_npending w1) (ws_pending w1)"
    let ?rest = "left @ stale"
    let ?buf = "payload @ drop (length payload) (fb @ ?rest)"
    have p: "ws_pending w1 = fb @ ?rest"
      using buf unfolding v stale_def by simp
    have d: "decode (ws_pending w1) (ws_npending w1) = Decode_ok ?buf (length payload) (length fb)"
      unfolding p using decode_client_frame [OF key, of payload "ws_npending w1" b0 ?rest] n pl np True
      by (simp add: fb_def v)
    have "length (fb @ ?rest) = PENDING_SIZE"
      using ok1 p by (simp add: ws_ok_def)
    then have lb: "length ?buf = PENDING_SIZE"
      by (simp add: fb_def client_frame_def)
    have ll: "length payload \<le> length fb"
      by (simp add: fb_def client_frame_def)
    have "drop (length fb) (take (ws_npending w1) ?buf) = left"
      using np(1) ll by (simp add: v drop_take)
    note c = consume_view [OF ok1 lb _ this]
    have "established (consume ?buf (length fb) w1)"
      using c(1) e1 np(1) True by (simp add: established_def consume_def Let_def)
    moreover have "view (consume ?buf (length fb) w1) @ tail = rest"
      using c(2) all np(1) True by (simp add: v)
    ultimately show ?thesis
      using run pl True by (intro exI [of _ "consume ?buf (length fb) w1"])
        (simp add: d frame_bytes_def flip: v1 fb_def)
  next
    case False
    then have short: "ws_npending w1 < length fb"
      using np(1) by simp
    have "take (ws_npending w1) (ws_pending w1) = take (ws_npending w1) (view w1 @ tail)"
    proof -
      have "take (length (view w1)) (view w1 @ tail) = view w1"
        by simp
      then show ?thesis
        unfolding np(1) [symmetric] by (simp only: view_def)
    qed
    then have "take (ws_npending w1) (ws_pending w1) = take (ws_npending w1) (fb @ rest)"
      by (simp only: all)
    moreover have "decode (fb @ rest) (ws_npending w1) = Decode_fail"
      using decode_client_frame [OF key, of payload "ws_npending w1" b0 rest] n pl np short
      by (simp add: fb_def)
    ultimately have "decode (ws_pending w1) (ws_npending w1) = Decode_fail"
      using decode_fail_cong by blast
    then show ?thesis
      using run e1 False by (intro exI [of _ w1]) (simp add: frame_bytes_def flip: v1 fb_def)
  qed
qed

text \<open>
  A peer's byte stream: \<open>inbox\<close> is what the kernel still holds, and each call of \<open>recv\<close> is given
  at most \<open>k\<close> bytes of it.
\<close>

definition stream_env :: "nat \<Rightarrow> bytes \<Rightarrow> websocket \<Rightarrow> ws_env" where
  "stream_env k inbox w =
     (let part = take (min k (PENDING_SIZE - 1 - ws_npending w)) inbox in
      \<lparr>we_accept = Accept_ok, we_rx = (if part = [] then Rx_again else Rx part), we_tx = []\<rparr>)"

fun recv_stream ::
  "(bytes \<Rightarrow> bytes) \<Rightarrow> nat \<Rightarrow> nat list \<Rightarrow> websocket \<times> bytes \<Rightarrow> ((websocket \<times> bytes) \<times> bytes) option" where
  "recv_stream accept n [] st = Some (st, [])"
| "recv_stream accept n (k # ks) (w, inbox) =
     (case ws_recv accept (stream_env k inbox w) n w of
        None \<Rightarrow> None
      | Some (w1, _, _, d) \<Rightarrow>
          (case recv_stream accept n ks (w1, drop (min k (PENDING_SIZE - 1 - ws_npending w)) inbox) of
             None \<Rightarrow> None
           | Some (st, ds) \<Rightarrow> Some (st, d @ ds)))"

lemma accepted_stream:
  "accepted (stream_env k inbox w) w = take (min k (PENDING_SIZE - 1 - ws_npending w)) inbox"
  by (auto simp: accepted_def stream_env_def Let_def take_take min_def)

lemma alive_stream: "alive (stream_env k inbox w)"
  by (auto simp: alive_def stream_env_def Let_def)

definition payload_of :: "frame \<Rightarrow> bytes" where
  "payload_of f = snd (snd f)"

lemma recv_stream_step:
  assumes e: "established w" and f: "frame_ok n f" and n: "n < 2 ^ 63"
    and all: "view w @ inbox = frame_bytes f @ rest"
  shows "\<exists>w' d. ws_recv accept (stream_env k inbox w) n w = Some (w', [], int (length d), d) \<and> established w'
    \<and> (length (view w @ take (min k (PENDING_SIZE - 1 - ws_npending w)) inbox) < length (frame_bytes f)
         \<and> d = [] \<and> view w' @ drop (min k (PENDING_SIZE - 1 - ws_npending w)) inbox = frame_bytes f @ rest
       \<or> length (frame_bytes f) \<le> length (view w @ take (min k (PENDING_SIZE - 1 - ws_npending w)) inbox)
         \<and> d = payload_of f \<and> view w' @ drop (min k (PENDING_SIZE - 1 - ws_npending w)) inbox = rest)"
proof -
  let ?m = "min k (PENDING_SIZE - 1 - ws_npending w)"
  obtain b0 mkey payload where fr: "f = (b0, mkey, payload)" by (rule prod_cases3)
  have "view w @ accepted (stream_env k inbox w) w @ drop ?m inbox = frame_bytes (b0, mkey, payload) @ rest"
    using all by (simp add: accepted_stream fr)
  from ws_recv_frame [OF e alive_stream f [unfolded fr] n this, of accept]
  obtain w' where "established w'" and
    "length (view w @ take ?m inbox) < length (frame_bytes f)
       \<and> ws_recv accept (stream_env k inbox w) n w = Some (w', [], 0, [])
       \<and> view w' = view w @ accepted (stream_env k inbox w) w
     \<or> length (frame_bytes f) \<le> length (view w @ take ?m inbox)
       \<and> ws_recv accept (stream_env k inbox w) n w = Some (w', [], int (length payload), payload)
       \<and> view w' @ drop ?m inbox = rest"
    unfolding accepted_stream fr by blast
  then show ?thesis
    using all by (elim disjE conjE) (simp_all add: accepted_stream fr payload_of_def)
qed

lemma recv_stream_all_empty:
  assumes "established w" and "view w @ inbox = []"
  shows "\<exists>w'. recv_stream accept n ks (w, inbox) = Some ((w', []), []) \<and> view w' = [] \<and> established w'"
  using assms
proof (induction ks arbitrary: w)
  case (Cons k ks)
  have v: "view w = []" "inbox = []"
    using Cons.prems by auto
  let ?e = "stream_env k [] w"
  have e1: "established (fill_pending ?e w)" and v1: "view (fill_pending ?e w) = []"
    using fill_pending_established [OF Cons.prems(1) alive_stream, of k "[]"] v by (simp_all add: accepted_stream)
  then have "ws_npending (fill_pending ?e w) = 0"
    using length_view [of "fill_pending ?e w"] by (simp add: established_def)
  then have "ws_recv accept ?e n w = Some (fill_pending ?e w, [], 0, [])"
    using e1 by (simp add: ws_recv_def established_def Let_def decode_def decode_header_def)
  moreover obtain w' where "recv_stream accept n ks (fill_pending ?e w, []) = Some ((w', []), [])"
    "view w' = []" "established w'"
    using Cons.IH [OF e1] v1 v(2) by auto
  ultimately show ?case
    by (simp add: v(2))
qed simp

section \<open>Properties\<close>

text \<open>
  C19: In-order delivery: whatever chunks the kernel hands over, the data returned by successive
  \<open>recv\<close> calls on an established connection is the concatenation of the payloads of the first so
  many client frames, unmasked, and what is still buffered or in the kernel is exactly the
  remaining frames: no byte is lost, repeated or reordered.\<close>

theorem ws_stream_in_order:
  assumes "established w" and "n < 2 ^ 63" and "\<forall>f \<in> set fs. frame_ok n f"
    and "view w @ inbox = concat (map frame_bytes fs)"
  shows "\<exists>w' inbox' k. recv_stream accept n ks (w, inbox) =
      Some ((w', inbox'), concat (map payload_of (take k fs)))
    \<and> view w' @ inbox' = concat (map frame_bytes (drop k fs))"
  using assms
proof (induction ks arbitrary: w inbox fs)
  case Nil
  then show ?case
    by (auto intro!: exI [of _ 0])
next
  case (Cons k ks)
  let ?drop = "drop (min k (PENDING_SIZE - 1 - ws_npending w)) inbox"
  show ?case
  proof (cases fs)
    case Nil
    then show ?thesis
      using recv_stream_all_empty [OF Cons.prems(1), of inbox accept n "k # ks"] Cons.prems(4) by auto
  next
    case fs: (Cons f fs')
    obtain w1 d where r: "ws_recv accept (stream_env k inbox w) n w = Some (w1, [], int (length d), d)"
        "established w1"
      and cs: "d = [] \<and> view w1 @ ?drop = frame_bytes f @ concat (map frame_bytes fs')
        \<or> d = payload_of f \<and> view w1 @ ?drop = concat (map frame_bytes fs')"
      using recv_stream_step [OF Cons.prems(1) _ Cons.prems(2), of f inbox "concat (map frame_bytes fs')" accept k]
        Cons.prems(3,4) fs by auto
    from cs show ?thesis
    proof
      assume c: "d = [] \<and> view w1 @ ?drop = frame_bytes f @ concat (map frame_bytes fs')"
      then obtain w' inbox' j where "recv_stream accept n ks (w1, ?drop) =
          Some ((w', inbox'), concat (map payload_of (take j fs)))"
        "view w' @ inbox' = concat (map frame_bytes (drop j fs))"
        using Cons.IH [OF r(2) Cons.prems(2,3), of ?drop] fs by auto
      then show ?thesis
        using r(1) c by auto
    next
      assume c: "d = payload_of f \<and> view w1 @ ?drop = concat (map frame_bytes fs')"
      then obtain w' inbox' j where "recv_stream accept n ks (w1, ?drop) =
          Some ((w', inbox'), concat (map payload_of (take j fs')))"
        "view w' @ inbox' = concat (map frame_bytes (drop j fs'))"
        using Cons.IH [OF r(2) Cons.prems(2), of fs' ?drop] Cons.prems(3) fs by auto
      then show ?thesis
        using r(1) c fs by (intro exI [of _ w'] exI [of _ inbox'] exI [of _ "Suc j"]) simp
    qed
  qed
qed

text \<open>
  C20: Delivery: if every frame fits the 1023 bytes of the buffer and each call is offered as much as
  it has room for, one call per frame delivers every payload.\<close>

theorem ws_stream_delivers:
  assumes "established w" and "n < 2 ^ 63" and "\<forall>f \<in> set fs. frame_ok n f \<and> length (frame_bytes f) < PENDING_SIZE"
    and "view w @ inbox = concat (map frame_bytes fs)"
  shows "\<exists>w'. recv_stream accept n (replicate (length fs) PENDING_SIZE) (w, inbox) =
      Some ((w', []), concat (map payload_of fs)) \<and> view w' = []"
  using assms
proof (induction fs arbitrary: w inbox)
  case Nil
  then show ?case by simp
next
  case (Cons f fs)
  let ?m = "min PENDING_SIZE (PENDING_SIZE - 1 - ws_npending w)"
  have f: "frame_ok n f" "length (frame_bytes f) < PENDING_SIZE"
    and all: "view w @ inbox = frame_bytes f @ concat (map frame_bytes fs)"
    using Cons.prems by auto
  have np: "length (view w) = ws_npending w" "ws_npending w < PENDING_SIZE"
    using Cons.prems(1) length_view [of w] by (auto simp: established_def ws_ok_def)
  have enough: "length (frame_bytes f) \<le> length (view w @ take ?m inbox)"
    using np f(2) arg_cong [OF all, of length] by (auto simp: min_def)
  obtain w1 d where r: "ws_recv accept (stream_env PENDING_SIZE inbox w) n w = Some (w1, [], int (length d), d)"
      "established w1" "d = payload_of f" "view w1 @ drop ?m inbox = concat (map frame_bytes fs)"
    using recv_stream_step [OF Cons.prems(1) f(1) Cons.prems(2) all, of accept PENDING_SIZE] enough by auto
  obtain w' where "recv_stream accept n (replicate (length fs) PENDING_SIZE) (w1, drop ?m inbox) =
      Some ((w', []), concat (map payload_of fs))" "view w' = []"
    using Cons.IH [OF r(2) Cons.prems(2) _ r(4)] Cons.prems(3) by auto
  then show ?case
    using r by simp
qed

text \<open>
  A frame that does not fit the buffer stalls the connection for good: if the next client
  frame is 1024 bytes or longer, no sequence of \<open>recv\<close> calls ever returns any data, whatever arrives
  after it, and the connection is not closed either.\<close>

theorem ws_oversized_stalls:
  assumes "established w" and "n < 2 ^ 63" and "frame_ok n f" and "PENDING_SIZE \<le> length (frame_bytes f)"
    and "view w @ inbox = frame_bytes f @ rest"
  shows "\<exists>w' inbox'. recv_stream accept n ks (w, inbox) = Some ((w', inbox'), [])
    \<and> ws_open w' \<and> view w' @ inbox' = frame_bytes f @ rest"
  using assms(1,5)
proof (induction ks arbitrary: w inbox)
  case Nil
  then show ?case by (simp add: established_def)
next
  case (Cons k ks)
  let ?m = "min k (PENDING_SIZE - 1 - ws_npending w)"
  have "length (view w @ take ?m inbox) < PENDING_SIZE"
    using Cons.prems(1) length_view [of w] by (auto simp: established_def ws_ok_def min_def)
  then obtain w1 where r: "ws_recv accept (stream_env k inbox w) n w = Some (w1, [], 0, [])"
      "established w1" "view w1 @ drop ?m inbox = frame_bytes f @ rest"
    using recv_stream_step [OF Cons.prems(1) assms(3,2) Cons.prems(2), of accept k] assms(4) by auto
  then show ?case
    using Cons.IH [OF r(2,3)] by auto
qed

section \<open>Memory safety of the decoder\<close>

definition wraps :: "nat \<Rightarrow> nat \<Rightarrow> bool" where
  "wraps overhead len \<longleftrightarrow> 2 ^ 64 \<le> overhead + len"

lemma sum_test:
  assumes "k \<le> 14" and "n < PENDING_SIZE"
  shows "(of_nat n :: u64) < of_nat k + L \<longleftrightarrow> n < (k + unat L) mod 2 ^ 64"
proof -
  have "unat (of_nat k + L) = (k + unat L) mod 2 ^ 64"
    using assms(1) by (simp add: unat_word_ariths unat_of_nat)
  moreover have "unat (of_nat n :: u64) = n"
    using assms(2) by (simp only: unat_of_nat) (simp add: PENDING_SIZE_def)
  ultimately show ?thesis
    by (simp add: word_less_nat_alt)
qed

lemma sum_mod:
  assumes "k \<le> 14"
  shows "(k + unat (L :: u64)) mod 2 ^ 64 = (if wraps k (unat L) then k + unat L - 2 ^ 64 else k + unat L)"
proof -
  have "unat L < 2 ^ 64"
    using unsigned_less [of L, where ?'a = nat] by simp
  then show ?thesis
    using assms by (auto simp: wraps_def le_mod_geq)
qed

text \<open>What the header says: overhead (header and key), payload length and mask flag.\<close>

lemma decode_header_bounds:
  assumes "decode_header buf n = Some (masked, L, pos)"
  shows "2 \<le> pos" and "pos \<le> n" and "pos \<le> 10" and "pos < 10 \<Longrightarrow> unat L < 65536"
proof -
  have "unat (ucast (w :: u16) :: u64) < 65536" for w
    using unsigned_less [of w, where ?'a = nat] by (simp add: unsigned_ucast_eq le_less_trans [OF take_bit_nat_less_eq_self])
  moreover have "unat (ucast (w :: u8) :: u64) < 65536" for w
    using unsigned_less [of w, where ?'a = nat] by (simp add: unsigned_ucast_eq le_less_trans [OF take_bit_nat_less_eq_self])
  ultimately show "2 \<le> pos" and "pos \<le> n" and "pos \<le> 10" and "pos < 10 \<Longrightarrow> unat L < 65536"
    using assms by (auto simp: decode_header_def Let_def split: if_splits)
qed

lemma length_unmask: "unmask mkey pos len i buf = Some buf1 \<Longrightarrow> length buf1 = length buf"
proof (induction mkey pos len i buf arbitrary: buf1 rule: unmask.induct)
  case (1 mkey pos len i buf)
  then show ?case
    by (subst (asm) (2) unmask.simps) (auto split: if_splits)
qed

lemma decode_cases:
  assumes "decode_header buf n = Some (masked, L, pos)" and "length buf = PENDING_SIZE" and "n < PENDING_SIZE"
    and "ov = (if masked then pos + 4 else pos)"
  shows "decode buf n =
    (if n < (ov + unat L) mod 2 ^ 64 then Decode_fail
     else if wraps ov (unat L) then Decode_oob
     else Decode_ok (if masked then the (unmask (field buf pos 4) (pos + 4) (unat L) 0 buf)
                     else field buf pos (unat L) @ drop (unat L) buf) (unat L) (ov + unat L))"
proof -
  note b = decode_header_bounds [OF assms(1)]
  have ov: "ov \<le> 14" "0 < ov"
    using b assms(4) by auto
  have test: "(of_nat n :: u64) < of_nat pos + (if masked then 4 else 0) + L \<longleftrightarrow> n < (ov + unat L) mod 2 ^ 64"
    using sum_test [OF ov(1) assms(3), of L] assms(4) by (simp add: add.assoc split: if_splits)
  show ?thesis
  proof (cases "n < (ov + unat L) mod 2 ^ 64")
    case True
    then show ?thesis
      using test assms(1) by (auto simp: decode_def split: if_splits)
  next
    case fits: False
    show ?thesis
    proof (cases "wraps ov (unat L)")
      case True
      then have "PENDING_SIZE < ov + unat L" and "0 < unat L"
        using ov by (auto simp: wraps_def PENDING_SIZE_def)
      then show ?thesis
        using fits test assms True unmask_oob [of 0 "unat L" buf "pos + 4" "field buf pos 4"]
        by (auto simp: decode_def split: if_splits)
    next
      case False
      then have "ov + unat L \<le> n"
        using fits sum_mod [OF ov(1), of L] by simp
      then have "ov + unat L \<le> length buf"
        using assms(2,3) by simp
      then show ?thesis
        using fits test assms False unmask_closed [of 0 "unat L" "pos + 4" buf "field buf pos 4"]
        by (auto simp: decode_def split: if_splits)
    qed
  qed
qed

lemma decode_ok_bounds:
  assumes "decode_header buf n = Some (masked, L, pos)" and "length buf = PENDING_SIZE" and "n < PENDING_SIZE"
    and "\<not> wraps (if masked then pos + 4 else pos) (unat L)" and "decode buf n = Decode_ok buf1 len used"
  shows "length buf1 = PENDING_SIZE \<and> used \<le> n \<and> len < used"
proof -
  define ov where "ov = (if masked then pos + 4 else pos)"
  have ov: "ov \<le> 14" "0 < ov"
    using decode_header_bounds [OF assms(1)] by (auto simp: ov_def)
  have le: "ov + unat L \<le> n" and len: "len = unat L" "used = ov + unat L"
    and buf1: "buf1 = (if masked then the (unmask (field buf pos 4) (pos + 4) (unat L) 0 buf)
                 else field buf pos (unat L) @ drop (unat L) buf)"
    using assms(4,5) sum_mod [OF ov(1), of L] unfolding decode_cases [OF assms(1-3) ov_def] ov_def [symmetric]
    by (auto split: if_splits)
  have "pos + unat L \<le> length buf" "masked \<longrightarrow> pos + 4 + unat L \<le> length buf"
    using le assms(2,3) by (auto simp: ov_def split: if_splits)
  then have "length buf1 = length buf"
    unfolding buf1 using unmask_closed [of 0 "unat L" "pos + 4" buf "field buf pos 4"]
    by (auto simp: field_def)
  then show ?thesis
    using le len ov(2) assms(2) by simp
qed

text \<open>
  C21: Memory safety of the decoder, exactly: on any contents of the 1024-byte buffer, decoding stays
  inside it, never consumes more than was received and returns at most what it consumed, except
  when the 64-bit sum of header, key and announced length wraps around and passes the length
  test; then it accesses memory outside the buffer.\<close>

theorem ws_decode_memory_safe:
  assumes "length buf = PENDING_SIZE" and "n < PENDING_SIZE"
  shows "(decode buf n = Decode_oob \<longleftrightarrow>
      (\<exists>masked L pos. decode_header buf n = Some (masked, L, pos)
        \<and> wraps (if masked then pos + 4 else pos) (unat L)
        \<and> (if masked then pos + 4 else pos) + unat L - 2 ^ 64 \<le> n))
    \<and> (\<forall>buf1 len used. decode buf n = Decode_ok buf1 len used \<longrightarrow>
        length buf1 = PENDING_SIZE \<and> used \<le> n \<and> len < used)"
proof (cases "decode_header buf n")
  case None
  then show ?thesis
    by (simp add: decode_def)
next
  case (Some h)
  obtain masked L pos where h: "decode_header buf n = Some (masked, L, pos)"
    using Some by (metis prod_cases3)
  note b = decode_header_bounds [OF h]
  define ov where "ov = (if masked then pos + 4 else pos)"
  have ov: "ov \<le> 14" "0 < ov"
    using b by (auto simp: ov_def)
  note d = decode_cases [OF h assms ov_def]
  show ?thesis
  proof (cases "wraps ov (unat L)")
    case True
    have "decode buf n = Decode_oob \<longleftrightarrow> ov + unat L - 2 ^ 64 \<le> n"
      using sum_mod [OF ov(1), of L] by (simp add: d True not_le)
    moreover have "decode buf n \<noteq> Decode_ok buf1 len used" for buf1 len used
      by (simp add: d True)
    ultimately show ?thesis
      using True unfolding h ov_def by auto
  next
    case False
    have oob: "decode buf n \<noteq> Decode_oob"
      by (simp add: d False)
    then show ?thesis
      using decode_ok_bounds [OF h assms] False unfolding h ov_def by auto
  qed
qed

section \<open>Before the handshake is complete\<close>

text \<open>
  C22: A request that arrives in pieces is read as frames: as long as the buffered HTTP request has
  no complete key line but at least 71 bytes, a \<open>recv\<close> call, made while the headers are pending,
  decodes the leading "GE" as the header of an unmasked 69-byte frame, returns request text as
  data and removes it from the buffer, with the handshake still outstanding.\<close>

theorem ws_split_request_misread:
  assumes "ws_ok w" and "ws_open (fill_pending env w)" and "\<not> ws_done_headers w"
    and "ws_ok (fill_pending env w)" and "\<not> ws_done_headers (fill_pending env w)"
    and "view (fill_pending env w) = ascii ''GE'' @ text69 @ rest" and "length text69 = 69"
    and "header_key (header_text (fill_pending env w)) = None" and "69 \<le> n"
  shows "\<exists>w'. ws_recv accept env n w = Some (w', [], 69, text69)
    \<and> view w' = rest \<and> \<not> ws_done_headers w' \<and> ws_handshake w' = ws_handshake (fill_pending env w)"
proof -
  define w1 where "w1 = fill_pending env w"
  have ok: "ws_ok w1"
    using assms(4) by (simp add: w1_def)
  define stale where "stale = drop (ws_npending w1) (ws_pending w1)"
  have p: "ws_pending w1 = ascii ''GE'' @ text69 @ rest @ stale"
  proof -
    have "ws_pending w1 = view w1 @ stale"
      by (simp add: view_def stale_def)
    then show ?thesis
      using assms(6) by (simp flip: w1_def)
  qed
  have np: "ws_npending w1 = 71 + length rest"
    using length_view [OF ok] assms(6,7) by (simp add: w1_def ascii_def)
  have h: "decode_header (ws_pending w1) (ws_npending w1) = Some (False, 69, 2)"
    by (simp add: p np decode_header_def ascii_def Let_def)
  have lp: "length (ws_pending w1) = PENDING_SIZE" "ws_npending w1 < PENDING_SIZE"
    using ok by (simp_all add: ws_ok_def)
  have d: "decode (ws_pending w1) (ws_npending w1) = Decode_ok (text69 @ drop 69 (ws_pending w1)) 69 71"
    using decode_cases [OF h lp refl] assms(7) np by (simp add: p wraps_def field_def ascii_def)
  have lb: "length (text69 @ drop 69 (ws_pending w1)) = PENDING_SIZE"
    using assms(7) lp(1) by (simp add: PENDING_SIZE_def)
  have "drop 71 (take (ws_npending w1) (text69 @ drop 69 (ws_pending w1))) = rest"
    using assms(7) by (simp add: np p ascii_def)
  note c = consume_view [OF ok lb _ this]
  have "ws_recv accept env n w = Some (consume (text69 @ drop 69 (ws_pending w1)) 71 w1, [], 69, text69)"
    using assms(2,5,7,8,9) by (simp add: ws_recv_def check_headers_def Let_def d min_def flip: w1_def)
  then show ?thesis
    using c(2) np assms(5) by (simp add: consume_def Let_def flip: w1_def)
qed

section \<open>The handshake\<close>

lemma handshake_loop_progress:
  assumes "ws_handshake_sent w \<le> length (ws_handshake w)" and "handshake_loop txs w = (w1, out)"
  shows "ws_handshake w1 = ws_handshake w \<and> ws_handshake_sent w1 \<le> length (ws_handshake w)
    \<and> take (ws_handshake_sent w) (ws_handshake w) @ out = take (ws_handshake_sent w1) (ws_handshake w)"
  using assms
proof (induction txs arbitrary: w out)
  case Nil
  then show ?case by auto
next
  case (Cons r rs)
  show ?case
  proof (cases "ws_handshake_sent w < length (ws_handshake w) \<and> (\<exists>k. r = Tx k)")
    case False
    then show ?thesis
      using Cons.prems by (cases r) (auto simp: ws_close_def split: if_splits)
  next
    case True
    then obtain k where r: "r = Tx k" and lt: "ws_handshake_sent w < length (ws_handshake w)"
      by blast
    let ?part = "take k (drop (ws_handshake_sent w) (ws_handshake w))"
    let ?w = "w\<lparr>ws_handshake_sent := ws_handshake_sent w + length ?part\<rparr>"
    obtain out1 where l: "handshake_loop rs ?w = (w1, out1)" and out: "out = ?part @ out1"
      using Cons.prems(2) r lt by (auto simp: Let_def split: prod.splits)
    have "take (ws_handshake_sent w) (ws_handshake w) @ ?part = take (ws_handshake_sent ?w) (ws_handshake w)"
      using lt by (simp add: take_add min_def)
    then show ?thesis
      using Cons.IH [OF _ l] lt unfolding out by (simp flip: append_assoc)
  qed
qed

text \<open>The calls made until the handshake succeeds, with what the kernel answered to each.\<close>

fun handshake_run ::
  "(bytes \<Rightarrow> bytes) \<Rightarrow> bytes \<Rightarrow> tx_result list list \<Rightarrow> websocket \<Rightarrow> (websocket \<times> bytes) \<times> bool" where
  "handshake_run accept key [] w = ((w, []), False)"
| "handshake_run accept key (txs # txss) w =
     (case send_handshake accept txs key w of ((w1, out), ok) \<Rightarrow>
        if ok then ((w1, out), True)
        else (case handshake_run accept key txss w1 of ((w2, out2), ok2) \<Rightarrow> ((w2, out @ out2), ok2)))"

lemma handshake_run_resumes:
  assumes "ws_handshake w = handshake_response (accept (key @ ws_guid))"
    and "ws_handshake_sent w \<le> length (ws_handshake w)"
    and "handshake_run accept key runs w = ((w1, out), ok)"
  shows "\<exists>rest. handshake_response (accept (key @ ws_guid)) =
      take (ws_handshake_sent w) (ws_handshake w) @ out @ rest \<and> (ok \<longrightarrow> rest = [])"
  using assms
proof (induction runs arbitrary: w out)
  case Nil
  then show ?case
    by (auto intro!: exI [of _ "drop (ws_handshake_sent w) (ws_handshake w)"] simp flip: Nil(1))
next
  case (Cons txs runs)
  let ?resp = "handshake_response (accept (key @ ws_guid))"
  have ne: "ws_handshake w \<noteq> []"
    using Cons.prems(1) by (simp add: handshake_response_def crlf_def)
  obtain wa outa where l: "handshake_loop txs w = (wa, outa)"
    by (rule prod.exhaust)
  note p = handshake_loop_progress [OF Cons.prems(2) l]
  define oka where "oka \<longleftrightarrow> ws_open wa \<and> ws_handshake_sent wa = length (ws_handshake wa)"
  have s: "send_handshake accept txs key w = ((wa, outa), oka)"
    using ne by (simp add: send_handshake_def l oka_def)
  show ?case
  proof (cases oka)
    case True
    then have "take (ws_handshake_sent w) (ws_handshake w) @ outa = ?resp"
      using p Cons.prems(1) by (simp add: oka_def)
    then show ?thesis
      using Cons.prems(3) s True by auto
  next
    case False
    obtain out2 where r: "handshake_run accept key runs wa = ((w1, out2), ok)" and out: "out = outa @ out2"
      using Cons.prems(3) s False by (auto split: prod.splits)
    obtain rest where "?resp = take (ws_handshake_sent wa) (ws_handshake wa) @ out2 @ rest" "ok \<longrightarrow> rest = []"
      using Cons.IH [OF _ _ r] p Cons.prems(1) by auto
    then show ?thesis
      using p out Cons.prems(1) by (intro exI [of _ rest]) (metis append_assoc)
  qed
qed

text \<open>
  The handshake response is sent once, in order: however the kernel splits it and however
  often the call has to be repeated, the bytes sent are a prefix of the one response computed
  from the client's key, and all of it when the handshake is reported complete.\<close>

theorem ws_handshake_once:
  assumes "ws_handshake w = []" and "handshake_run accept key runs w = ((w1, out), ok)"
  shows "\<exists>rest. handshake_response (accept (key @ ws_guid)) = out @ rest \<and> (ok \<longrightarrow> rest = [])"
proof (cases runs)
  case Nil
  then show ?thesis using assms by simp
next
  case (Cons txs txss)
  let ?w = "w\<lparr>ws_handshake := handshake_response (accept (key @ ws_guid)), ws_handshake_sent := 0\<rparr>"
  have "send_handshake accept txs key ?w = send_handshake accept txs key w"
    using assms(1) by (simp add: send_handshake_def handshake_response_def crlf_def)
  then have "handshake_run accept key runs ?w = ((w1, out), ok)"
    using assms(2) Cons by simp
  from handshake_run_resumes [OF _ _ this] show ?thesis
    by simp
qed

section \<open>Sending\<close>

text \<open>
  C23: \<open>send\<close> reports the number of payload bytes exactly when the kernel took the whole frame, and
  then a reader of the wire decodes the payload, whatever follows; after a partial write it
  reports 0 and keeps nothing, so the rest of that frame is never sent.\<close>

theorem ws_send_framed:
  assumes "fits 4 payload" and "payload \<noteq> []" and "ws_send tx payload w = (w', wire, r)"
  shows "(r = int (length payload) \<longleftrightarrow> wire = frame_header (length payload) @ payload)
    \<and> (r = int (length payload) \<longrightarrow> first_payload (wire @ rest) = payload)
    \<and> (wire \<noteq> frame_header (length payload) @ payload \<longrightarrow> r \<le> 0 \<and> (r = 0 \<longrightarrow> w' = w))"
proof -
  define pkt where "pkt = frame_header (length payload) @ payload"
  have len: "int (length pkt) - int (length (frame_header (length payload))) = int (length payload)"
    by (simp add: pkt_def)
  have send: "ws_send tx payload w = (case tx of Tx_again \<Rightarrow> (w, [], 0) | Tx_error \<Rightarrow> (ws_close w, [], -1)
      | Tx k \<Rightarrow> if length (take k pkt) < length pkt then (w, take k pkt, 0)
               else (w, take k pkt, int (length payload)))"
    unfolding ws_send_def Let_def pkt_def [symmetric] len ..
  have ne: "pkt \<noteq> []"
    using assms(2) by (simp add: pkt_def)
  have "(r = int (length payload) \<longleftrightarrow> wire = pkt) \<and> (wire \<noteq> pkt \<longrightarrow> r \<le> 0 \<and> (r = 0 \<longrightarrow> w' = w))"
    using assms(2,3) ne unfolding send by (cases tx) (auto split: if_splits)
  then show ?thesis
    using server_codec.dec_enc [OF assms(1), of rest] unfolding pkt_def by auto
qed

section \<open>Examples\<close>

definition sample_ws :: websocket where
  "sample_ws = ws_init\<lparr>ws_done_headers := True\<rparr>"

definition sample_frames :: "frame list" where
  "sample_frames = [(0x82, [1, 2, 3, 4], [0xFD, 9]), (0x82, [9, 9, 9, 9], [7])]"

lemma sample_ws_ok: "established sample_ws" "view sample_ws = []"
  by (simp_all add: established_def ws_ok_def sample_ws_def ws_init_def view_def PENDING_SIZE_def)

theorem ws_stream_in_order_witness:
  "\<exists>w' inbox' k. recv_stream id 1000 [3, 5, 20] (sample_ws, concat (map frame_bytes sample_frames)) =
      Some ((w', inbox'), concat (map payload_of (take k sample_frames)))
    \<and> view w' @ inbox' = concat (map frame_bytes (drop k sample_frames))"
  by (rule ws_stream_in_order)
    (simp_all only: sample_ws_ok, simp_all add: sample_frames_def frame_ok_def)

theorem ws_stream_delivers_witness:
  "\<exists>w'. recv_stream id 1000 [PENDING_SIZE, PENDING_SIZE] (sample_ws, concat (map frame_bytes sample_frames)) =
      Some ((w', []), [0xFD, 9, 7]) \<and> view w' = []"
proof -
  have f: "\<forall>f \<in> set sample_frames. frame_ok 1000 f \<and> length (frame_bytes f) < PENDING_SIZE"
    by (simp add: sample_frames_def frame_ok_def frame_bytes_def client_frame_def length_len_field PENDING_SIZE_def)
  have v: "view sample_ws @ concat (map frame_bytes sample_frames) = concat (map frame_bytes sample_frames)"
    by (simp add: sample_ws_ok)
  from ws_stream_delivers [OF sample_ws_ok(1) _ f v, of id] show ?thesis
    by (simp add: sample_frames_def payload_of_def)
qed

theorem ws_oversized_stalls_witness:
  "\<exists>w' inbox'. recv_stream id 2000 [PENDING_SIZE, PENDING_SIZE, PENDING_SIZE]
      (sample_ws, frame_bytes (0x82, [1, 2, 3, 4], replicate 1016 5) @ concat (map frame_bytes sample_frames))
        = Some ((w', inbox'), [])
    \<and> ws_open w' \<and> view w' @ inbox' =
        frame_bytes (0x82, [1, 2, 3, 4], replicate 1016 5) @ concat (map frame_bytes sample_frames)"
proof (rule ws_oversized_stalls [OF sample_ws_ok(1)])
  show "frame_ok 2000 (0x82, [1, 2, 3, 4], replicate 1016 5)"
    by (simp add: frame_ok_def)
  show "PENDING_SIZE \<le> length (frame_bytes (0x82, [1, 2, 3, 4], replicate 1016 5))"
    by (simp add: frame_bytes_def client_frame_def length_len_field PENDING_SIZE_def)
qed (simp_all add: sample_ws_ok)

text \<open>Fourteen bytes from a client whose announced length is \<open>2^64 - 14\<close>.\<close>

definition attack_frame :: bytes where
  "attack_frame = [0x82, 0xFF] @ word_be (18446744073709551602 :: u64) @ [1, 2, 3, 4]"

theorem ws_decode_memory_safe_witness:
  "decode (attack_frame @ replicate 1010 0) 14 = Decode_oob"
proof -
  let ?buf = "attack_frame @ replicate 1010 0"
  have len: "length ?buf = PENDING_SIZE"
    by (simp add: attack_frame_def PENDING_SIZE_def)
  have "field ?buf 2 8 = word_be (18446744073709551602 :: u64)"
    by (simp add: attack_frame_def field_def)
  then have "decode_header ?buf 14 = Some (True, 18446744073709551602, 10)"
    by (simp add: decode_header_def) (simp add: attack_frame_def Let_def)
  then show ?thesis
    using ws_decode_memory_safe [OF len, of 14] by (auto simp: PENDING_SIZE_def wraps_def)
qed

definition sample_request :: bytes where
  "sample_request = ascii ''GET / HTTP/1.1'' @ crlf @ ascii ''Host: support.example.org:10001'' @ crlf
     @ ascii ''User-Agent: a browser'' @ crlf"

theorem ws_split_request_misread_witness:
  "\<exists>w'. ws_recv id \<lparr>we_accept = Accept_ok, we_rx = Rx sample_request, we_tx = []\<rparr> 1000 ws_init
      = Some (w', [], 69, take 69 (drop 2 sample_request))
    \<and> view w' = drop 71 sample_request \<and> \<not> ws_done_headers w' \<and> ws_handshake w' = []"
proof -
  let ?e = "\<lparr>we_accept = Accept_ok, we_rx = Rx sample_request, we_tx = []\<rparr>"
  have len: "length sample_request = 72"
    by (simp add: sample_request_def ascii_def crlf_def)
  have ok: "ws_ok ws_init" "ws_npending ws_init = 0" "view ws_init = []" "\<not> ws_done_headers ws_init" "ws_open ws_init"
    by (simp_all add: ws_ok_def ws_init_def view_def PENDING_SIZE_def)
  have fill: "fill_pending ?e ws_init = store_pending sample_request ws_init"
    using len by (auto simp: fill_pending_def fill_rx_def ws_init_def PENDING_SIZE_def)
  have v: "ws_ok (fill_pending ?e ws_init)" "view (fill_pending ?e ws_init) = sample_request"
    using store_pending_view [OF ok(1), of sample_request] len ok by (simp_all add: fill PENDING_SIZE_def)
  have hs: "ws_handshake (fill_pending ?e ws_init) = []" "\<not> ws_done_headers (fill_pending ?e ws_init)"
    "ws_open (fill_pending ?e ws_init)"
    unfolding fill by (simp_all add: store_pending_def ws_init_def)
  have "header_key (takeWhile (\<lambda>b. b \<noteq> 0) sample_request) = None"
    by code_simp
  then have key: "header_key (header_text (fill_pending ?e ws_init)) = None"
    using v(2) by (simp add: header_text_def view_def)
  have "take 2 sample_request = ascii ''GE''"
    by (simp add: sample_request_def ascii_def)
  then have parts: "view (fill_pending ?e ws_init) =
      ascii ''GE'' @ take 69 (drop 2 sample_request) @ drop 71 sample_request"
    unfolding v(2) using append_take_drop_id [of 2 sample_request]
      append_take_drop_id [of 69 "drop 2 sample_request"] by simp
  show ?thesis
    using ws_split_request_misread [OF ok(1) hs(3) ok(4) v(1) hs(2) parts _ key, of 1000 id] len
    by (simp add: hs(1))
qed

theorem ws_handshake_once_witness:
  "\<exists>w1 out ok rest. handshake_run id [65] [[Tx 10, Tx_again], [Tx 200]] ws_init = ((w1, out), ok)
    \<and> handshake_response ([65] @ ws_guid) = out @ rest"
proof -
  obtain w1 out ok where r: "handshake_run id [65] [[Tx 10, Tx_again], [Tx 200]] ws_init = ((w1, out), ok)"
    by (metis prod.exhaust)
  have "ws_handshake ws_init = []"
    by (simp add: ws_init_def)
  from ws_handshake_once [OF this r] r show ?thesis
    by auto
qed

theorem ws_send_framed_witness:
  "first_payload ([0x82, 1, 9] @ [0, 0]) = [9 :: byte]"
proof -
  have f: "fits 4 [9]"
    by (simp add: fits_def PENDING_SIZE_def)
  have s: "ws_send (Tx 3) [9] sample_ws = (sample_ws, [0x82, 1, 9], 1)"
    by (simp add: ws_send_def frame_header_def)
  show ?thesis
    using ws_send_framed [OF f _ s, of "[0, 0]"] by simp
qed

end
