(* ===== verification/Cleanup.thy ===== *)
theory Cleanup
  imports Complex_Main Logdir Keydb "HOL-Library.Multiset"
begin

text \<open>
  \<open>cleanup.h\<close> and \<open>cleanup.cpp\<close>: the worker that ages out session logs and enforces the per-port
  disk quota. The log directory of a port pair is a \<open>port_listing\<close>; whether an \<open>unlink\<close> or \<open>rmdir\<close>
  succeeds is a parameter, and \<open>std::sort\<close>, which is not stable, is any function that sorts.
\<close>

definition QUOTA_PER_PORT2_BYTES :: int where
  "QUOTA_PER_PORT2_BYTES = 1024 * 1024 * 1024"

section \<open>The retention setting\<close>

text \<open>
  \<open>log_retention_days\<close> is an IEEE single: a finite value is \<open>\<plusminus> mantissa * 2 ^ exponent\<close> days. Its product
  with 86400 needs at most 41 bits and is exact in a double, as is a difference of times.
\<close>

datatype f32 = Finite bool nat int | Infinite bool | Not_a_number

definition f32_of :: "u32 \<Rightarrow> f32" where
  "f32_of w =
     (let neg = bit w 31; e = unat (take_bit 8 (drop_bit 23 w)); m = unat (take_bit 23 w) in
      if e = 255 then (if m = 0 then Infinite neg else Not_a_number)
      else if e = 0 then Finite neg m (-149)
      else Finite neg (m + 2 ^ 23) (int e - 150))"

text \<open>\<open>retention_days <= 0.0\<close>, and \<open>age > retention_days * 86400.0\<close> for an age in seconds.\<close>

definition keeps_forever :: "f32 \<Rightarrow> bool" where
  "keeps_forever r = (case r of Finite neg m e \<Rightarrow> neg \<or> m = 0 | Infinite neg \<Rightarrow> neg | Not_a_number \<Rightarrow> False)"

definition age_exceeds :: "f32 \<Rightarrow> int \<Rightarrow> bool" where
  "age_exceeds r age = (case r of
     Finite neg m e \<Rightarrow>
       let v = (if neg then - int m else int m) * 86400 in
       if e \<ge> 0 then age > v * 2 ^ nat e else age * 2 ^ nat (- e) > v
   | Infinite neg \<Rightarrow> neg
   | Not_a_number \<Rightarrow> False)"

section \<open>The operating system\<close>

text \<open>The name of the date directory and of the file.\<close>

record fs_env =
  fe_unlink :: "string \<Rightarrow> string \<Rightarrow> bool"
  fe_rmdir :: "date_dir \<Rightarrow> bool"

text \<open>A directory a scan enters: not hidden, a directory, and \<open>opendir\<close> works.\<close>

definition scanned :: "date_dir \<Rightarrow> bool" where
  "scanned d \<longleftrightarrow> \<not> hidden (dd_name d) \<and> dd_isdir d \<and> dd_files d \<noteq> None"

section \<open>The retention pass\<close>

definition expired :: "f32 \<Rightarrow> int \<Rightarrow> dir_file \<Rightarrow> bool" where
  "expired r now f \<longleftrightarrow> is_session_file (df_name f)
     \<and> (case df_stat f of None \<Rightarrow> False | Some st \<Rightarrow> age_exceeds r (now - st_mtime st))"

definition retention_files :: "fs_env \<Rightarrow> f32 \<Rightarrow> int \<Rightarrow> string \<Rightarrow> dir_file list \<Rightarrow> dir_file list" where
  "retention_files env r now dname fs =
     filter (\<lambda>f. hidden (df_name f) \<or> \<not> (expired r now f \<and> fe_unlink env dname (df_name f))) fs"

definition retention_dir :: "fs_env \<Rightarrow> f32 \<Rightarrow> int \<Rightarrow> date_dir \<Rightarrow> date_dir option" where
  "retention_dir env r now d =
     (if \<not> scanned d then Some d
      else let fs = retention_files env r now (dd_name d) (dir_files d);
               remaining = length (filter (\<lambda>f. \<not> hidden (df_name f)) fs);
               d1 = d\<lparr>dd_files := Some fs\<rparr>
           in if remaining = 0 \<and> fe_rmdir env d1 then None else Some d1)"

definition retention_pass :: "fs_env \<Rightarrow> f32 \<Rightarrow> int \<Rightarrow> port_listing \<Rightarrow> port_listing" where
  "retention_pass env r now l =
     (if keeps_forever r then l else map_option (List.map_filter (retention_dir env r now)) l)"

section \<open>The quota pass\<close>

record item =
  it_dir :: string
  it_name :: string
  it_size :: int
  it_mtime :: int

definition dir_items :: "date_dir \<Rightarrow> item list" where
  "dir_items d =
     (if \<not> scanned d then []
      else List.map_filter (\<lambda>f. if hidden (df_name f) \<or> \<not> is_session_file (df_name f) then None
             else map_option (\<lambda>st. \<lparr>it_dir = dd_name d, it_name = df_name f, it_size = st_size st,
                                    it_mtime = st_mtime st\<rparr>) (df_stat f)) (dir_files d))"

definition listing_items :: "port_listing \<Rightarrow> item list" where
  "listing_items l = concat (map dir_items (listing_dirs l))"

definition total_size :: "item list \<Rightarrow> int" where
  "total_size its = (\<Sum>it\<leftarrow>its. it_size it)"

text \<open>The deletion loop: the items deleted, and the total it ends with.\<close>

fun quota_loop :: "fs_env \<Rightarrow> int \<Rightarrow> item list \<Rightarrow> item list \<times> int" where
  "quota_loop env tot [] = ([], tot)"
| "quota_loop env tot (it # its) =
     (if tot \<le> QUOTA_PER_PORT2_BYTES then ([], tot)
      else if fe_unlink env (it_dir it) (it_name it)
           then (let (del, t) = quota_loop env (tot - it_size it) its in (it # del, t))
           else quota_loop env tot its)"

definition remove_item :: "fs_env \<Rightarrow> item \<Rightarrow> date_dir list \<Rightarrow> date_dir list" where
  "remove_item env it ds =
     List.map_filter (\<lambda>d. if dd_name d \<noteq> it_dir it then Some d
       else let d1 = d\<lparr>dd_files := map_option (filter (\<lambda>f. df_name f \<noteq> it_name it)) (dd_files d)\<rparr>
            in if fe_rmdir env d1 then None else Some d1) ds"

definition quota_deletions :: "fs_env \<Rightarrow> (item list \<Rightarrow> item list) \<Rightarrow> port_listing \<Rightarrow> item list \<times> int" where
  "quota_deletions env order l =
     (let items = listing_items l; tot = total_size items in
      if tot \<le> QUOTA_PER_PORT2_BYTES then ([], tot) else quota_loop env tot (order items))"

definition enforce_port2_quota ::
  "fs_env \<Rightarrow> (item list \<Rightarrow> item list) \<Rightarrow> port_listing \<Rightarrow> port_listing" where
  "enforce_port2_quota env order l =
     map_option (fold (remove_item env) (fst (quota_deletions env order l))) l"

section \<open>A whole pass\<close>

definition cleanup_for_port2 ::
  "fs_env \<Rightarrow> (item list \<Rightarrow> item list) \<Rightarrow> f32 \<Rightarrow> int \<Rightarrow> port_listing \<Rightarrow> port_listing" where
  "cleanup_for_port2 env order r now l = enforce_port2_quota env order (retention_pass env r now l)"

text \<open>All the log directories: \<open>logs/<port2>\<close> for each port.\<close>

type_synonym log_tree = "u32 \<Rightarrow> port_listing"

definition traverse_cb ::
  "fs_env \<Rightarrow> (item list \<Rightarrow> item list) \<Rightarrow> int \<Rightarrow> bytes \<times> bytes \<Rightarrow> log_tree \<Rightarrow> log_tree" where
  "traverse_cb env order now rec logs =
     (case rec of (key, data) \<Rightarrow>
       if length key \<noteq> 4 \<or> length data < KEYENTRY_MIN_SIZE then logs
       else let port2 = le_word key :: u32 in
         if sint port2 \<le> 0 then logs
         else let k = dec_KeyEntry (zero_pad sizeof_KeyEntry data) in
           if ke_magic k \<noteq> KEY_MAGIC then logs
           else logs(port2 := cleanup_for_port2 env order (f32_of (ke_log_retention_days k)) now (logs port2)))"

definition log_cleanup_once ::
  "fs_env \<Rightarrow> (item list \<Rightarrow> item list) \<Rightarrow> 'db tdb_api \<Rightarrow> 'db option \<Rightarrow> int \<Rightarrow> log_tree \<Rightarrow> log_tree" where
  "log_cleanup_once env order api opened now logs =
     (case db_open opened of
        None \<Rightarrow> logs
      | Some db \<Rightarrow> fold (traverse_cb env order now) (tdb_traverse api db) logs)"

text \<open>
  The passes of \<open>log_cleanup_loop\<close>, which runs until it is killed: one at the start, then one after
  each sleep. The interval comes from the environment; \<open>strtod\<close> gives microseconds here.
\<close>

definition cleanup_interval_seconds :: "(string \<Rightarrow> usec option) \<Rightarrow> string option \<Rightarrow> usec" where
  "cleanup_interval_seconds strtod env =
     (case env of
        None \<Rightarrow> seconds 3600
      | Some s \<Rightarrow> if s = [] then seconds 3600
                  else (case strtod s of None \<Rightarrow> seconds 3600 | Some v \<Rightarrow> if v > 0 then v else seconds 3600))"

fun log_cleanup_passes ::
  "fs_env \<Rightarrow> (item list \<Rightarrow> item list) \<Rightarrow> 'db tdb_api \<Rightarrow> ('db option \<times> int) list \<Rightarrow> log_tree \<Rightarrow> log_tree" where
  "log_cleanup_passes env order api [] logs = logs"
| "log_cleanup_passes env order api ((opened, now) # ps) logs =
     log_cleanup_passes env order api ps (log_cleanup_once env order api opened now logs)"

section \<open>The deletion loop\<close>

locale oldest_first =
  fixes order :: "item list \<Rightarrow> item list"
  assumes perm: "mset (order its) = mset its"
    and ascending: "sorted (map it_mtime (order its))"
begin

lemma set_order [simp]: "set (order its) = set its"
  using perm by (metis set_mset_mset)

lemma total_order [simp]: "total_size (order its) = total_size its"
  unfolding total_size_def using perm by (metis mset_map sum_mset_sum_list)

end

definition by_mtime :: "item list \<Rightarrow> item list" where
  "by_mtime its = sort_key it_mtime its"

interpretation by_mtime: oldest_first by_mtime
  by unfold_locales (simp_all add: by_mtime_def)

lemma quota_loop_Cons:
  "tot \<le> QUOTA_PER_PORT2_BYTES \<Longrightarrow> quota_loop env tot (it # its) = ([], tot)"
  "\<not> tot \<le> QUOTA_PER_PORT2_BYTES \<Longrightarrow> fe_unlink env (it_dir it) (it_name it) \<Longrightarrow>
   quota_loop env tot (it # its) =
     (it # fst (quota_loop env (tot - it_size it) its), snd (quota_loop env (tot - it_size it) its))"
  "\<not> tot \<le> QUOTA_PER_PORT2_BYTES \<Longrightarrow> \<not> fe_unlink env (it_dir it) (it_name it) \<Longrightarrow>
   quota_loop env tot (it # its) = quota_loop env tot its"
  by (simp_all add: case_prod_beta Let_def)

declare quota_loop.simps(2) [simp del]

lemma quota_loop_total: "total_size (fst (quota_loop env tot its)) + snd (quota_loop env tot its) = tot"
proof (induction its arbitrary: tot)
  case Nil
  then show ?case by (simp add: total_size_def)
next
  case (Cons it its)
  show ?case
    using Cons.IH [of "tot - it_size it"] Cons.IH [of tot]
    by (cases "tot \<le> QUOTA_PER_PORT2_BYTES"; cases "fe_unlink env (it_dir it) (it_name it)")
      (simp_all add: quota_loop_Cons total_size_def)
qed

text \<open>The items passed over and deleted are a prefix of the order; every other one is kept.\<close>

lemma quota_loop_prefix:
  "\<exists>dn rest. its = dn @ rest
     \<and> fst (quota_loop env tot its) = filter (\<lambda>it. fe_unlink env (it_dir it) (it_name it)) dn
     \<and> (rest \<noteq> [] \<longrightarrow> snd (quota_loop env tot its) \<le> QUOTA_PER_PORT2_BYTES)"
proof (induction its arbitrary: tot)
  case Nil
  then show ?case by simp
next
  case (Cons it its)
  show ?case
  proof (cases "tot \<le> QUOTA_PER_PORT2_BYTES")
    case True
    then show ?thesis
      by (intro exI [of _ "[]"] exI [of _ "it # its"]) (simp add: quota_loop_Cons)
  next
    case False
    define tot1 where "tot1 = (if fe_unlink env (it_dir it) (it_name it) then tot - it_size it else tot)"
    obtain dn rest where "its = dn @ rest"
      "fst (quota_loop env tot1 its) = filter (\<lambda>it. fe_unlink env (it_dir it) (it_name it)) dn"
      "rest \<noteq> [] \<longrightarrow> snd (quota_loop env tot1 its) \<le> QUOTA_PER_PORT2_BYTES"
      using Cons.IH by blast
    then show ?thesis
      using False by (intro exI [of _ "it # dn"] exI [of _ rest]) (simp add: tot1_def quota_loop_Cons split: if_splits)
  qed
qed

text \<open>No more than needed: before the last deletion the total was over the quota.\<close>

lemma quota_loop_minimal:
  assumes "fst (quota_loop env tot its) \<noteq> []"
  shows "QUOTA_PER_PORT2_BYTES < snd (quota_loop env tot its) + it_size (last (fst (quota_loop env tot its)))"
  using assms
proof (induction its arbitrary: tot)
  case Nil
  then show ?case by simp
next
  case (Cons it its)
  consider (stop) "tot \<le> QUOTA_PER_PORT2_BYTES"
    | (del) "\<not> tot \<le> QUOTA_PER_PORT2_BYTES" "fe_unlink env (it_dir it) (it_name it)"
    | (skip) "\<not> tot \<le> QUOTA_PER_PORT2_BYTES" "\<not> fe_unlink env (it_dir it) (it_name it)"
    by blast
  then show ?case
  proof cases
    case stop
    then show ?thesis
      using Cons.prems by (simp add: quota_loop_Cons)
  next
    case del
    then show ?thesis
      using Cons.IH [of "tot - it_size it"] quota_loop_total [of env "tot - it_size it" its]
      by (cases "fst (quota_loop env (tot - it_size it) its) = []") (simp_all add: quota_loop_Cons total_size_def)
  next
    case skip
    then show ?thesis
      using Cons by (simp add: quota_loop_Cons)
  qed
qed

section \<open>What the deletions leave on disk\<close>

definition item_key :: "item \<Rightarrow> string \<times> string" where
  "item_key it = (it_dir it, it_name it)"

text \<open>\<open>rmdir\<close> removes empty directories only.\<close>

definition rmdir_only_empty :: "fs_env \<Rightarrow> bool" where
  "rmdir_only_empty env \<longleftrightarrow> (\<forall>d. fe_rmdir env d \<longrightarrow> dir_items d = [])"

lemma map_filter_filter:
  "List.map_filter f (filter P xs) = List.map_filter (\<lambda>x. if P x then f x else None) xs"
  by (induction xs) (auto simp: List.map_filter_simps split: option.split)

lemma filter_map_filter:
  "filter P (List.map_filter f xs) = List.map_filter (\<lambda>x. case f x of None \<Rightarrow> None | Some y \<Rightarrow> if P y then Some y else None) xs"
  by (induction xs) (auto simp: List.map_filter_simps split: option.split)

lemma dir_items_dir: "it \<in> set (dir_items d) \<Longrightarrow> it_dir it = dd_name d"
  by (auto simp: dir_items_def List.map_filter_def split: if_splits)

lemma dir_items_removed:
  "dir_items (d\<lparr>dd_files := map_option (filter (\<lambda>f. df_name f \<noteq> n)) (dd_files d)\<rparr>) =
   filter (\<lambda>it. it_name it \<noteq> n) (dir_items d)"
proof (cases "scanned d")
  case True
  then obtain fs where fs: "dd_files d = Some fs"
    by (auto simp: scanned_def)
  have "scanned (d\<lparr>dd_files := Some gs\<rparr>)" for gs
    using True by (simp add: scanned_def)
  then show ?thesis
    using True fs by (auto simp: dir_items_def dir_files_def map_filter_filter filter_map_filter
        intro!: arg_cong [where f = "\<lambda>h. List.map_filter h fs"] split: option.split)
next
  case False
  then show ?thesis
    by (simp add: dir_items_def scanned_def)
qed

lemma remove_item_items:
  assumes "rmdir_only_empty env"
  shows "listing_items (Some (remove_item env it ds)) =
    filter (\<lambda>j. item_key j \<noteq> item_key it) (listing_items (Some ds))"
proof (induction ds)
  case Nil
  then show ?case
    by (simp add: remove_item_def listing_items_def listing_dirs_def List.map_filter_simps)
next
  case (Cons d ds)
  have split_dirs: "listing_items (Some (d # es)) = dir_items d @ listing_items (Some es)" for d es
    by (simp add: listing_items_def listing_dirs_def)
  have keep: "filter (\<lambda>j. item_key j \<noteq> item_key it) (dir_items d) = dir_items d" if "dd_name d \<noteq> it_dir it"
    using that by (auto simp: filter_id_conv item_key_def dest: dir_items_dir)
  have drop: "filter (\<lambda>j. item_key j \<noteq> item_key it) (dir_items d) = filter (\<lambda>j. it_name j \<noteq> it_name it) (dir_items d)"
    if "dd_name d = it_dir it"
    using that by (auto simp: item_key_def intro!: filter_cong dest: dir_items_dir)
  let ?d1 = "d\<lparr>dd_files := map_option (filter (\<lambda>f. df_name f \<noteq> it_name it)) (dd_files d)\<rparr>"
  have "fe_rmdir env ?d1 \<Longrightarrow> filter (\<lambda>j. it_name j \<noteq> it_name it) (dir_items d) = []"
    using assms dir_items_removed [of "it_name it" d] by (simp add: rmdir_only_empty_def)
  then show ?case
    using Cons.IH keep drop
    by (auto simp: remove_item_def List.map_filter_simps split_dirs dir_items_removed Let_def)
qed

lemma fold_remove_items:
  assumes "rmdir_only_empty env"
  shows "listing_items (Some (fold (remove_item env) del ds)) =
    filter (\<lambda>j. item_key j \<notin> item_key ` set del) (listing_items (Some ds))"
proof (induction del arbitrary: ds)
  case Nil
  then show ?case by simp
next
  case (Cons it del)
  then show ?case
    by (auto simp: remove_item_items [OF assms] intro!: filter_cong)
qed

lemma total_size_split:
  assumes "distinct (map item_key its)" and "set del \<subseteq> set its" and "distinct del"
  shows "total_size (filter (\<lambda>j. item_key j \<notin> item_key ` set del) its) + total_size del = total_size its"
proof -
  have inj: "inj_on item_key (set its)" and dist: "distinct its"
    using assms(1) by (simp_all add: distinct_map)
  have "filter (\<lambda>j. item_key j \<notin> item_key ` set del) its = filter (\<lambda>j. j \<notin> set del) its"
    using inj assms(2) by (intro filter_cong) (auto simp: inj_on_def)
  moreover have "total_size (filter P its) = (\<Sum>j\<in>{j \<in> set its. P j}. it_size j)" for P
    using dist by (simp add: total_size_def sum_list_distinct_conv_sum_set)
  moreover have "total_size del = (\<Sum>j\<in>set del. it_size j)" "total_size its = (\<Sum>j\<in>set its. it_size j)"
    using dist assms(3) by (simp_all add: total_size_def sum_list_distinct_conv_sum_set)
  moreover have "{j \<in> set its. j \<notin> set del} = set its - set del"
    by auto
  ultimately show ?thesis
    using assms(2) by (simp add: sum.subset_diff [OF assms(2)])
qed

section \<open>Properties\<close>

lemma quota_pass_split:
  assumes "oldest_first order" and "rmdir_only_empty env"
    and dist: "distinct (map item_key (listing_items l))"
    and over: "QUOTA_PER_PORT2_BYTES < total_size (listing_items l)"
    and del: "del = fst (quota_deletions env order l)"
    and l': "l' = enforce_port2_quota env order l"
  obtains dn rest where "dn @ rest = order (listing_items l)"
    and "del = filter (\<lambda>it. fe_unlink env (it_dir it) (it_name it)) dn"
    and "listing_items l' = filter (\<lambda>j. item_key j \<notin> item_key ` set del) (listing_items l)"
    and "del = fst (quota_loop env (total_size (listing_items l)) (order (listing_items l)))"
    and "total_size (listing_items l') = snd (quota_loop env (total_size (listing_items l)) (order (listing_items l)))"
    and "rest \<noteq> [] \<longrightarrow> total_size (listing_items l') \<le> QUOTA_PER_PORT2_BYTES"
proof -
  let ?items = "listing_items l"
  let ?q = "quota_loop env (total_size ?items) (order ?items)"
  have q: "del = fst ?q"
    using over by (simp add: del quota_deletions_def Let_def)
  obtain ds where l: "l = Some ds"
    using over by (cases l) (auto simp: listing_items_def listing_dirs_def total_size_def QUOTA_PER_PORT2_BYTES_def)
  have items': "listing_items l' = filter (\<lambda>j. item_key j \<notin> item_key ` set del) ?items"
    using fold_remove_items [OF assms(2), of del ds] by (simp add: l' l enforce_port2_quota_def del)
  obtain dn rest where dn: "order ?items = dn @ rest"
      "del = filter (\<lambda>it. fe_unlink env (it_dir it) (it_name it)) dn"
    and rest: "rest \<noteq> [] \<longrightarrow> snd ?q \<le> QUOTA_PER_PORT2_BYTES"
    using quota_loop_prefix [of "order ?items" env "total_size ?items"] unfolding q by blast
  have "distinct (dn @ rest)"
    using oldest_first.perm [OF assms(1), of ?items] dist dn(1)
    by (metis distinct_map mset_eq_imp_distinct_iff)
  moreover have "set (dn @ rest) = set ?items"
    using oldest_first.set_order [OF assms(1), of ?items] dn(1) by simp
  ultimately have "distinct del" "set del \<subseteq> set ?items"
    using dn(2) by auto
  with dist have "total_size (listing_items l') + total_size del = total_size ?items"
    unfolding items' by (intro total_size_split)
  then have "total_size (listing_items l') = snd ?q"
    using quota_loop_total [of env "total_size ?items" "order ?items"] q by simp
  then show ?thesis
    using that [OF dn(1) [symmetric] dn(2) items' q] rest by simp
qed


text \<open>A port with two sessions of 700 MiB and one of 100 MiB.\<close>

definition sample_file :: "string \<Rightarrow> int \<Rightarrow> int \<Rightarrow> dir_file" where
  "sample_file n sz t = \<lparr>df_name = n, df_stat = Some \<lparr>st_dev = 1, st_ino = 0, st_size = sz, st_mtime = t\<rparr>\<rparr>"

definition sample_logs :: port_listing where
  "sample_logs = Some [\<lparr>dd_name = ''2026-01-01'', dd_isdir = True,
     dd_files = Some [sample_file ''session2.bin'' (700 * 1024 * 1024) 20, sample_file ''notes'' 5 1,
                      sample_file ''session1.bin'' (700 * 1024 * 1024) 10]\<rparr>,
     \<lparr>dd_name = ''2026-01-02'', dd_isdir = True,
     dd_files = Some [sample_file ''session1.tlog'' (100 * 1024 * 1024) 30]\<rparr>]"

definition sample_fs :: fs_env where
  "sample_fs = \<lparr>fe_unlink = (\<lambda>_ _. True), fe_rmdir = (\<lambda>d. dir_items d = [])\<rparr>"

lemma sample_items: "map item_key (listing_items sample_logs) =
    [(''2026-01-01'', ''session2.bin''), (''2026-01-01'', ''session1.bin''), (''2026-01-02'', ''session1.tlog'')]"
  by (simp add: listing_items_def sample_logs_def listing_dirs_def dir_items_def scanned_def hidden_def
      dir_files_def sample_file_def is_session_file_def ends_with_def item_key_def List.map_filter_simps)


text \<open>What a record of \<open>keys.tdb\<close> makes of the log directory of its port.\<close>

definition record_cleanup ::
  "fs_env \<Rightarrow> (item list \<Rightarrow> item list) \<Rightarrow> int \<Rightarrow> u32 \<Rightarrow> bytes \<Rightarrow> port_listing \<Rightarrow> port_listing" where
  "record_cleanup env order now port2 d l =
     (let k = dec_KeyEntry (zero_pad sizeof_KeyEntry d) in
      if length d < KEYENTRY_MIN_SIZE \<or> sint port2 \<le> 0 \<or> ke_magic k \<noteq> KEY_MAGIC then l
      else cleanup_for_port2 env order (f32_of (ke_log_retention_days k)) now l)"

interpretation cleanup_traversal: port_traversal "traverse_cb env order now" "\<lambda>logs. logs"
    "record_cleanup env order now" for env order now
proof unfold_locales
  fix k d logs and p :: u32
  show "k \<noteq> port_key p \<Longrightarrow> traverse_cb env order now (k, d) logs p = logs p"
    using port_key_iff [of k p] by (auto simp: traverse_cb_def Let_def)
  show "traverse_cb env order now (port_key p, d) logs p = record_cleanup env order now p d (logs p)"
    using port_key_iff [of "port_key p" p] by (auto simp: traverse_cb_def record_cleanup_def Let_def)
qed

text \<open>
  C30: A whole pass touches exactly the ports with a valid record: for a port that has one in
  \<open>keys.tdb\<close> and is positive, the result is the retention pass followed by the quota pass with the
  record's own setting; every other log directory, also of ports no longer configured, is
  left as it was.\<close>

theorem log_cleanup_once_exact:
  assumes "tdb api saved in_txn"
  shows "log_cleanup_once env order api (Some db) now logs port2 =
    (case key_of api db port2 of
       None \<Rightarrow> logs port2
     | Some k \<Rightarrow> if sint port2 \<le> 0 then logs port2
                 else enforce_port2_quota env order
                        (retention_pass env (f32_of (ke_log_retention_days k)) now (logs port2)))"
proof -
  have "log_cleanup_once env order api (Some db) now logs port2 =
      (case tdb_fetch api db (port_key port2) of None \<Rightarrow> logs port2
       | Some d \<Rightarrow> record_cleanup env order now port2 d (logs port2))"
    using tdb.traverse_all [OF assms, of db] tdb.traverse_distinct [OF assms, of db]
    by (simp add: log_cleanup_once_def db_open_def cleanup_traversal.fold_view)
  then show ?thesis
    by (auto simp: key_of_alt record_cleanup_def cleanup_for_port2_def Let_def split: option.split)
qed

theorem log_cleanup_once_exact_witness:
  "log_cleanup_once sample_fs by_mtime mem_api
     (Some (mem_empty\<lparr>mem_recs := [(port_key 10002, enc_KeyEntry sample_entry)]\<rparr>)) 0 (\<lambda>_. sample_logs) 10003 = sample_logs"
proof -
  let ?db = "mem_empty\<lparr>mem_recs := [(port_key 10002, enc_KeyEntry sample_entry)]\<rparr>"
  have "key_of mem_api ?db 10003 = None"
    by (simp add: key_of_alt)
  then show ?thesis
    using log_cleanup_once_exact [OF mem_tdb.tdb_axioms, of sample_fs by_mtime ?db 0 "\<lambda>_. sample_logs" 10003] by simp
qed

section \<open>Retention\<close>

text \<open>The number of days a finite setting stands for.\<close>

definition days_of :: "bool \<Rightarrow> nat \<Rightarrow> int \<Rightarrow> real" where
  "days_of neg m e = (if neg then - real m else real m) * 2 powi e"

lemma age_exceeds_real:
  "age_exceeds (Finite neg m e) age \<longleftrightarrow> days_of neg m e * 86400 < real_of_int age"
proof -
  define v where "v = (if neg then - int m else int m) * 86400"
  have d: "days_of neg m e * 86400 = real_of_int v * 2 powi e"
    by (simp add: days_of_def v_def)
  show ?thesis
  proof (cases "e \<ge> 0")
    case True
    then have "days_of neg m e * 86400 = real_of_int (v * 2 ^ nat e)"
      by (simp add: d power_int_def)
    then show ?thesis
      using True by (simp add: age_exceeds_def v_def [symmetric] del: of_int_mult)
  next
    case False
    then have "days_of neg m e * 86400 = real_of_int v / 2 ^ nat (- e)"
      by (simp add: d power_int_def field_simps)
    then have "days_of neg m e * 86400 < real_of_int age \<longleftrightarrow> real_of_int v < real_of_int (age * 2 ^ nat (- e))"
      by (simp add: pos_divide_less_eq)
    then show ?thesis
      using False by (simp add: age_exceeds_def v_def [symmetric] del: of_int_mult)
  qed
qed

lemma keeps_forever_real: "keeps_forever (Finite neg m e) \<longleftrightarrow> days_of neg m e \<le> 0"
proof -
  have "\<not> (2 :: real) powi e \<le> 0"
    by (simp add: not_le)
  then show ?thesis
    by (auto simp: keeps_forever_def days_of_def mult_le_0_iff)
qed

definition kept :: "fs_env \<Rightarrow> f32 \<Rightarrow> int \<Rightarrow> item \<Rightarrow> bool" where
  "kept env r now it \<longleftrightarrow> \<not> (age_exceeds r (now - it_mtime it) \<and> fe_unlink env (it_dir it) (it_name it))"

lemma retention_dir_items:
  assumes "scanned d"
  shows "dir_items (d\<lparr>dd_files := Some (retention_files env r now (dd_name d) (dir_files d))\<rparr>) =
    filter (kept env r now) (dir_items d)"
proof -
  have "scanned (d\<lparr>dd_files := Some gs\<rparr>)" for gs
    using assms by (simp add: scanned_def)
  then show ?thesis
    using assms
    by (auto simp: dir_items_def dir_files_def retention_files_def map_filter_filter filter_map_filter
        expired_def kept_def intro!: arg_cong [where f = "\<lambda>h. List.map_filter h _"] split: option.split)
qed

text \<open>
  The retention pass: with a finite setting of at most 0 days nothing is removed; otherwise
  exactly the session files older than that many days, computed without rounding, whose \<open>unlink\<close>
  succeeds, and no directory that still holds a session file.\<close>

theorem retention_pass_exact:
  assumes "rmdir_only_empty env" and "f32_of bits = Finite neg m e"
  shows "listing_items (retention_pass env (f32_of bits) now l) =
    (if days_of neg m e \<le> 0 then listing_items l
     else filter (\<lambda>it. \<not> (days_of neg m e * 86400 < real_of_int (now - it_mtime it)
            \<and> fe_unlink env (it_dir it) (it_name it))) (listing_items l))"
proof -
  let ?r = "Finite neg m e"
  have one: "(case retention_dir env ?r now d of None \<Rightarrow> [] | Some d1 \<Rightarrow> dir_items d1) =
      filter (kept env ?r now) (dir_items d)" for d
  proof (cases "scanned d")
    case True
    let ?d1 = "d\<lparr>dd_files := Some (retention_files env ?r now (dd_name d) (dir_files d))\<rparr>"
    have "fe_rmdir env ?d1 \<longrightarrow> dir_items ?d1 = []"
      using assms(1) by (simp add: rmdir_only_empty_def)
    then show ?thesis
      using True retention_dir_items [OF True, of env ?r now] by (auto simp: retention_dir_def Let_def)
  next
    case False
    then show ?thesis
      by (simp add: retention_dir_def dir_items_def)
  qed
  have "listing_items (Some (List.map_filter (retention_dir env ?r now) ds)) =
      filter (kept env ?r now) (listing_items (Some ds))" for ds
  proof (induction ds)
    case Nil
    then show ?case
      by (simp add: listing_items_def listing_dirs_def List.map_filter_simps)
  next
    case (Cons d ds)
    then show ?case
      using one [of d] by (auto simp: listing_items_def listing_dirs_def List.map_filter_simps split: option.splits)
  qed
  then show ?thesis
    unfolding assms(2) using keeps_forever_real [of neg m e]
    by (cases l) (auto simp: retention_pass_def kept_def [abs_def] age_exceeds_real listing_items_def listing_dirs_def)
qed

text \<open>One day, the single with the bits \<open>0x3F800000\<close>.\<close>

theorem retention_pass_exact_witness:
  "listing_items (retention_pass sample_fs (f32_of 0x3F800000) 86425 sample_logs) =
    (if days_of False (2 ^ 23) (- 23) \<le> 0 then listing_items sample_logs
     else filter (\<lambda>it. \<not> (days_of False (2 ^ 23) (- 23) * 86400 < real_of_int (86425 - it_mtime it)
            \<and> fe_unlink sample_fs (it_dir it) (it_name it))) (listing_items sample_logs))"
proof (rule retention_pass_exact)
  show "rmdir_only_empty sample_fs"
    by (simp add: rmdir_only_empty_def sample_fs_def)
  show "f32_of 0x3F800000 = Finite False (2 ^ 23) (- 23)"
    by (simp add: f32_of_def)
qed

end
