(* ===== verification/Sha256.thy ===== *)
theory Sha256
  imports Prelude
begin

text \<open>
  \<open>sha256.cpp\<close>, the hash the generated MAVLink signing code calls: the streaming context, the block
  function \<open>sha256_calc\<close>, \<open>sha256_update\<close> and \<open>sha256_final_32bytes\<close>. Words in memory are
  little-endian, as on the machines the program is built for, so that the byte swap of
  \<open>sha256_update\<close> reads big-endian words and \<open>htonl\<close> reverses the bytes of a result word.
\<close>

unbundle bit_operations_syntax

section \<open>The block function\<close>

definition sha_Ch :: "u32 \<Rightarrow> u32 \<Rightarrow> u32 \<Rightarrow> u32" where
  "sha_Ch x y z = (x AND y) XOR (NOT x AND z)"

definition sha_Maj :: "u32 \<Rightarrow> u32 \<Rightarrow> u32 \<Rightarrow> u32" where
  "sha_Maj x y z = (x AND y) XOR (x AND z) XOR (y AND z)"

definition ROTR :: "u32 \<Rightarrow> nat \<Rightarrow> u32" where
  "ROTR x n = drop_bit n x OR push_bit (32 - n) x"

definition Sigma0 :: "u32 \<Rightarrow> u32" where "Sigma0 x = ROTR x 2 XOR ROTR x 13 XOR ROTR x 22"
definition Sigma1 :: "u32 \<Rightarrow> u32" where "Sigma1 x = ROTR x 6 XOR ROTR x 11 XOR ROTR x 25"
definition sigma0 :: "u32 \<Rightarrow> u32" where "sigma0 x = ROTR x 7 XOR ROTR x 18 XOR drop_bit 3 x"
definition sigma1 :: "u32 \<Rightarrow> u32" where "sigma1 x = ROTR x 17 XOR ROTR x 19 XOR drop_bit 10 x"

text \<open>In the rows of four that the source writes.\<close>

definition sha256_constant_256 :: "u32 list" where
  "sha256_constant_256 = concat [
     [0x428a2f98, 0x71374491, 0xb5c0fbcf, 0xe9b5dba5],
     [0x3956c25b, 0x59f111f1, 0x923f82a4, 0xab1c5ed5],
     [0xd807aa98, 0x12835b01, 0x243185be, 0x550c7dc3],
     [0x72be5d74, 0x80deb1fe, 0x9bdc06a7, 0xc19bf174],
     [0xe49b69c1, 0xefbe4786, 0x0fc19dc6, 0x240ca1cc],
     [0x2de92c6f, 0x4a7484aa, 0x5cb0a9dc, 0x76f988da],
     [0x983e5152, 0xa831c66d, 0xb00327c8, 0xbf597fc7],
     [0xc6e00bf3, 0xd5a79147, 0x06ca6351, 0x14292967],
     [0x27b70a85, 0x2e1b2138, 0x4d2c6dfc, 0x53380d13],
     [0x650a7354, 0x766a0abb, 0x81c2c92e, 0x92722c85],
     [0xa2bfe8a1, 0xa81a664b, 0xc24b8b70, 0xc76c51a3],
     [0xd192e819, 0xd6990624, 0xf40e3585, 0x106aa070],
     [0x19a4c116, 0x1e376c08, 0x2748774c, 0x34b0bcb5],
     [0x391c0cb3, 0x4ed8aa4a, 0x5b9cca4f, 0x682e6ff3],
     [0x748f82ee, 0x78a5636f, 0x84c87814, 0x8cc70208],
     [0x90befffa, 0xa4506ceb, 0xbef9a3f7, 0xc67178f2]]"

record sha256_ctx =
  sha_sz0 :: u32
  sha_sz1 :: u32
  sha_counter :: "u32 list"
  sha_save :: bytes

text \<open>\<open>save\<close> is what the uninitialised buffer holds.\<close>

definition sha256_init :: "bytes \<Rightarrow> sha256_ctx" where
  "sha256_init save = \<lparr>sha_sz0 = 0, sha_sz1 = 0,
     sha_counter = [0x6a09e667, 0xbb67ae85, 0x3c6ef372, 0xa54ff53a, 0x510e527f, 0x9b05688c, 0x1f83d9ab, 0x5be0cd19],
     sha_save = save\<rparr>"

text \<open>The two loops that fill \<open>data\<close>.\<close>

definition sha_data :: "u32 list \<Rightarrow> u32 list" where
  "sha_data inp = fold (\<lambda>i data. data @ [sigma1 (data ! (i - 2)) + data ! (i - 7) + sigma0 (data ! (i - 15)) + data ! (i - 16)])
     [16..<64] (take 16 inp)"

type_synonym regs = "u32 \<times> u32 \<times> u32 \<times> u32 \<times> u32 \<times> u32 \<times> u32 \<times> u32"

definition sha_round :: "u32 list \<Rightarrow> nat \<Rightarrow> regs \<Rightarrow> regs" where
  "sha_round data i r = (case r of (AA, BB, CC, DD, EE, FF, GG, HH) \<Rightarrow>
     let T1 = HH + Sigma1 EE + sha_Ch EE FF GG + sha256_constant_256 ! i + data ! i;
         T2 = Sigma0 AA + sha_Maj AA BB CC
     in (T1 + T2, AA, BB, CC, DD + T1, EE, FF, GG))"

definition sha256_calc :: "u32 list \<Rightarrow> sha256_ctx \<Rightarrow> sha256_ctx" where
  "sha256_calc inp m =
     (let c = sha_counter m; data = sha_data inp in
      case fold (sha_round data) [0..<64] (c ! 0, c ! 1, c ! 2, c ! 3, c ! 4, c ! 5, c ! 6, c ! 7) of
        (AA, BB, CC, DD, EE, FF, GG, HH) \<Rightarrow>
          m\<lparr>sha_counter := [c ! 0 + AA, c ! 1 + BB, c ! 2 + CC, c ! 3 + DD,
                             c ! 4 + EE, c ! 5 + FF, c ! 6 + GG, c ! 7 + HH]\<rparr>)"

section \<open>Streaming\<close>

text \<open>A 32-bit word stored most significant byte first: the byte swap, and \<open>htonl\<close> with \<open>memcpy\<close>.\<close>

definition be_bytes :: "u32 \<Rightarrow> bytes" where
  "be_bytes w = rev (word_le w)"

definition swapped :: "bytes \<Rightarrow> u32 list" where
  "swapped save = map (\<lambda>i. le_word (rev (take 4 (drop (4 * i) save)))) [0..<16]"

text \<open>
  The loop of \<open>sha256_update\<close>. At its head \<open>offset\<close> is below 64: it is a remainder by 64 first, and
  0 after each full block.
\<close>

function update_loop :: "nat \<Rightarrow> bytes \<Rightarrow> sha256_ctx \<Rightarrow> sha256_ctx" where
  "update_loop offset p m =
     (if p = [] \<or> \<not> offset < 64 then m
      else let l = (if length p < 64 - offset then length p else 64 - offset);
               save = take offset (sha_save m) @ take l p @ drop (offset + l) (sha_save m);
               m1 = m\<lparr>sha_save := save\<rparr>
           in if offset + l = 64 then update_loop 0 (drop l p) (sha256_calc (swapped save) m1)
              else update_loop (offset + l) (drop l p) m1)"
  by pat_completeness auto

termination
  by (relation "measure (\<lambda>(offset, p, m). length p)") (auto split: if_splits)

declare update_loop.simps [simp del]

definition sha256_update :: "bytes \<Rightarrow> sha256_ctx \<Rightarrow> sha256_ctx" where
  "sha256_update v m =
     (let old_sz = sha_sz0 m;
          sz0 = old_sz + of_nat (length v) * 8;
          m1 = m\<lparr>sha_sz0 := sz0, sha_sz1 := (if sz0 < old_sz then sha_sz1 m + 1 else sha_sz1 m)\<rparr>
      in update_loop (unat (old_sz div 8) mod 64) v m1)"

text \<open>The padding: \<open>zeros\<close> has 72 elements, of which \<open>dstart + 8\<close> are hashed.\<close>

definition sha_dstart :: "sha256_ctx \<Rightarrow> nat" where
  "sha_dstart m = (120 - unat (sha_sz0 m div 8) mod 64 - 1) mod 64 + 1"

definition sha_zeros :: "sha256_ctx \<Rightarrow> bytes" where
  "sha_zeros m =
     (let d = sha_dstart m; z = 0x80 # replicate 71 0 in
      z[d + 7 := ucast (drop_bit 0 (sha_sz0 m)), d + 6 := ucast (drop_bit 8 (sha_sz0 m)),
        d + 5 := ucast (drop_bit 16 (sha_sz0 m)), d + 4 := ucast (drop_bit 24 (sha_sz0 m)),
        d + 3 := ucast (drop_bit 0 (sha_sz1 m)), d + 2 := ucast (drop_bit 8 (sha_sz1 m)),
        d + 1 := ucast (drop_bit 16 (sha_sz1 m)), d := ucast (drop_bit 24 (sha_sz1 m))])"

definition sha256_final_32bytes :: "sha256_ctx \<Rightarrow> sha256_ctx \<times> bytes" where
  "sha256_final_32bytes m =
     (let m1 = sha256_update (take (sha_dstart m + 8) (sha_zeros m)) m
      in (m1, concat (map be_bytes (sha_counter m1))))"

end
