(* ===== verification/Sha256_Props.thy ===== *)
theory Sha256_Props
  imports Sha256
begin

text \<open>
  SHA-256 as FIPS 180-4 defines it, on whole messages, and the equivalence of the block function of
  \<open>sha256.cpp\<close> with its compression function.
\<close>

section \<open>The standard\<close>

definition fips_Sigma0 :: "u32 \<Rightarrow> u32" where
  "fips_Sigma0 x = word_rotr 2 x XOR word_rotr 13 x XOR word_rotr 22 x"
definition fips_Sigma1 :: "u32 \<Rightarrow> u32" where
  "fips_Sigma1 x = word_rotr 6 x XOR word_rotr 11 x XOR word_rotr 25 x"
definition fips_sigma0 :: "u32 \<Rightarrow> u32" where
  "fips_sigma0 x = word_rotr 7 x XOR word_rotr 18 x XOR drop_bit 3 x"
definition fips_sigma1 :: "u32 \<Rightarrow> u32" where
  "fips_sigma1 x = word_rotr 17 x XOR word_rotr 19 x XOR drop_bit 10 x"

text \<open>The message schedule of a block of sixteen words.\<close>

fun fips_W :: "u32 list \<Rightarrow> nat \<Rightarrow> u32" where
  "fips_W M t = (if t < 16 then M ! t
     else fips_sigma1 (fips_W M (t - 2)) + fips_W M (t - 7) + fips_sigma0 (fips_W M (t - 15)) + fips_W M (t - 16))"

declare fips_W.simps [simp del]

text \<open>The working variables after \<open>t\<close> rounds.\<close>

primrec fips_vars :: "u32 list \<Rightarrow> regs \<Rightarrow> nat \<Rightarrow> regs" where
  "fips_vars M H 0 = H"
| "fips_vars M H (Suc t) = (case fips_vars M H t of (a, b, c, d, e, f, g, h) \<Rightarrow>
     let T1 = h + fips_Sigma1 e + sha_Ch e f g + sha256_constant_256 ! t + fips_W M t;
         T2 = fips_Sigma0 a + sha_Maj a b c
     in (T1 + T2, a, b, c, d + T1, e, f, g))"

definition fips_compress :: "u32 list \<Rightarrow> u32 list \<Rightarrow> u32 list" where
  "fips_compress H M = (case fips_vars M (H ! 0, H ! 1, H ! 2, H ! 3, H ! 4, H ! 5, H ! 6, H ! 7) 64 of
     (a, b, c, d, e, f, g, h) \<Rightarrow> map2 (+) H [a, b, c, d, e, f, g, h])"

definition fips_be_word :: "bytes \<Rightarrow> u32" where
  "fips_be_word bs = foldl (\<lambda>w b. 256 * w + ucast b) 0 bs"

definition fips_words :: "bytes \<Rightarrow> u32 list" where
  "fips_words B = map (\<lambda>i. fips_be_word (take 4 (drop (4 * i) B))) [0..<16]"

text \<open>All complete blocks of a message, and the bytes behind them.\<close>

function fips_blocks :: "u32 list \<Rightarrow> bytes \<Rightarrow> u32 list" where
  "fips_blocks H M = (if length M < 64 then H else fips_blocks (fips_compress H (fips_words (take 64 M))) (drop 64 M))"
  by pat_completeness auto

termination
  by (relation "measure (\<lambda>(H, M). length M)") auto

declare fips_blocks.simps [simp del]

definition fips_rest :: "bytes \<Rightarrow> bytes" where
  "fips_rest M = drop (64 * (length M div 64)) M"

definition fips_pad :: "bytes \<Rightarrow> bytes" where
  "fips_pad M = M @ [0x80] @ replicate ((119 - length M mod 64) mod 64) 0 @ rev (word_le (of_nat (8 * length M) :: u64))"

definition fips_IV :: "u32 list" where
  "fips_IV = [0x6a09e667, 0xbb67ae85, 0x3c6ef372, 0xa54ff53a, 0x510e527f, 0x9b05688c, 0x1f83d9ab, 0x5be0cd19]"

definition fips_sha256 :: "bytes \<Rightarrow> bytes" where
  "fips_sha256 M = concat (map (\<lambda>w. rev (word_le w)) (fips_blocks fips_IV (fips_pad M)))"

section \<open>The block function\<close>

lemma ROTR_rotr:
  assumes "0 < n" and "n < 32"
  shows "ROTR x n = word_rotr n x"
proof (rule bit_word_eqI)
  fix m
  assume "m < LENGTH(32)"
  then have m: "m < 32" by simp
  show "bit (ROTR x n) m \<longleftrightarrow> bit (word_rotr n x) m"
  proof (cases "m + n < 32")
    case True
    then show ?thesis
      using assms m by (auto simp: ROTR_def bit_word_rotr_iff bit_simps ac_simps)
  next
    case False
    then have "(m + n) mod 32 = m + n - 32" "m - (32 - n) = m + n - 32"
      using assms m by (simp_all add: mod_if)
    then show ?thesis
      using assms m False by (auto simp: ROTR_def bit_word_rotr_iff bit_simps ac_simps dest: bit_imp_le_length)
  qed
qed

lemma sigmas: "Sigma0 = fips_Sigma0" "Sigma1 = fips_Sigma1" "sigma0 = fips_sigma0" "sigma1 = fips_sigma1"
  by (simp_all add: fun_eq_iff Sigma0_def Sigma1_def sigma0_def sigma1_def fips_Sigma0_def fips_Sigma1_def
      fips_sigma0_def fips_sigma1_def ROTR_rotr)

lemma sha_data_W:
  assumes "length M = 16"
  shows "sha_data M = map (fips_W M) [0..<64]"
proof -
  let ?f = "\<lambda>i data. data @ [sigma1 (data ! (i - 2)) + data ! (i - 7) + sigma0 (data ! (i - 15)) + data ! (i - 16)]"
  have base: "take 16 M = map (fips_W M) [0..<16]"
    using assms by (intro nth_equalityI) (simp_all add: fips_W.simps [of M])
  have all: "16 \<le> n \<Longrightarrow> fold ?f [16..<n] (take 16 M) = map (fips_W M) [0..<n]" for n
  proof (induction n rule: dec_induct)
    case base
    then show ?case
      using \<open>take 16 M = map (fips_W M) [0..<16]\<close> by simp
  next
    case (step n)
    then show ?case
      by (simp add: sigmas fips_W.simps [of M n])
  qed
  show ?thesis
    unfolding sha_data_def by (rule all) simp
qed

lemma rounds_vars:
  assumes "data = map (fips_W M) [0..<64]"
  shows "n \<le> 64 \<Longrightarrow> fold (sha_round data) [0..<n] H = fips_vars M H n"
proof (induction n)
  case (Suc n)
  then show ?case
    using assms by (auto simp: sha_round_def sigmas Let_def split: prod.split)
qed simp

lemma calc_compress:
  assumes "length M = 16" and "length (sha_counter m) = 8"
  shows "sha256_calc M m = m\<lparr>sha_counter := fips_compress (sha_counter m) M\<rparr>"
proof -
  let ?c = "sha_counter m"
  obtain a b c d e f g h where v:
    "fips_vars M (?c ! 0, ?c ! 1, ?c ! 2, ?c ! 3, ?c ! 4, ?c ! 5, ?c ! 6, ?c ! 7) 64 = (a, b, c, d, e, f, g, h)"
    by (metis surj_pair)
  have list: "?c = [?c ! 0, ?c ! 1, ?c ! 2, ?c ! 3, ?c ! 4, ?c ! 5, ?c ! 6, ?c ! 7]"
    using assms(2) by (auto simp: list_eq_iff_nth_eq less_Suc_eq numeral_eq_Suc)
  have "map2 (+) ?c [a, b, c, d, e, f, g, h] =
      [?c ! 0 + a, ?c ! 1 + b, ?c ! 2 + c, ?c ! 3 + d, ?c ! 4 + e, ?c ! 5 + f, ?c ! 6 + g, ?c ! 7 + h]"
    by (subst list) simp
  then show ?thesis
    using rounds_vars [OF sha_data_W [OF assms(1)], of 64] v
    by (simp add: sha256_calc_def fips_compress_def Let_def)
qed

lemma le_nat_rev_word: "(of_nat (le_nat (rev bs)) :: u32) = fips_be_word bs"
  by (induction bs rule: rev_induct) (simp_all add: fips_be_word_def)

lemma swapped_words: "swapped B = fips_words B"
  by (simp add: swapped_def fips_words_def le_word_def le_nat_rev_word)

end
