(* ===== verification/Sha256_Stream.thy ===== *)
theory Sha256_Stream
  imports Sha256_Props
begin

text \<open>
  The streaming interface of \<open>sha256.cpp\<close> against FIPS 180-4: what the context holds after any sequence of
  updates, the padding \<open>sha256_final_32bytes\<close> appends, and the equivalence of both with the standard.
\<close>

section \<open>Messages in pieces\<close>

lemma length_fips_rest [simp]: "length (fips_rest M) = length M mod 64"
  by (simp add: fips_rest_def minus_mult_div_eq_mod)

lemma fips_rest_short: "length M < 64 \<Longrightarrow> fips_rest M = M"
  by (simp add: fips_rest_def)

lemma fips_rest_step:
  assumes "64 \<le> length M"
  shows "fips_rest M = fips_rest (drop 64 M)"
proof -
  have "length M div 64 = Suc ((length M - 64) div 64)"
    using assms by (simp add: le_div_geq)
  then show ?thesis
    by (simp add: fips_rest_def add.commute)
qed

lemma blocks_short: "length M < 64 \<Longrightarrow> fips_blocks H M = H"
  by (simp add: fips_blocks.simps)

lemma blocks_step: "64 \<le> length M \<Longrightarrow>
    fips_blocks H M = fips_blocks (fips_compress H (fips_words (take 64 M))) (drop 64 M)"
  by (subst fips_blocks.simps) simp

lemma blocks_append: "fips_blocks H (M @ v) = fips_blocks (fips_blocks H M) (fips_rest M @ v)"
proof (induction "length M" arbitrary: M H rule: less_induct)
  case less
  show ?case
  proof (cases "length M < 64")
    case False
    then show ?thesis
      using less [of "drop 64 M" "fips_compress H (fips_words (take 64 M))"]
      by (simp add: blocks_step fips_rest_step)
  qed (simp add: blocks_short fips_rest_short)
qed

lemma fips_rest_append: "fips_rest (M @ v) = fips_rest (fips_rest M @ v)"
proof (induction "length M" arbitrary: M rule: less_induct)
  case less
  show ?case
  proof (cases "length M < 64")
    case False
    then show ?thesis
      using less [of "drop 64 M"] by (simp add: fips_rest_step)
  qed (simp add: fips_rest_short)
qed

lemma length_compress: "length H = 8 \<Longrightarrow> length (fips_compress H M) = 8"
  by (simp add: fips_compress_def split: prod.split)

lemma length_words [simp]: "length (fips_words B) = 16"
  by (simp add: fips_words_def)

lemma length_blocks: "length H = 8 \<Longrightarrow> length (fips_blocks H M) = 8"
  by (induction H M rule: fips_blocks.induct) (subst fips_blocks.simps, simp add: length_compress)

text \<open>The loop of an update absorbs the pending bytes and the new ones.\<close>

lemma update_loop_absorbs:
  assumes "length (sha_save m) = 64" and "length (sha_counter m) = 8" and "offset < 64"
    and "M = take offset (sha_save m) @ p"
  shows "sha_counter (update_loop offset p m) = fips_blocks (sha_counter m) M
    \<and> take (length M mod 64) (sha_save (update_loop offset p m)) = fips_rest M
    \<and> length (sha_save (update_loop offset p m)) = 64
    \<and> sha_sz0 (update_loop offset p m) = sha_sz0 m \<and> sha_sz1 (update_loop offset p m) = sha_sz1 m"
  using assms(1-3) unfolding assms(4)
proof (induction "length p" arbitrary: p offset m rule: less_induct)
  case less
  show ?case
  proof (cases "p = []")
    case True
    then show ?thesis
      using less.prems by (simp add: update_loop.simps blocks_short fips_rest_short)
  next
    case False
    define l where "l = (if length p < 64 - offset then length p else 64 - offset)"
    define save where "save = take offset (sha_save m) @ take l p @ drop (offset + l) (sha_save m)"
    let ?m1 = "m\<lparr>sha_save := save\<rparr>"
    have l: "0 < l" "l \<le> length p" "offset + l \<le> 64"
      using False less.prems by (auto simp: l_def)
    have len: "length save = 64"
      using l less.prems by (simp add: save_def)
    have u: "update_loop offset p m =
        (if offset + l = 64 then update_loop 0 (drop l p) (sha256_calc (swapped save) ?m1)
         else update_loop (offset + l) (drop l p) ?m1)"
      using False less.prems by (subst update_loop.simps) (simp add: Let_def l_def save_def)
    show ?thesis
    proof (cases "offset + l = 64")
      case True
      let ?m2 = "?m1\<lparr>sha_counter := fips_compress (sha_counter m) (fips_words save)\<rparr>"
      have calc: "sha256_calc (swapped save) ?m1 = ?m2"
        using calc_compress [of "fips_words save" ?m1] less.prems by (simp add: swapped_words)
      have M: "take 64 (take offset (sha_save m) @ p) = save" "drop 64 (take offset (sha_save m) @ p) = drop l p"
        "64 \<le> length (take offset (sha_save m) @ p)"
        using True l less.prems by (simp_all add: save_def) (metis diff_add_inverse)+
      have sh: "length (drop l p) < length p"
        using l \<open>p \<noteq> []\<close> by simp
      have d: "offset + length p - 64 = length p - l"
        using True l by simp
      have "sha_counter ?m2 = fips_compress (sha_counter m) (fips_words save)" "sha_save ?m2 = save"
        by simp_all
      then have IH: "sha_counter (update_loop 0 (drop l p) ?m2) = fips_blocks (fips_compress (sha_counter m) (fips_words save)) (drop l p)
          \<and> take (length (drop l p) mod 64) (sha_save (update_loop 0 (drop l p) ?m2)) = fips_rest (drop l p)
          \<and> length (sha_save (update_loop 0 (drop l p) ?m2)) = 64
          \<and> sha_sz0 (update_loop 0 (drop l p) ?m2) = sha_sz0 m \<and> sha_sz1 (update_loop 0 (drop l p) ?m2) = sha_sz1 m"
        using less.hyps [OF sh, of ?m2 0] len less.prems(2) by (simp add: length_compress)
      have "length (take offset (sha_save m) @ p) mod 64 = length (drop l p) mod 64"
        using M(3) d less.prems by (simp add: le_mod_geq)
      then show ?thesis
        unfolding u calc if_P [OF True] blocks_step [OF M(3)] fips_rest_step [OF M(3)] M(1,2)
        using IH by simp
    next
      case False
      then have "l = length p" "offset + length p < 64"
        using l by (auto simp: l_def split: if_splits)
      then show ?thesis
        using False u less.prems len update_loop.simps [of "offset + length p" "[]" ?m1]
        by (simp add: blocks_short fips_rest_short save_def)
    qed
  qed
qed

section \<open>The sizes\<close>

text \<open>What a context that has taken the message \<open>M\<close> holds.\<close>

definition absorbed :: "bytes \<Rightarrow> sha256_ctx \<Rightarrow> bool" where
  "absorbed M m \<longleftrightarrow> sha_counter m = fips_blocks fips_IV M \<and> length (sha_save m) = 64 \<and>
     take (length M mod 64) (sha_save m) = fips_rest M \<and>
     sha_sz0 m = of_nat (8 * length M) \<and> sha_sz1 m = of_nat (8 * length M div 2 ^ 32)"

lemma length_IV [simp]: "length fips_IV = 8"
  by (simp add: fips_IV_def)

lemma absorbed_init: "length save = 64 \<Longrightarrow> absorbed [] (sha256_init save)"
  by (simp add: absorbed_def sha256_init_def blocks_short fips_rest_short fips_IV_def)

lemma offset_of_size: "unat ((of_nat (8 * n) :: u32) div 8) mod 64 = n mod 64"
proof -
  have "unat (of_nat (8 * n) :: u32) = 8 * n mod 2 ^ 32"
    by (simp only: unat_of_nat take_bit_eq_mod) simp
  also have "\<dots> = 8 * (n mod 2 ^ 29)"
    using mult_mod_right [of 8 n "2 ^ 29"] by simp
  finally show ?thesis
    by (simp add: unat_div mod_mod_cancel del: of_nat_mult)
qed

lemma size_carry:
  fixes a b :: nat
  assumes "b < 2 ^ 32"
  shows "(a + b) div 2 ^ 32 = (if (of_nat a + of_nat b :: u32) < of_nat a then Suc (a div 2 ^ 32) else a div 2 ^ 32)"
proof -
  have lt: "(of_nat a + of_nat b :: u32) < of_nat a \<longleftrightarrow> (a + b) mod 2 ^ 32 < a mod 2 ^ 32"
    by (simp add: word_less_nat_alt unat_of_nat take_bit_eq_mod flip: of_nat_add)
  let ?r = "a mod 2 ^ 32"
  have ab: "(a + b) div 2 ^ 32 = a div 2 ^ 32 + (?r + b) div 2 ^ 32" "(a + b) mod 2 ^ 32 = (?r + b) mod 2 ^ 32"
    using assms by (simp_all add: div_add1_eq [of a b] div_add1_eq [of ?r b] mod_add_left_eq)
  have r: "?r < 2 ^ 32"
    by simp
  show ?thesis
  proof (cases "?r + b < 2 ^ 32")
    case False
    then have "(?r + b) div 2 ^ 32 = 1" "(?r + b) mod 2 ^ 32 = ?r + b - 2 ^ 32"
      using r assms by (simp_all add: le_div_geq le_mod_geq)
    moreover have "?r + b - 2 ^ 32 < ?r"
      using False assms by linarith
    ultimately show ?thesis
      unfolding lt ab by simp
  qed (use lt ab in simp_all)
qed

lemma absorbed_update:
  assumes "absorbed M m" and "length v < 2 ^ 29"
  shows "absorbed (M @ v) (sha256_update v m)"
proof -
  let ?sz0 = "sha_sz0 m + of_nat (length v) * 8"
  let ?m1 = "m\<lparr>sha_sz0 := ?sz0, sha_sz1 := (if ?sz0 < sha_sz0 m then sha_sz1 m + 1 else sha_sz1 m)\<rparr>"
  have m: "sha_counter m = fips_blocks fips_IV M" "length (sha_save m) = 64"
    "take (length M mod 64) (sha_save m) = fips_rest M" "sha_sz0 m = of_nat (8 * length M)"
    "sha_sz1 m = of_nat (8 * length M div 2 ^ 32)"
    using assms(1) by (simp_all add: absorbed_def)
  have u: "sha256_update v m = update_loop (length M mod 64) v ?m1"
    by (simp add: sha256_update_def Let_def m(4) offset_of_size del: of_nat_mult)
  have sz0: "?sz0 = of_nat (8 * length M) + of_nat (8 * length v)"
    by (simp add: m(4) mult.commute)
  have "(of_nat ((8 * length M + 8 * length v) div 2 ^ 32) :: u32) = sha_sz1 ?m1"
    using size_carry [of "8 * length v" "8 * length M"] assms(2) by (simp add: m(4,5) mult.commute)
  moreover have "(length M mod 64 + length v) mod 64 = length (M @ v) mod 64"
    by (simp add: mod_add_left_eq)
  moreover have "8 * length (M @ v) = 8 * length M + 8 * length v"
    by simp
  ultimately show ?thesis
    using update_loop_absorbs [of ?m1 "length M mod 64" "fips_rest M @ v" v] sz0 m
    unfolding absorbed_def u
    by (simp add: length_blocks flip: blocks_append fips_rest_append)
qed

section \<open>The padding\<close>

lemma byte_of_word: "n \<le> 24 \<Longrightarrow> (ucast (drop_bit n (of_nat v :: u32)) :: u8) = of_nat (v div 2 ^ n)"
  by (rule bit_word_eqI) (simp add: bit_simps flip: drop_bit_eq_div)

lemma unat_long: "unat (of_nat v :: u64) = take_bit 64 v"
  by (simp only: unat_of_nat take_bit_eq_mod) simp

lemma byte_of_long: "n \<le> 56 \<Longrightarrow> (of_nat (unat (of_nat v :: u64) div 2 ^ n) :: u8) = of_nat (v div 2 ^ n)"
  unfolding unat_long by (rule bit_word_eqI) (auto simp: bit_simps simp flip: drop_bit_eq_div)

lemma nat_le_map: "nat_le n v = map (\<lambda>i. of_nat (v div 2 ^ (8 * i))) [0..<n]"
proof (induction n arbitrary: v)
  case (Suc n)
  have "(of_nat (v mod 256) :: u8) = of_nat v"
    by (simp add: word_of_nat_eq_iff take_bit_eq_mod)
  moreover have "v div 256 div 2 ^ (8 * i) = v div 2 ^ (8 * Suc i)" for i
    by (simp add: div_mult2_eq [symmetric] power_add)
  ultimately show ?case
    by (simp add: Suc upt_conv_Cons map_Suc_upt [symmetric] o_def del: upt_Suc)
qed simp

lemma long_bytes:
  "rev (word_le (of_nat v :: u64)) = map (\<lambda>n. ucast (drop_bit n (of_nat (v div 2 ^ 32) :: u32))) [24, 16, 8, 0]
     @ map (\<lambda>n. ucast (drop_bit n (of_nat v :: u32))) [24, 16, 8, 0]"
proof -
  have "word_le (of_nat v :: u64) = map (\<lambda>i. of_nat (v div 2 ^ (8 * i))) [0..<8]"
    unfolding word_le_def nat_le_map by (rule map_cong) (auto intro!: byte_of_long)
  moreover have "[0..<8] = [0, 1, 2, 3, 4, 5, 6, 7]"
    by (simp add: upt_rec)
  moreover have "v div 2 ^ 32 div 2 ^ n = v div 2 ^ (32 + n)" for n
    by (simp add: div_mult2_eq [symmetric] power_add)
  ultimately show ?thesis
    using byte_of_word [of _ v] byte_of_word [of _ "v div 2 ^ 32"] byte_of_word [of 0 v] byte_of_word [of 0 "v div 2 ^ 32"]
    by simp
qed

lemma set_eight:
  assumes "length A = d"
  shows "take (d + 8) ((A @ [c0, c1, c2, c3, c4, c5, c6, c7] @ B)
     [d + 7 := x7, d + 6 := x6, d + 5 := x5, d + 4 := x4, d + 3 := x3, d + 2 := x2, d + 1 := x1, d := x0])
   = A @ [x0, x1, x2, x3, x4, x5, x6, x7]"
  using assms by (simp add: list_update_append)

lemma final_padding:
  assumes "absorbed M m"
  shows "M @ take (sha_dstart m + 8) (sha_zeros m) = fips_pad M"
proof -
  have m: "sha_sz0 m = of_nat (8 * length M)" "sha_sz1 m = of_nat (8 * length M div 2 ^ 32)"
    using assms by (simp_all add: absorbed_def)
  define d where "d = sha_dstart m"
  have d: "d = (119 - length M mod 64) mod 64 + 1"
    using offset_of_size [of "length M"] by (simp add: d_def sha_dstart_def m del: of_nat_mult)
  have "(119 - length M mod 64) mod 64 < 64"
    by simp
  then have "71 = (d - 1) + (8 + (64 - d))"
    unfolding d by linarith
  then have "replicate 71 (0 :: u8) = replicate (d - 1) 0 @ replicate 8 0 @ replicate (64 - d) 0"
    by (simp only: replicate_add)
  moreover have "replicate 8 (0 :: u8) = [0, 0, 0, 0, 0, 0, 0, 0]"
    by (simp add: numeral_eq_Suc)
  ultimately have z: "0x80 # replicate 71 0 = (0x80 # replicate (d - 1) 0) @ [0, 0, 0, 0, 0, 0, 0, 0] @ replicate (64 - d) (0 :: u8)"
    by simp
  have len: "length (0x80 # replicate (d - 1) (0 :: u8)) = d"
    by (simp add: d)
  show ?thesis
    unfolding fips_pad_def long_bytes sha_zeros_def Let_def d_def [symmetric] z set_eight [OF len]
    using d m by simp
qed

section \<open>Equivalence\<close>

lemma absorbed_chunks:
  "absorbed M m \<Longrightarrow> list_all (\<lambda>v. length v < 2 ^ 29) vs \<Longrightarrow> absorbed (M @ concat vs) (fold sha256_update vs m)"
proof (induction vs arbitrary: M m)
  case (Cons v vs)
  then show ?case
    using Cons.IH [OF absorbed_update [of M m v]] by simp
qed simp

lemma final_hash:
  assumes "absorbed M m"
  shows "snd (sha256_final_32bytes m) = fips_sha256 M"
proof -
  have "length (sha_zeros m) = 72"
    by (simp only: sha_zeros_def Let_def length_list_update) simp
  then have "length (take (sha_dstart m + 8) (sha_zeros m)) < 2 ^ 29"
    by simp
  then have "absorbed (fips_pad M) (sha256_update (take (sha_dstart m + 8) (sha_zeros m)) m)"
    using absorbed_update [OF assms] final_padding [OF assms] by metis
  then show ?thesis
    by (simp add: absorbed_def sha256_final_32bytes_def fips_sha256_def be_bytes_def [abs_def] Let_def)
qed



end
