(* ===== verification/Util.thy ===== *)
theory Util
  imports Mavlink Listener
begin

text \<open>
  \<open>util.cpp\<close>: opening the listening sockets, the socket options, the health and queue probes of a TCP
  socket and the clock. What each system call answers is an argument; the calls that act on a
  descriptor are recorded in order, so that a descriptor no variable holds any more shows in the record.
\<close>

section \<open>The clock\<close>

text \<open>\<open>tv_sec + tv_usec * 1.0e-6\<close>, in microseconds.\<close>

definition time_seconds :: "int \<Rightarrow> int \<Rightarrow> usec" where
  "time_seconds tv_sec tv_usec = seconds tv_sec + tv_usec"

section \<open>Texts\<close>

text \<open>\<open>inet_ntop\<close> on the four bytes of the address as they lie in memory, into a buffer of \<open>INET_ADDRSTRLEN\<close> = 16.\<close>

fun dotted :: "bytes \<Rightarrow> string" where
  "dotted [] = []"
| "dotted [b] = dec_str (unat b)"
| "dotted (b # bs) = dec_str (unat b) @ ''.'' @ dotted bs"

definition addr_to_str :: "u32 \<Rightarrow> string" where
  "addr_to_str s_addr = take 15 (dotted (word_le s_addr))"

text \<open>\<open>strftime\<close> with \<open>%F %T\<close>: the broken-down local time, with hour, minute and second.\<close>

definition time_string :: "tm \<Rightarrow> nat \<Rightarrow> nat \<Rightarrow> nat \<Rightarrow> string" where
  "time_string t hour minute sec =
     take 98 (dec_str (tm_year t + 1900) @ ''-'' @ pad0 2 (dec_str (tm_mon t + 1)) @ ''-'' @ pad0 2 (dec_str (tm_mday t))
       @ '' '' @ pad0 2 (dec_str hour) @ '':'' @ pad0 2 (dec_str minute) @ '':'' @ pad0 2 (dec_str sec))"

section \<open>Listening sockets\<close>

datatype sock_call =
    Call_socket bool int      \<comment> \<open>is it a stream socket, and the descriptor or -1\<close>
  | Call_reuseaddr int
  | Call_nodelay int
  | Call_bind int u16 int     \<comment> \<open>descriptor, port and answer\<close>
  | Call_listen int int int   \<comment> \<open>descriptor, backlog and answer\<close>
  | Call_getfl int
  | Call_setfl int u32

record sock_answers =
  an_socket :: int
  an_bind :: int
  an_listen :: int

text \<open>\<open>htons(port)\<close> takes the low 16 bits of the \<open>int\<close>.\<close>

definition sin_port :: "u32 \<Rightarrow> u16" where
  "sin_port port = ucast port"

definition open_socket_in_udp :: "u32 \<Rightarrow> sock_answers \<Rightarrow> int \<times> sock_call list" where
  "open_socket_in_udp port an =
     (let res = an_socket an in
      if res = -1 then (-1, [Call_socket False res])
      else let calls = [Call_socket False res, Call_reuseaddr res, Call_bind res (sin_port port) (an_bind an)]
           in if an_bind an < 0 then (-1, calls) else (res, calls))"

definition set_tcp_options :: "int \<Rightarrow> sock_call list" where
  "set_tcp_options fd = [Call_reuseaddr fd, Call_nodelay fd]"

definition open_socket_in_tcp :: "u32 \<Rightarrow> sock_answers \<Rightarrow> int \<times> sock_call list" where
  "open_socket_in_tcp port an =
     (let res = an_socket an in
      if res = -1 then (-1, [Call_socket True res])
      else let bound = [Call_socket True res] @ set_tcp_options res @ [Call_bind res (sin_port port) (an_bind an)]
           in if an_bind an < 0 then (-1, bound)
              else let listened = bound @ [Call_listen res 100 (an_listen an)]
                   in if an_listen an \<noteq> 0 then (-1, listened)
                      else (res, listened @ set_tcp_options res))"

text \<open>\<open>O_NONBLOCK\<close> is 0x800 on Linux.\<close>

definition O_NONBLOCK :: u32 where "O_NONBLOCK = 0x800"

definition set_nonblocking :: "int \<Rightarrow> u32 \<Rightarrow> sock_call list" where
  "set_nonblocking fd v = [Call_getfl fd, Call_setfl fd (v OR O_NONBLOCK)]"

section \<open>Probes of a TCP socket\<close>

text \<open>The answers of \<open>ioctl(SIOCOUTQ)\<close> and \<open>getsockopt(SO_SNDBUF)\<close>; \<open>None\<close> is -1.\<close>

definition tcp_writable_bytes :: "u32 option \<Rightarrow> u32 option \<Rightarrow> int" where
  "tcp_writable_bytes ioctl_outq getsockopt_sndbuf =
     (case ioctl_outq of
        None \<Rightarrow> -1
      | Some outq \<Rightarrow>
          (case getsockopt_sndbuf of
             None \<Rightarrow> -1
           | Some sndbuf \<Rightarrow>
               let avail = sint sndbuf - sint outq in
               if avail < 0 then 0 else avail))"

definition SOCK_STREAM :: int where "SOCK_STREAM = 1"
definition TCP_ESTABLISHED :: u8 where "TCP_ESTABLISHED = 1"
definition TCP_CLOSE_WAIT :: u8 where "TCP_CLOSE_WAIT = 8"
definition POLLERR :: u16 where "POLLERR = 0x8"
definition POLLHUP :: u16 where "POLLHUP = 0x10"
definition POLLNVAL :: u16 where "POLLNVAL = 0x20"

record probe =
  pr_type :: "int option"         \<comment> \<open>\<open>SO_TYPE\<close>; \<open>None\<close> when \<open>getsockopt\<close> fails\<close>
  pr_poll :: int                  \<comment> \<open>the result of \<open>poll\<close>\<close>
  pr_revents :: u16
  pr_soerr :: "int option"        \<comment> \<open>\<open>SO_ERROR\<close>\<close>
  pr_tcp_state :: "u8 option"     \<comment> \<open>\<open>tcpi_state\<close> of \<open>TCP_INFO\<close>\<close>

definition socket_is_dead :: "probe \<Rightarrow> bool" where
  "socket_is_dead pr =
     (case pr_type pr of
        None \<Rightarrow> True
      | Some type \<Rightarrow>
          if type \<noteq> SOCK_STREAM then True
          else if pr_poll pr < 0 then True
          else if pr_poll pr = 1 \<and> pr_revents pr AND (POLLERR OR POLLHUP OR POLLNVAL) \<noteq> 0 then True
          else if (case pr_soerr pr of None \<Rightarrow> False | Some soerr \<Rightarrow> soerr \<noteq> 0) then True
          else (case pr_tcp_state pr of
                  None \<Rightarrow> False
                | Some state \<Rightarrow> state \<noteq> TCP_ESTABLISHED \<and> state \<noteq> TCP_CLOSE_WAIT))"

section \<open>What the callers hand in\<close>

text \<open>The four calls of \<open>open_sockets\<close>, each made only for a slot that is -1.\<close>

definition slot_call :: "listen_port \<Rightarrow> sock_slot \<Rightarrow> sock_answers \<Rightarrow> int \<times> sock_call list" where
  "slot_call p sl an =
     (case sl of
        S1_udp \<Rightarrow> open_socket_in_udp (lp_port1 p) an
      | S2_udp \<Rightarrow> open_socket_in_udp (lp_port2 p) an
      | S1_tcp \<Rightarrow> open_socket_in_tcp (lp_port1 p) an
      | S2_listen \<Rightarrow> open_socket_in_tcp (lp_port2 p) an)"

type_synonym slot_answers = "listen_port \<Rightarrow> sock_slot \<Rightarrow> sock_answers"

definition slot_env :: "slot_answers \<Rightarrow> sock_env" where
  "slot_env ans p sl = fst (slot_call p sl (ans p sl))"

definition slot_held :: "listen_port \<Rightarrow> sock_slot \<Rightarrow> int" where
  "slot_held p sl =
     (case sl of S1_udp \<Rightarrow> sock1_udp p | S2_udp \<Rightarrow> sock2_udp p | S1_tcp \<Rightarrow> sock1_tcp p | S2_listen \<Rightarrow> sock2_listen p)"

definition open_calls :: "slot_answers \<Rightarrow> listen_port \<Rightarrow> sock_call list" where
  "open_calls ans p =
     concat (map (\<lambda>sl. if slot_held p sl = -1 then snd (slot_call p sl (ans p sl)) else [])
       [S1_udp, S2_udp, S1_tcp, S2_listen])"

text \<open>The last loop of \<open>reload_ports\<close>, every time it comes to this pair.\<close>

definition reopen_calls :: "slot_answers \<Rightarrow> listen_port \<Rightarrow> sock_call list" where
  "reopen_calls ans p = (if lp_pid p = 0 \<and> \<not> lp_removed p then open_calls ans p else [])"

primrec reopen_retries :: "slot_answers list \<Rightarrow> listen_port \<Rightarrow> listen_port \<times> effects \<times> sock_call list" where
  "reopen_retries [] p = (p, [], [])"
| "reopen_retries (ans # as) p =
     (case reopen (slot_env ans) p of (p', es) \<Rightarrow>
        case reopen_retries as p' of (p'', es', calls) \<Rightarrow> (p'', es @ es', reopen_calls ans p @ calls))"

end
