(* ===== verification/Util_Props.thy ===== *)
theory Util_Props
  imports Util Listener_Props Mavlink_Props
begin

text \<open>
  What becomes of a descriptor in \<open>open_socket_in_udp\<close> and \<open>open_socket_in_tcp\<close>: it is handed to the
  caller or, when \<open>bind\<close> or \<open>listen\<close> fails, in no variable any more. And what a congested or broken
  TCP socket means for \<open>send_message\<close>.
\<close>

section \<open>Texts\<close>

lemma length_dec_str: "n < 10 ^ Suc k \<Longrightarrow> length (dec_str n) \<le> Suc k"
proof (induction k arbitrary: n)
  case 0
  then show ?case
    by (subst dec_str.simps) simp
next
  case (Suc k)
  then have "n div 10 < 10 ^ Suc k"
    by (simp add: less_mult_imp_div_less)
  then show ?case
    using Suc.IH [of "n div 10"] by (subst dec_str.simps) simp
qed

lemma length_dec_byte: "length (dec_str (unat (b :: u8))) \<le> 3"
  using length_dec_str [of "unat b" 2] unsigned_less [of b, where ?'a = nat] by (simp add: numeral_3_eq_3)

lemma dec_str_app_inject:
  assumes "dec_str m @ x = dec_str n @ y" and "x = [] \<or> \<not> is_digit (hd x)" and "y = [] \<or> \<not> is_digit (hd y)"
  shows "m = n \<and> x = y"
proof -
  have "dec_str m = dec_str n"
    using arg_cong [OF assms(1), of "takeWhile is_digit"] assms(2,3) by (simp add: takeWhile_dec_str)
  then show ?thesis
    using assms(1) by (simp add: dec_str_inject)
qed

text \<open>The printed address always fits its buffer and names exactly one address.\<close>

lemma dotted_four: "length bs = 4 \<Longrightarrow> \<exists>a b c d. bs = [a, b, c, d]"
  by (auto simp: length_Suc_conv numeral_eq_Suc)

lemma dotted_fits:
  assumes "length bs = 4"
  shows "length (dotted bs) \<le> 15"
proof -
  obtain a b c d where "bs = [a, b, c, d]"
    using dotted_four assms by blast
  then show ?thesis
    using length_dec_byte [of a] length_dec_byte [of b] length_dec_byte [of c] length_dec_byte [of d] by simp
qed

lemma dotted_inject:
  assumes "length bs = 4" and "length cs = 4" and "dotted bs = dotted cs"
  shows "bs = cs"
proof -
  obtain a b c d a' b' c' d' where "bs = [a, b, c, d]" "cs = [a', b', c', d']"
    using dotted_four assms(1,2) by metis
  moreover have "\<not> is_digit (CHR ''.'')"
    by (simp add: is_digit_def)
  ultimately show ?thesis
    using assms(3) by (auto simp: dec_str_inject word_unat_eq_iff dest!: dec_str_app_inject)
qed

lemma addr_to_str_inject: "addr_to_str a = addr_to_str b \<longleftrightarrow> a = b"
  using dotted_fits [of "word_le a"] dotted_fits [of "word_le b"] dotted_inject [of "word_le a" "word_le b"]
  by (auto simp: addr_to_str_def word_le_inject_32)

section \<open>Descriptors\<close>

definition fds_if :: "bool \<Rightarrow> int \<Rightarrow> int multiset" where
  "fds_if b fd = (if b then {#fd#} else {#})"

text \<open>The descriptors the kernel handed out in a record of calls.\<close>

definition socket_fds :: "sock_call list \<Rightarrow> int multiset" where
  "socket_fds calls = sum_list (map (\<lambda>c. case c of Call_socket stream fd \<Rightarrow> fds_if (fd \<noteq> -1) fd | _ \<Rightarrow> {#}) calls)"

text \<open>A socket that was created and not handed to the caller.\<close>

definition lost_fd :: "listen_port \<Rightarrow> sock_slot \<Rightarrow> sock_answers \<Rightarrow> int multiset" where
  "lost_fd p sl an = fds_if (an_socket an \<noteq> -1 \<and> fst (slot_call p sl an) = -1) (an_socket an)"

definition lost_fds :: "slot_answers \<Rightarrow> listen_port \<Rightarrow> int multiset" where
  "lost_fds ans p = sum_list (map (\<lambda>sl. if slot_held p sl = -1 then lost_fd p sl (ans p sl) else {#})
     [S1_udp, S2_udp, S1_tcp, S2_listen])"

lemma socket_fds_simps [simp]:
  "socket_fds [] = {#}" "socket_fds (calls @ calls') = socket_fds calls + socket_fds calls'"
  "socket_fds (c # calls) = (case c of Call_socket stream fd \<Rightarrow> fds_if (fd \<noteq> -1) fd | _ \<Rightarrow> {#}) + socket_fds calls"
  by (simp_all add: socket_fds_def)

lemma socket_fds_concat: "socket_fds (concat css) = sum_list (map socket_fds css)"
  by (induction css) simp_all

lemma slot_call_fds:
  "socket_fds (snd (slot_call p sl an)) = fds_if (fst (slot_call p sl an) \<noteq> -1) (fst (slot_call p sl an)) + lost_fd p sl an"
  by (cases sl) (auto simp: slot_call_def lost_fd_def open_socket_in_udp_def open_socket_in_tcp_def
      set_tcp_options_def fds_if_def Let_def)

lemma open_slot_fds: "opened_fds (snd (open_slot s fd)) = (if s = -1 then fds_if (fd \<noteq> -1) fd else {#})"
  by (simp add: open_slot_def fds_if_def)

text \<open>Every descriptor of an attempt is handed over or lost.\<close>

lemma open_sockets_conserve:
  "socket_fds (open_calls ans p) = opened_fds (snd (open_sockets (slot_env ans) p)) + lost_fds ans p"
  by (simp add: open_calls_def socket_fds_concat slot_call_fds open_sockets_def case_prod_beta Let_def
      open_slot_fds slot_env_def lost_fds_def slot_held_def ac_simps)

lemma reopen_conserve:
  assumes "lp_pid p = 0" and "\<not> lp_removed p"
  shows "socket_fds (reopen_calls ans p) = opened_fds (snd (reopen (slot_env ans) p)) + lost_fds ans p"
  using assms by (simp add: reopen_calls_def reopen_def open_sockets_conserve)

lemma reopen_effects:
  "closed_fds (snd (reopen env p)) = {#}"
  "opened_fds (snd (reopen env p)) + mset (held p) = mset (held (fst (reopen env p)))"
  by (simp_all add: reopen_def port_effects)

lemma bind_fails:
  assumes "an_socket an \<noteq> -1" and "an_bind an < 0"
  shows "fst (slot_call p sl an) = -1" and "lost_fd p sl an = {#an_socket an#}"
  using assms by (cases sl; simp add: slot_call_def lost_fd_def open_socket_in_udp_def open_socket_in_tcp_def
      fds_if_def Let_def)+

lemma reopen_bind_fails:
  assumes "lp_pid p = 0" and "\<not> lp_removed p" and "sock2_udp p = -1"
    and "an_socket (ans p S2_udp) \<noteq> -1" and "an_bind (ans p S2_udp) < 0"
  shows "sock2_udp (fst (reopen (slot_env ans) p)) = -1" and "an_socket (ans p S2_udp) \<in># lost_fds ans p"
  using assms bind_fails [OF assms(4,5), of p S2_udp]
  by (simp_all add: reopen_def open_sockets_def case_prod_beta Let_def open_slot_def slot_env_def
      lost_fds_def slot_held_def)


definition busy_port :: slot_answers where
  "busy_port q sl = (if sl = S2_udp then \<lparr>an_socket = 9, an_bind = -1, an_listen = 0\<rparr>
     else \<lparr>an_socket = 3, an_bind = 0, an_listen = 0\<rparr>)"


section \<open>Sending to a TCP socket\<close>

text \<open>What a probe that calls the socket alive says, and the range of the queue space.\<close>

lemma alive_socket:
  "\<not> socket_is_dead pr \<Longrightarrow> pr_type pr = Some SOCK_STREAM \<and> 0 \<le> pr_poll pr \<and> pr_soerr pr \<in> {None, Some 0}
     \<and> pr_tcp_state pr \<in> {None, Some TCP_ESTABLISHED, Some TCP_CLOSE_WAIT}"
  by (auto simp: socket_is_dead_def split: option.splits if_splits)

lemma writable_range:
  assumes "0 \<le> sint (outq :: u32)"
  shows "-1 \<le> tcp_writable_bytes (Some outq) sndbuf" and "tcp_writable_bytes (Some outq) sndbuf < 2 ^ 31"
proof -
  have "sint (s :: u32) - sint outq < 2 ^ 31" for s
    using sint_lt [of s] assms by simp
  then show "-1 \<le> tcp_writable_bytes (Some outq) sndbuf" "tcp_writable_bytes (Some outq) sndbuf < 2 ^ 31"
    using assms by (auto simp: tcp_writable_bytes_def Let_def split: option.splits)
qed

text \<open>
  Only a live TCP socket with room is written to. With the probes of \<open>util.cpp\<close> behind it,
  \<open>send_message\<close> on a TCP link hands nothing to the transport and changes nothing when the socket is dead
  (the connection is then closed, since it returns false) or when less than 400 bytes of its buffer are free; in
  the second case it reports success, and a failed \<open>ioctl\<close> or \<open>getsockopt\<close> counts as no room.
\<close>

theorem tcp_send_gated:
  fixes lib :: "'p mav_lib" and env :: "('l, 'db) mav_env" and st :: "('p, 'l, 'db) mav_state"
  assumes "mv_is_tcp (ms_mav st)"
    and "en_dead env = socket_is_dead pr" and "en_writable env = tcp_writable_bytes outq sndbuf"
    and "pr_type pr \<noteq> Some SOCK_STREAM \<or> pr_poll pr < 0
      \<or> pr_poll pr = 1 \<and> pr_revents pr AND (POLLERR OR POLLHUP OR POLLNVAL) \<noteq> 0
      \<or> outq = None \<or> sndbuf = None \<or> sint (the sndbuf) - sint (the outq) < 400"
  shows "send_message lib env msg st = (st, \<not> socket_is_dead pr)"
  using assms by (auto simp: send_message_def socket_is_dead_def tcp_writable_bytes_def Let_def split: option.splits)

lemma tcp_send_gated_witness:
  "let st = sample_state\<lparr>ms_mav := sample_mav\<lparr>mv_is_tcp := True\<rparr>\<rparr>;
       env = sample_env\<lparr>en_dead := False, en_writable := 100\<rparr>
   in send_message sample_lib env (sample_msg 0) st = (st, True)"
proof -
  let ?pr = "\<lparr>pr_type = Some SOCK_STREAM, pr_poll = 0, pr_revents = 0, pr_soerr = None, pr_tcp_state = None\<rparr>"
  have "\<not> socket_is_dead ?pr" "tcp_writable_bytes (Some 900) (Some 1000) = 100"
    by (simp_all add: socket_is_dead_def tcp_writable_bytes_def)
  then show ?thesis
    using tcp_send_gated [of "sample_state\<lparr>ms_mav := sample_mav\<lparr>mv_is_tcp := True\<rparr>\<rparr>"
        "sample_env\<lparr>en_dead := False, en_writable := 100\<rparr>" ?pr "Some 900" "Some 1000" sample_lib "sample_msg 0"]
    by (simp add: Let_def)
qed

end
