(* ===== verification/Child_Ends.thy ===== *)
theory Child_Ends
  imports Child_Props
begin

text \<open>
  The end of a session: what the engineers do never refreshes the time of the user's last packet, so that a
  child whose user has fallen silent leaves its loop.
\<close>

section \<open>What only the user's side changes\<close>

definition user_side :: "('p, 'db) child \<Rightarrow> listen_port \<times> bool \<times> usec" where
  "user_side s = (ch_p s, ch_have_conn1 s, ch_last_pkt1 s)"

named_theorems user_side_simps

lemma user_side_basic [user_side_simps]:
  "user_side (upd_slot i f s) = user_side s" "user_side (upd_net g s) = user_side s"
  "user_side (fst (on_slot i h s)) = user_side s" "user_side (fst (on_mav1 h s)) = user_side s"
  "user_side (close_slot i s) = user_side s" "user_side (drop_slot i s) = user_side s"
  "user_side (check_table s) = user_side s" "user_side (log_message cx me msg s) = user_side s"
  by (simp_all add: user_side_def upd_slot_def upd_net_def on_slot_def on_mav1_def put_st_def close_slot_def
      drop_slot_def check_table_def log_message_def Let_def case_prod_beta)

lemma user_side_fields [user_side_simps]:
  "user_side (s\<lparr>ch_count2 := a\<rparr>) = user_side s" "user_side (s\<lparr>ch_conn2_count := b\<rparr>) = user_side s"
  "user_side (s\<lparr>ch_max_conn2_count := c\<rparr>) = user_side s" "user_side (s\<lparr>ch_last_conn_save := d\<rparr>) = user_side s"
  "user_side (s\<lparr>ch_conndb := e\<rparr>) = user_side s" "user_side (s\<lparr>ch_crashed := f\<rparr>) = user_side s"
  "user_side (s\<lparr>ch_mav1_tx_msgs := g\<rparr>) = user_side s" "user_side (s\<lparr>ch_to_user := h\<rparr>) = user_side s"
  "user_side (s\<lparr>ch_binlog := k\<rparr>) = user_side s"
  by (simp_all add: user_side_def)

lemma user_side_calls [user_side_simps]:
  "user_side (fst (receive_slot cx sy i buf s)) = user_side s" "user_side (fst (send_user cx sy i msg s)) = user_side s"
  "user_side (init_slot cx sy i fd aw tcp s) = user_side s" "user_side (fst (stream_recv cx ti ws s)) = user_side s"
  by (auto simp: receive_slot_def send_user_def init_slot_def stream_recv_def user_side_simps split: option.splits prod.splits list.splits)

lemma user_side_engineer_msgs [user_side_simps]: "user_side (fst (engineer_msgs cx me i k buf s)) = user_side s"
proof (induction cx me i k buf s rule: engineer_msgs.induct)
  case (1 cx me i k buf s)
  obtain s1 rest out where r: "receive_slot cx (me_receive (me k)) i buf s = (s1, rest, out)"
    by (rule prod_cases3)
  then have s1: "user_side s1 = user_side s"
    using user_side_calls(1) [of cx "me_receive (me k)" i buf s] by simp
  show ?case
  proof (cases "buf = [] \<or> out = None")
    case True
    then show ?thesis
      using r s1 by (subst engineer_msgs.simps) auto
  next
    case False
    then obtain m where out: "out = Some m"
      by auto
    define s2 where "s2 = log_message cx (me k) m (upd_slot i (\<lambda>c. c\<lparr>c2_rx_msgs := c2_rx_msgs c + 1\<rparr>) s1)"
    obtain s3 ok where t: "send_user cx (me_send (me k) 0) i m s2 = (s3, ok)"
      by (rule prod.exhaust)
    have "user_side s3 = user_side (fst (send_user cx (me_send (me k) 0) i m s2))"
      by (simp add: t)
    then have s3: "user_side s3 = user_side s"
      by (simp add: s1 s2_def user_side_simps)
    have "engineer_msgs cx me i k buf s =
        (if ok then engineer_msgs cx me i (Suc k) rest (s3\<lparr>ch_mav1_tx_msgs := ch_mav1_tx_msgs s3 + 1\<rparr>) else (s3, True))"
      using False r out t by (subst engineer_msgs.simps) (simp add: s2_def split: bool.split)
    moreover have "user_side (fst (engineer_msgs cx me i (Suc k) rest (s3\<lparr>ch_mav1_tx_msgs := ch_mav1_tx_msgs s3 + 1\<rparr>))) = user_side s" if ok
      using False r out t that 1 s3 by (simp add: s2_def user_side_simps)
    ultimately show ?thesis
      using s3 by simp
  qed
qed

lemma user_side_engineer_data [user_side_simps]: "user_side (fst (engineer_data cx me i buf s)) = user_side s"
  by (simp add: engineer_data_def user_side_simps)

lemma user_side_new_udp [user_side_simps]: "user_side (new_udp_slot cx now time fr frl sy i s) = user_side s"
  by (simp add: new_udp_slot_def Let_def user_side_simps)

lemma user_side_engineer_udp [user_side_simps]: "user_side (fst (engineer_udp cx now time dgram sy me s)) = user_side s"
  by (auto simp: engineer_udp_def Let_def case_prod_beta user_side_simps split: option.split)

lemma user_side_tcp_accept [user_side_simps]: "user_side (fst (engineer_tcp_accept cx time accepted sy s)) = user_side s"
  by (auto simp: engineer_tcp_accept_def Let_def user_side_simps split: option.split)

lemma user_side_tcp_turn [user_side_simps]: "user_side (fst (engineer_tcp_turn cx isset ti me i st)) = user_side (fst st)"
proof (cases st)
  case (Pair s left)
  let ?w = "nt_next (ch_net s)"
  define s1 where "s1 = (if \<not> c2_tcp_active (slot i s) \<and> detect (ti_peek (ti i))
      then upd_slot i (\<lambda>c. c\<lparr>c2_ws := Some ?w, c2_mav := set_ws ?w (c2_mav c)\<rparr>)
        (upd_net (net_new (ws_new (cx_accept cx) (ti_ws_new (ti i)) (ti_peek (ti i)) (ti_ssl_setup (ti i)))) s) else s)"
  obtain s2 r where t: "stream_recv cx (ti i) (c2_ws (slot i s1)) s1 = (s2, r)"
    by (rule prod.exhaust)
  have "user_side s2 = user_side (fst (stream_recv cx (ti i) (c2_ws (slot i s1)) s1))"
    by (simp add: t)
  also have "\<dots> = user_side s1"
    by (rule user_side_calls(4))
  also have "\<dots> = user_side s"
    by (simp add: s1_def user_side_simps)
  finally have "user_side s2 = user_side s" .
  then show ?thesis
    using Pair t by (auto simp: engineer_tcp_turn_def Let_def s1_def user_side_simps split: received.split)
qed

lemma user_side_fold:
  "(\<And>i st. user_side (fst (f i st)) = user_side (fst st)) \<Longrightarrow> user_side (fst (fold f is st)) = user_side (fst st)"
  by (induction "is" arbitrary: st) simp_all

lemma user_side_fold_plain:
  "(\<And>i s. user_side (f i s) = user_side s) \<Longrightarrow> user_side (fold f is s) = user_side s"
  by (induction "is" arbitrary: s) simp_all

lemma user_side_drop_index [user_side_simps]: "user_side (fst (drop_index idx st)) = user_side (fst st)"
  by (cases st) (simp add: drop_index_def Let_def user_side_simps)

lemma user_side_round [user_side_simps]:
  "user_side (engineer_tcp cx isset ti mt s) = user_side s" "user_side (pump_binlog cx sy now order s) = user_side s"
  "user_side (snapshot cx pid now si s) = user_side s" "user_side (sweep_dead_udp now s) = user_side s"
  "user_side (fst (process_drops cx attempt s)) = user_side s"
proof -
  show "user_side (engineer_tcp cx isset ti mt s) = user_side s"
    unfolding engineer_tcp_def by (subst user_side_fold) (simp_all add: user_side_tcp_turn)
  show "user_side (pump_binlog cx sy now order s) = user_side s"
    using user_side_basic(4) [of _ s] by (auto simp: pump_binlog_def user_side_simps case_prod_beta)
  show "user_side (snapshot cx pid now si s) = user_side s"
    by (simp add: snapshot_def Let_def user_side_simps split: option.split)
  show "user_side (sweep_dead_udp now s) = user_side s"
    unfolding sweep_dead_udp_def slots_loop_def by (rule user_side_fold_plain) (simp add: at_slot_def user_side_simps)
  show "user_side (fst (process_drops cx attempt s)) = user_side s"
    unfolding process_drops_def Let_def
    by (simp split: option.split) (subst user_side_fold; simp add: user_side_simps)
qed

section \<open>A silent user\<close>

definition user_silent :: "listen_port \<Rightarrow> 'db round_in \<Rightarrow> bool" where
  "user_silent p ri = (case ri_select ri of
     Select_ready ready \<Rightarrow> \<not> ready (sock1_udp p) \<and> \<not> ready (sock1_tcp p) | _ \<Rightarrow> True)"

lemma user_side_and_then:
  assumes "user_side (fst r) = t" and "\<And>s. user_side s = t \<Longrightarrow> user_side (fst (f s)) = t"
  shows "user_side (fst (and_then r f)) = t"
  using assms by (cases r; cases "snd r") (auto simp: and_then_def)

lemma user_side_serve:
  assumes "user_side s = t" and "\<not> isset (sock1_udp (fst t))" and "\<not> isset (sock1_tcp (fst t))"
  shows "user_side (fst (serve cx pid isset ri s)) = t"
proof -
  have p: "ch_p u = fst t" if "user_side u = t" for u :: "('a, 'b) child"
    using that by (auto simp: user_side_def)
  have d: "user_side (fst (datagram_phase cx isset ri u)) = t" if "user_side u = t" for u
    using that p [OF that] assms(2) by (auto simp: datagram_phase_def user_side_simps)
  have st: "user_side (fst (stream_phase cx isset ri u)) = t" if "user_side u = t" for u
    unfolding stream_phase_def
    by (intro user_side_and_then) (use that p assms(3) in \<open>auto simp: user_side_simps\<close>)
  have "user_side (fst (and_then (datagram_phase cx isset ri (sweep_dead_udp (ri_now ri) s)) (stream_phase cx isset ri))) = t"
    by (intro user_side_and_then d st) (use assms(1) in \<open>auto simp: user_side_simps\<close>)
  then show ?thesis
    unfolding serve_def using assms(1)
    by (auto simp: Let_def intro!: user_side_and_then) (simp add: user_side_simps)
qed

lemma silent_round:
  assumes "user_silent (ch_p s) ri" and "ch_have_conn1 s"
  shows "user_side (fst (round cx pid ri s)) = user_side s"
    and "snd (round cx pid ri s) \<noteq> Break \<Longrightarrow> ri_now0 ri - ch_last_pkt1 s \<le> seconds 10"
proof -
  obtain s1 b where d: "(case ri_drops ri of None \<Rightarrow> (s, False) | Some attempt \<Rightarrow> process_drops cx attempt s) = (s1, b)"
    by (rule prod.exhaust)
  have "user_side s1 = user_side (fst (case ri_drops ri of None \<Rightarrow> (s, False) | Some attempt \<Rightarrow> process_drops cx attempt s))"
    by (simp add: d)
  then have s1: "user_side s1 = user_side s"
    by (simp add: user_side_simps split: option.split)
  then have f: "ch_p s1 = ch_p s" "ch_have_conn1 s1 = ch_have_conn1 s" "ch_last_pkt1 s1 = ch_last_pkt1 s"
    by (simp_all add: user_side_def)
  show "user_side (fst (round cx pid ri s)) = user_side s"
    using assms s1 f user_side_serve [of "check_table s1" "user_side s" _ cx pid ri]
    by (auto simp: round_def d Let_def user_silent_def user_side_simps user_side_def [of s] split: bool.split select_result.splits)
  show "snd (round cx pid ri s) \<noteq> Break \<Longrightarrow> ri_now0 ri - ch_last_pkt1 s \<le> seconds 10"
    using assms(2) f by (auto simp: round_def d split: bool.splits if_splits)
qed

text \<open>
  C10: A child whose user is silent ends. Once the user's sockets have had nothing for more than ten seconds, the
  first round that starts after that leaves the loop, whatever the engineers send and however many of them
  connect in the meantime.
\<close>

theorem child_ends_when_user_silent:
  assumes "ch_have_conn1 s" and "list_all (user_silent (ch_p s)) ris"
    and "ri \<in> set ris" and "ri_now0 ri - ch_last_pkt1 s > seconds 10"
  shows "snd (main_rounds cx pid ris s) \<in> {Break, Exit_1}"
  using assms
proof (induction ris arbitrary: s)
  case (Cons r ris)
  obtain s1 fl where r: "round cx pid r s = (s1, fl)"
    by (rule prod.exhaust)
  note silent = silent_round [of s r cx pid]
  have same: "user_side s1 = user_side s"
    using silent(1) Cons.prems(1,2) r by simp
  show ?case
  proof (cases "fl = Break \<or> fl = Exit_1")
    case True
    then show ?thesis
      using r by auto
  next
    case False
    then have "ri \<in> set ris"
      using silent(2) Cons.prems r by auto
    with Cons.IH [of s1] Cons.prems same have "snd (main_rounds cx pid ris s1) \<in> {Break, Exit_1}"
      by (simp add: user_side_def)
    then show ?thesis
      using False r by (cases fl) simp_all
  qed
qed simp

lemma child_ends_when_user_silent_witness:
  "snd (main_rounds sample_cx 1
      (map (\<lambda>t. sample_round (sample_t + seconds t) 4 None (Some ([76, 255, 77], (2, 2), 16))) [3, 6, 9, 12])
      (sample_start\<lparr>ch_have_conn1 := True, ch_last_pkt1 := sample_t\<rparr>)) \<in> {Break, Exit_1}"
  by (rule child_ends_when_user_silent [where ri = "sample_round (sample_t + seconds 12) 4 None (Some ([76, 255, 77], (2, 2), 16))"])
    (simp_all add: user_silent_def sample_round_def sample_start_def child_start_def sample_port_def seconds_def)

end
