(* ===== verification/Listener_Epoll.thy ===== *)
theory Listener_Epoll
  imports Listener_Props
begin

text \<open>
  What \<open>wait_connection\<close> does with registrations of sockets it has closed. The set is filled after a reload
  only, \<open>handle_connection\<close> closes the pair's sockets without \<open>EPOLL_CTL_DEL\<close>, and the child keeps the same
  sockets open: the kernel drops a registration when the last descriptor of the socket is closed, so that
  traffic for the child is still reported to the parent, under the number the parent has closed.
\<close>

lemma dispatch_nothing:
  assumes "\<And>p. p \<in> set ps \<Longrightarrow> listening p \<Longrightarrow> fd \<notin> set (socks p)"
  shows "dispatch fork fd ps = (ps, [])"
proof -
  have "first_port (\<lambda>p. listening p \<and> fd \<in> set (socks p)) (handle_connection fork) ps = None"
    using assms by (auto simp: first_port_None)
  then show ?thesis
    by (simp add: dispatch_def)
qed

lemma dispatch_first:
  assumes "ps = as @ p # bs" and "listening p" and "fd \<in> set (socks p)"
    and "\<And>q. q \<in> set as \<Longrightarrow> listening q \<Longrightarrow> fd \<notin> set (socks q)"
  shows "dispatch fork fd ps = (as @ fst (handle_connection fork p) # bs, snd (handle_connection fork p))"
proof -
  have "first_port (\<lambda>p. listening p \<and> fd \<in> set (socks p)) (handle_connection fork) ps =
      Some (as @ fst (handle_connection fork p) # bs, snd (handle_connection fork p))"
    unfolding assms(1) by (rule first_port_split) (use assms in auto)
  then show ?thesis
    by (simp add: dispatch_def)
qed

lemma run_ports_none: "f (pa_ports s) = (pa_ports s, []) \<Longrightarrow> run_ports f s = s"
  by (simp add: run_ports_def)

text \<open>Events under numbers no idle pair holds.\<close>

definition unheard :: "listen_port list \<Rightarrow> int \<Rightarrow> bool" where
  "unheard ps fd \<longleftrightarrow> (\<forall>p \<in> set ps. listening p \<longrightarrow> fd \<notin> set (socks p))"

definition only_events :: "int set \<Rightarrow> 'db wait_event \<Rightarrow> bool" where
  "only_events S ev = (case ev of Wait_events fds fork \<Rightarrow> set fds \<subseteq> S | Wait_eintr \<Rightarrow> True | _ \<Rightarrow> False)"

lemma fold_unheard:
  "list_all (unheard (pa_ports s)) fds \<Longrightarrow> fold (\<lambda>fd. run_ports (dispatch fork fd)) fds s = s"
proof (induction fds)
  case (Cons fd fds)
  then have "dispatch fork fd (pa_ports s) = (pa_ports s, [])"
    by (intro dispatch_nothing) (auto simp: unheard_def)
  then show ?case
    using Cons by (simp add: run_ports_none)
qed simp

lemma rounds_unheard:
  assumes "\<And>fd. fd \<in> S \<Longrightarrow> unheard (pa_ports s) fd" and "list_all (only_events S) evs"
  shows "wait_rounds api evs s = Some s"
  using assms(2)
proof (induction evs)
  case (Cons ev evs)
  have "wait_round api ev s = Some s"
    using Cons.prems assms(1)
    by (cases ev) (auto simp: only_events_def wait_round_def list_all_iff subset_iff intro!: fold_unheard)
  then show ?case
    using Cons by simp
qed simp

text \<open>
  C36: A busy session keeps the parent from its other duties. When a pair gets a child, its registrations stay in
  the parent's epoll set while the child holds the same sockets open; and as long as each \<open>epoll_wait\<close> returns
  events on them before its second is over, whatever their number, the parent's state does not change at all: no
  exited child is reaped, no pair added to or removed from \<open>keys.tdb\<close> is noticed, no listener is reopened.
\<close>

theorem child_traffic_starves_parent:
  assumes "i < length (pa_ports s)" and "listening (pa_ports s ! i)" and "fd \<in> set (held (pa_ports s ! i))"
    and "distinct (concat (map held (pa_ports s)))" and "set (held (pa_ports s ! i)) \<subseteq> set (pa_epoll s)"
    and "fork (pa_ports s ! i) \<noteq> 0" and "wait_round api (Wait_events [fd] fork) s = Some s1"
    and "list_all (only_events (set (held (pa_ports s ! i)))) evs"
  shows "set (held (pa_ports s ! i)) \<subseteq> set (pa_epoll s1)
    \<and> held (child_ports i (pa_ports s) ! i) = held (pa_ports s ! i)
    \<and> wait_rounds api evs s1 = Some s1"
proof -
  let ?p = "pa_ports s ! i"
  have ps: "pa_ports s = take i (pa_ports s) @ ?p # drop (Suc i) (pa_ports s)"
    using assms(1) by (rule id_take_nth_drop)
  have apart: "set (held ?p) \<inter> set (held q) = {}" if "q \<in> set (take i (pa_ports s)) \<union> set (drop (Suc i) (pa_ports s))" for q
    using assms(4) that by (subst (asm) ps) auto
  have socks: "x \<in> set (held q) \<longleftrightarrow> x \<in> set (socks q)" if "x \<in> set (held ?p)" for x q
    using that by (simp add: held_def)
  have "dispatch fork fd (pa_ports s) = (take i (pa_ports s) @ fst (handle_connection fork ?p) # drop (Suc i) (pa_ports s),
      snd (handle_connection fork ?p))"
    by (rule dispatch_first [OF ps assms(2)]) (use assms(3) apart socks in auto)
  then have s1: "pa_ports s1 = take i (pa_ports s) @ fst (handle_connection fork ?p) # drop (Suc i) (pa_ports s)"
    "pa_epoll s1 = pa_epoll s"
    using assms(7) by (auto simp: wait_round_def run_ports_def)
  have "unheard (pa_ports s1) x" if "x \<in> set (held ?p)" for x
    unfolding unheard_def s1 using that apart assms(6) socks
    by (auto simp: listening_def handle_connection_fields)
  then have "wait_rounds api evs s1 = Some s1"
    using rounds_unheard [OF _ assms(8)] by blast
  moreover have "child_ports i (pa_ports s) ! i = ?p"
    using assms(1) by (simp add: child_ports_def nth_enumerate_eq)
  ultimately show ?thesis
    using assms(5) s1(2) by simp
qed

lemma child_traffic_starves_parent_witness:
  "\<exists>s1. wait_round mem_api (Wait_events [3] (\<lambda>_. 42)) sample_parent = Some s1
     \<and> wait_rounds mem_api (replicate 1000 (Wait_events [3, 4] (\<lambda>_. 43))) s1 = Some s1"
proof -
  obtain s1 where s1: "wait_round mem_api (Wait_events [3] (\<lambda>_. 42)) sample_parent = Some s1"
    by (simp add: sample_connect)
  have "list_all (only_events (set (held (pa_ports sample_parent ! 0)))) (replicate 1000 (Wait_events [3, 4] (\<lambda>_. 43)))"
    by (auto simp: list_all_iff only_events_def sample_parent_def sample_port_def held_def socks_def)
  from child_traffic_starves_parent [of 0 sample_parent 3, OF _ _ _ _ _ _ s1 this] s1 show ?thesis
    by (simp add: sample_parent_def sample_port_def held_def socks_def listening_def)
qed


text \<open>Two pairs whose children run; the second one's child exits and its sockets get the first one's numbers.\<close>

definition two_children :: parent where
  "two_children = \<lparr>pa_ports = [
       (new_port 10001 10002 0 0)\<lparr>lp_pid := 41\<rparr>, (new_port 10003 10004 0 0)\<lparr>lp_pid := 42\<rparr>],
     pa_cleanup_pid = 99, pa_epoll = [3, 4, 5, 6, 7, 8, 9, 10], pa_last_reload = 0, pa_effects = []\<rparr>"


end
