(* ===== verification/Listener_Life.thy ===== *)
theory Listener_Life
  imports Listener_Props
begin

text \<open>
  The life of a port pair as a state machine with labelled steps: what the parent may do with a pair, whatever
  \<open>keys.tdb\<close>, the network and the children do. For each pair, the effects of a run of the parent spell a run of the
  machine.
\<close>

section \<open>The machine\<close>

text \<open>Not in the list; listening; served by a child; removed while its child still runs; removed.\<close>

datatype pair_state = Unknown | Idle | In_child int | Leaving int | Gone

text \<open>
  The steps and the effects that show them. A pair that comes back before the exit of its child is served on by that
  child. (The answer 0 of \<open>fork\<close> is the one the child gets.)
\<close>

inductive life_step :: "u32 \<Rightarrow> pair_state \<Rightarrow> effects \<Rightarrow> pair_state \<Rightarrow> bool" for port2 where
  added: "life_step port2 Unknown [] Idle"
| connected: "pid \<noteq> 0 \<Longrightarrow> life_step port2 Idle [Forked_child port2 pid] (In_child pid)"
| in_the_child: "life_step port2 Idle [Forked_child port2 0] Idle"
| exited: "0 < pid \<Longrightarrow> life_step port2 (In_child pid) [Conn_removed port2] Idle"
| removed: "life_step port2 Idle [Conn_removed port2] Gone"
| told_to_leave: "life_step port2 (In_child pid) [Conn_removed port2] (Leaving pid)"
| left: "0 < pid \<Longrightarrow> life_step port2 (Leaving pid) [Conn_removed port2] Gone"
| kept_after_all: "life_step port2 (Leaving pid) [] (In_child pid)"
| added_again: "life_step port2 Gone [] Idle"

inductive life_run :: "u32 \<Rightarrow> pair_state \<Rightarrow> effects \<Rightarrow> pair_state \<Rightarrow> bool" for port2 s where
  start: "life_run port2 s [] s"
| step: "life_run port2 s es t \<Longrightarrow> life_step port2 t e u \<Longrightarrow> life_run port2 s (es @ e) u"

inductive_simps life_step_simps:
  "life_step port2 Idle e s" "life_step port2 (In_child pid) e s" "life_step port2 (Leaving pid) e s"
  "life_step port2 Gone e s"

lemma life_run_silent: "life_run port2 s es t \<Longrightarrow> life_step port2 t [] u \<Longrightarrow> life_run port2 s es u"
  using life_run.step [of port2 s es t "[]"] by simp

fun starts_child :: "parent_effect \<Rightarrow> bool" where
  "starts_child (Forked_child _ pid) = (pid \<noteq> 0)"
| "starts_child _ = False"

fun occupied :: "pair_state \<Rightarrow> bool" where
  "occupied (In_child _) = True"
| "occupied (Leaving _) = True"
| "occupied _ = False"

text \<open>No child is started before the rows of the one before it have been removed.\<close>

lemma life_run_starts:
  assumes "life_run port2 s es t" and "\<not> occupied s"
  shows "length (filter starts_child es) + of_bool (\<not> occupied t)
    \<le> length (filter (\<lambda>e. e = Conn_removed port2) es) + 1"
  using assms(1)
proof (induction rule: life_run.induct)
  case (step es t e u)
  from step.hyps(2) step.IH show ?case
    by (cases rule: life_step.cases) auto
qed (use assms(2) in simp)

section \<open>The parent's list\<close>

definition life_of :: "listen_port \<Rightarrow> pair_state" where
  "life_of p = (if lp_removed p then if lp_pid p = 0 then Gone else Leaving (lp_pid p)
                else if lp_pid p = 0 then Idle else In_child (lp_pid p))"

definition life :: "listen_port list \<Rightarrow> u32 \<Rightarrow> pair_state" where
  "life ps port2 = (case entry_of ps port2 of None \<Rightarrow> Unknown | Some p \<Rightarrow> life_of p)"

text \<open>The effects that concern a pair as such.\<close>

fun about :: "u32 \<Rightarrow> parent_effect \<Rightarrow> bool" where
  "about port2 (Forked_child q _) = (q = port2)"
| "about port2 (Conn_removed q) = (q = port2)"
| "about port2 _ = False"

definition pair_log :: "u32 \<Rightarrow> effects \<Rightarrow> effects" where
  "pair_log port2 es = filter (about port2) es"

lemma pair_log_basic [simp]:
  "pair_log port2 [] = []" "pair_log port2 (es @ es') = pair_log port2 es @ pair_log port2 es'"
  "pair_log port2 (e # es) = (if about port2 e then e # pair_log port2 es else pair_log port2 es)"
  by (simp_all add: pair_log_def)

lemma pair_log_sockets [simp]:
  "pair_log port2 (snd (open_sockets env p)) = []" "pair_log port2 (snd (close_sockets p)) = []"
  by (simp_all add: open_sockets_def open_slot_def close_sockets_def close_socket_def Let_def)

text \<open>One operation on an entry: a step of its own pair, or nothing that shows.\<close>

definition moves :: "listen_port \<Rightarrow> listen_port \<times> effects \<Rightarrow> bool" where
  "moves p r \<longleftrightarrow>
     (life_of (fst r) = life_of p \<and> pair_log (lp_port2 p) (snd r) = []
       \<or> life_step (lp_port2 p) (life_of p) (pair_log (lp_port2 p) (snd r)) (life_of (fst r)))
     \<and> (\<forall>q. q \<noteq> lp_port2 p \<longrightarrow> pair_log q (snd r) = [])"

lemma moves_ops:
  "moves p (p\<lparr>lp_seen := b\<rparr>, [])" "moves p (reopen env p)" "moves p (teardown p)"
  "moves p (reconcile env port1 flags fc p)" "listening p \<Longrightarrow> moves p (handle_connection fork p)"
  "0 < lp_pid p \<Longrightarrow> moves p (child_exited env p)"
  by (auto simp: moves_def life_of_def reopen_def teardown_def reconcile_def handle_connection_def child_exited_def
      case_prod_beta Let_def frame_simps listening_def life_step_simps)

definition lives :: "u32 \<Rightarrow> listen_port list \<times> effects \<Rightarrow> bool" where
  "lives port2 st \<longleftrightarrow> distinct (map lp_port2 (fst st)) \<and>
     life_run port2 Unknown (pair_log port2 (snd st)) (life (fst st) port2)"

lemma life_update:
  assumes "distinct (map lp_port2 (as @ q # bs))" and "lp_port2 q' = lp_port2 q"
  shows "life (as @ q' # bs) port2 = (if lp_port2 q = port2 then life_of q' else life (as @ q # bs) port2)"
proof (cases "lp_port2 q = port2")
  case True
  then have "\<forall>a \<in> set as. lp_port2 a \<noteq> port2"
    using assms(1) by (force simp: image_iff)
  then show ?thesis
    using True assms(2) find_update(2) [of as "\<lambda>p. lp_port2 p = port2"] by (simp add: life_def entry_of_def)
next
  case False
  have "entry_of (as @ q' # bs) port2 = entry_of (as @ q # bs) port2"
    using False assms(2) by (induction as) (simp_all add: entry_of_def)
  then show ?thesis
    using False by (simp add: life_def)
qed

lemma lives_update:
  assumes "port_op f" and "lives port2 (as @ q # bs, es)" and "moves q (f q)"
  shows "lives port2 (as @ fst (f q) # bs, es @ snd (f q))"
proof -
  have dist: "distinct (map lp_port2 (as @ q # bs))"
    and run: "life_run port2 Unknown (pair_log port2 es) (life (as @ q # bs) port2)"
    using assms(2) by (simp_all add: lives_def)
  note same = port_op.keeps_port2 [OF assms(1), of q]
  have "life_run port2 Unknown (pair_log port2 (es @ snd (f q))) (life (as @ fst (f q) # bs) port2)"
    using run assms(3) life_update [OF dist same, of port2] life_update [OF dist refl, of port2]
    by (auto simp: moves_def split: if_splits intro: life_run.step)
  then show ?thesis
    using dist same by (simp add: lives_def)
qed

interpretation lifecycle: parent_list_inv "lives port2" for port2
proof unfold_locales
  fix ps es q env p1 flags fc
  assume inv: "lives port2 (ps, es)" and new: "q \<notin> lp_port2 ` set ps"
  let ?r = "open_sockets env (new_port p1 q flags fc)"
  have "life_of (fst ?r) = Idle"
    by (simp add: life_of_def frame_simps) (simp add: new_port_def)
  moreover have "find (\<lambda>p. lp_port2 p = q) ps = None"
    using new by (auto simp: find_None_iff)
  then have "life ps q = Unknown"
    by (simp add: life_def entry_of_def)
  ultimately have "life_run port2 Unknown (pair_log port2 es) (life (fst ?r # ps) port2)"
    using inv added [of port2] by (auto simp: lives_def life_def entry_of_def frame_simps intro: life_run_silent)
  then show "lives port2 (fst ?r # ps, es @ snd ?r)"
    using inv new by (simp add: lives_def frame_simps)
qed (simp_all add: lives_update [OF op_reopen.port_op_axioms] lives_update [OF op_teardown.port_op_axioms]
    lives_update [OF op_reconcile.port_op_axioms] lives_update [OF op_connect.port_op_axioms]
    lives_update [OF op_exited.port_op_axioms] lives_update [OF op_unseen.port_op_axioms, simplified] moves_ops,
    simp add: lives_def)

text \<open>
  C33: The parent implements the life cycle of a port pair. In every run of the parent, whatever the database, the network,
  \<open>fork\<close> and \<open>waitpid\<close> answer, the effects that concern a pair spell a run of the machine that ends in the pair's state:
  a child is started only for a listening pair, and a pair listens again only when its child was reaped. So at any
  moment it has started at most one child more than it has removed the pair's connection rows.
\<close>

theorem parent_refines_lifecycle:
  assumes "main_start api opened env cpid now = Some s0" and "wait_rounds api evs s0 = Some s"
  shows "life_run port2 Unknown (pair_log port2 (pa_effects s)) (life (pa_ports s) port2)
    \<and> length (filter starts_child (pair_log port2 (pa_effects s)))
      \<le> length (filter (\<lambda>e. e = Conn_removed port2) (pair_log port2 (pa_effects s))) + 1"
proof
  have "lives port2 ([], [Conn_recreated])"
    by (simp add: lives_def life_def entry_of_def life_run.start)
  then have "lives port2 (pa_ports s, pa_effects s)"
    using lifecycle.main_start_inv lifecycle.wait_rounds_inv assms by blast
  then show run: "life_run port2 Unknown (pair_log port2 (pa_effects s)) (life (pa_ports s) port2)"
    by (simp add: lives_def)
  show "length (filter starts_child (pair_log port2 (pa_effects s)))
      \<le> length (filter (\<lambda>e. e = Conn_removed port2) (pair_log port2 (pa_effects s))) + 1"
    using life_run_starts [OF run] by simp
qed

lemma parent_refines_lifecycle_witness:
  "\<exists>s'. wait_rounds mem_api [Wait_events [3] (\<lambda>_. 42)] sample_parent = Some s'
     \<and> life_run 10002 Unknown [Forked_child 10002 42] (In_child 42)"
proof -
  let ?s = "the (wait_round mem_api (Wait_events [3] (\<lambda>_. 42)) sample_parent)"
  have s: "wait_rounds mem_api [Wait_events [3] (\<lambda>_. 42)] sample_parent = Some ?s"
    by (simp add: sample_connect)
  have "life (pa_ports ?s) 10002 = In_child 42" "pair_log 10002 (pa_effects ?s) = [Forked_child 10002 42]"
    unfolding sample_connect by (simp_all add: life_def entry_of_def life_of_def sample_parent_def sample_port_def)
  then show ?thesis
    using parent_refines_lifecycle [OF sample_start s, of 10002] s by auto
qed

end
