(* ===== verification/Log_Quota.thy ===== *)
theory Log_Quota
  imports Binlog_Props Cleanup
begin

text \<open>
  The binary-log writer and the cleanup worker share the log directory and the limit of 1 GiB per port pair.
  What the writer counts bounds what the quota pass counts, so that a log the writer has filled is one the
  quota pass leaves alone.
\<close>

section \<open>Two ways of counting\<close>

definition counted_bytes :: "(nat \<times> nat) option \<Rightarrow> port_listing \<Rightarrow> int" where
  "counted_bytes own l = (\<Sum>d\<leftarrow>filter (\<lambda>d. \<not> hidden (dd_name d)) (listing_dirs l). \<Sum>f\<leftarrow>dir_files d. counted_file own f)"

text \<open>The bytes under the writer's own device and inode number.\<close>

definition own_file :: "nat \<times> nat \<Rightarrow> dir_file \<Rightarrow> int" where
  "own_file own f = counted_file None f - counted_file (Some own) f"

definition own_bytes :: "nat \<times> nat \<Rightarrow> port_listing \<Rightarrow> int" where
  "own_bytes own l = (\<Sum>d\<leftarrow>filter (\<lambda>d. \<not> hidden (dd_name d)) (listing_dirs l). \<Sum>f\<leftarrow>dir_files d. own_file own f)"

lemma own_bytes_split: "counted_bytes None l = counted_bytes (Some own) l + own_bytes own l"
  by (simp add: counted_bytes_def own_bytes_def own_file_def sum_list_subtractf)

lemma refresh_counts:
  "bw_base_dir b \<noteq> [] \<Longrightarrow> bw_port2 b \<noteq> 0 \<Longrightarrow> bw_fp b \<noteq> None \<Longrightarrow>
    bw_other_sessions_bytes (refresh_other_sessions_bytes own l b) = counted_bytes own l"
  by (simp add: refresh_other_sessions_bytes_def counted_bytes_def)

lemma total_size_concat: "total_size (concat itss) = (\<Sum>its\<leftarrow>itss. total_size its)"
  by (induction itss) (simp_all add: total_size_def)

lemma counted_file_None: "counted_file None f = (if is_session_file (df_name f)
    then (case df_stat f of None \<Rightarrow> 0 | Some st \<Rightarrow> st_size st) else 0)"
  by (simp add: counted_file_def split: option.split)

lemma dir_items_counted:
  assumes "\<forall>f \<in> set (dir_files d). \<forall>st. df_stat f = Some st \<longrightarrow> 0 \<le> st_size st"
  shows "total_size (dir_items d) \<le> (if hidden (dd_name d) then 0 else \<Sum>f\<leftarrow>dir_files d. counted_file None f)"
proof -
  let ?item = "\<lambda>f. if hidden (df_name f) \<or> \<not> is_session_file (df_name f) then None
      else map_option (\<lambda>st. \<lparr>it_dir = dd_name d, it_name = df_name f, it_size = st_size st, it_mtime = st_mtime st\<rparr>) (df_stat f)"
  have le: "total_size (List.map_filter ?item fs) \<le> (\<Sum>f\<leftarrow>fs. counted_file None f)"
    and pos: "0 \<le> (\<Sum>f\<leftarrow>fs. counted_file None f)"
    if "\<forall>f \<in> set fs. \<forall>st. df_stat f = Some st \<longrightarrow> 0 \<le> st_size st" for fs
    using that by (induction fs)
      (auto simp: total_size_def counted_file_None List.map_filter_simps split: option.splits)
  show ?thesis
    using le [OF assms] pos [OF assms] by (auto simp: dir_items_def scanned_def total_size_def)
qed

lemma quota_total_bounded:
  assumes "ok_listing l"
  shows "total_size (listing_items l) \<le> counted_bytes None l"
proof -
  have "(\<Sum>d\<leftarrow>ds. total_size (dir_items d)) \<le> (\<Sum>d\<leftarrow>filter (\<lambda>d. \<not> hidden (dd_name d)) ds. \<Sum>f\<leftarrow>dir_files d. counted_file None f)"
    if "\<forall>d \<in> set ds. \<forall>f \<in> set (dir_files d). \<forall>st. df_stat f = Some st \<longrightarrow> 0 \<le> st_size st" for ds
    using that
  proof (induction ds)
    case (Cons d ds)
    then show ?case
      using dir_items_counted [of d] by (auto split: if_splits)
  qed simp
  then show ?thesis
    using assms by (simp add: listing_items_def total_size_concat comp_def counted_bytes_def ok_listing_def)
qed

section \<open>A full log\<close>

lemma beyond_quota_dropped:
  assumes "bw_fp b \<noteq> None" and "MAX_PER_PORT2_BYTES < bw_other_sessions_bytes b + prospective_size b (fst (decode msg))"
  shows "handle_block decode env port2 session_n msg (b, disk) = (b, disk)"
  using assms by (simp add: handle_block_def block_gate_def block_store_def case_prod_beta Let_def)

lemma new_block_longer:
  assumes "binlog_inv (b, disk)" and "bw_fp b \<noteq> None" and "bw_highest_seen b < s" and "0 < bw_current_file_size b"
  shows "bw_current_file_size b + int BLOCK_BYTES \<le> prospective_size b s"
proof -
  have "bw_current_file_size b = block_offset (bw_highest_seen b) + int BLOCK_BYTES"
    using assms by (auto simp: binlog_inv_def open_file_inv_def split: option.splits if_splits)
  moreover have "uint (bw_highest_seen b) + 1 \<le> uint s"
    using assms(3) by (simp add: word_less_def)
  ultimately show ?thesis
    by (simp add: prospective_size_def block_offset_def BLOCK_BYTES_def)
qed

text \<open>
  C18: A full log stays full. When the writer's count of the other files is the directory's and the next block
  would pass the limit, the writer drops every block behind the highest one it has, however often it is sent, and
  the quota pass, whose limit is the same, deletes nothing: the message that a cleanup pass will age out
  old sessions is not true of the quota, and logging stops for the rest of the session.
\<close>

theorem full_log_stays_full:
  assumes "binlog_inv (b, disk)" and "bw_fp b \<noteq> None" and "bw_base_dir b \<noteq> []" and "bw_port2 b \<noteq> 0"
    and "ok_listing l" and "bw_other_sessions_bytes b = bw_other_sessions_bytes (refresh_other_sessions_bytes (Some own) l b)"
    and "own_bytes own l \<le> bw_current_file_size b" and "0 < bw_current_file_size b"
    and "bw_other_sessions_bytes b + bw_current_file_size b \<le> MAX_PER_PORT2_BYTES"
    and "MAX_PER_PORT2_BYTES < bw_other_sessions_bytes b + bw_current_file_size b + int BLOCK_BYTES"
    and "bw_highest_seen b < fst (decode msg)"
  shows "enforce_port2_quota fs order l = l
    \<and> handle_block decode env port2 session_n msg (b, disk) = (b, disk)"
proof
  have "total_size (listing_items l) \<le> bw_other_sessions_bytes b + bw_current_file_size b"
    using quota_total_bounded [OF assms(5)] own_bytes_split [of l own] assms(6,7)
      refresh_counts [OF assms(3,4,2)] by simp
  then have "total_size (listing_items l) \<le> QUOTA_PER_PORT2_BYTES"
    using assms(9) by (simp add: QUOTA_PER_PORT2_BYTES_def MAX_PER_PORT2_BYTES_def)
  then show "enforce_port2_quota fs order l = l"
    by (cases l) (simp_all add: enforce_port2_quota_def quota_deletions_def)
  show "handle_block decode env port2 session_n msg (b, disk) = (b, disk)"
    by (rule beyond_quota_dropped [OF assms(2)]) (use new_block_longer [OF assms(1,2,11,8)] assms(10) in linarith)
qed

definition full_writer :: binlog_writer where
  "full_writer = mark_seqno_seen 0 (binlog_init\<lparr>bw_fp := Some ''a.bin'', bw_base_dir := ''logs'', bw_port2 := 10001,
     bw_current_file_size := 200, bw_other_sessions_bytes := MAX_PER_PORT2_BYTES - 300, bw_any_block_seen := True\<rparr>)"

definition full_listing :: port_listing where
  "full_listing = Some [\<lparr>dd_name = ''2025-01-01'', dd_isdir = True, dd_files = Some [
     \<lparr>df_name = ''session1.tlog'', df_stat = Some \<lparr>st_dev = 1, st_ino = 1, st_size = MAX_PER_PORT2_BYTES - 300, st_mtime = 0\<rparr>\<rparr>,
     \<lparr>df_name = ''session2.bin'', df_stat = Some \<lparr>st_dev = 1, st_ino = 2, st_size = 200, st_mtime = 9\<rparr>\<rparr>]\<rparr>]"

lemma full_writer_seen: "seqno_seen full_writer t \<longleftrightarrow> t = 0"
proof -
  have "\<not> seqno_seen (binlog_init\<lparr>bw_fp := f, bw_base_dir := d, bw_port2 := p, bw_current_file_size := c,
      bw_other_sessions_bytes := n, bw_any_block_seen := a\<rparr>) t" for f d p c n a
    by (simp add: seqno_seen_def binlog_init_def bitmap_seen_iff vec_empty_def)
  then show ?thesis
    by (simp add: full_writer_def)
qed

lemma full_writer_sel:
  "bw_fp full_writer = Some ''a.bin''" "bw_base_dir full_writer = ''logs''" "bw_port2 full_writer = 10001"
  "bw_current_file_size full_writer = 200" "bw_other_sessions_bytes full_writer = MAX_PER_PORT2_BYTES - 300"
  "bw_highest_seen full_writer = 0" "bw_pending_acks full_writer = []"
  "bw_nack_state full_writer t = None" "bw_any_block_seen full_writer"
  by (simp_all add: full_writer_def mark_seqno_seen_def binlog_init_def)

lemma full_log_stays_full_witness:
  "enforce_port2_quota \<lparr>fe_unlink = (\<lambda>_ _. True), fe_rmdir = (\<lambda>_. False)\<rparr> by_mtime full_listing = full_listing
   \<and> handle_block (\<lambda>_. (1, replicate 200 7)) sample_block_env 10001 2 sample_block_msg (full_writer, [''a.bin'' \<mapsto> replicate 200 0])
     = (full_writer, [''a.bin'' \<mapsto> replicate 200 0])"
proof (rule full_log_stays_full [where own = "(1, 2)"])
  show "binlog_inv (full_writer, [''a.bin'' \<mapsto> replicate 200 0])"
    by (simp add: binlog_inv_def open_file_inv_def full_writer_sel full_writer_seen MAX_PER_PORT2_BYTES_def block_offset_def BLOCK_BYTES_def)
  show "bw_other_sessions_bytes full_writer =
      bw_other_sessions_bytes (refresh_other_sessions_bytes (Some (1, 2)) full_listing full_writer)"
    by (simp add: refresh_other_sessions_bytes_def full_writer_sel full_listing_def listing_dirs_def dir_files_def
        counted_file_def is_session_file_def ends_with_def hidden_def)
  show "own_bytes (1, 2) full_listing \<le> bw_current_file_size full_writer"
    by (simp add: own_bytes_def own_file_def full_writer_sel full_listing_def listing_dirs_def dir_files_def
        counted_file_def is_session_file_def ends_with_def hidden_def)
qed (simp_all add: full_writer_sel ok_listing_def full_listing_def listing_dirs_def dir_files_def
    MAX_PER_PORT2_BYTES_def BLOCK_BYTES_def)

end
