(* ===== verification/Key_Runs.thy ===== *)
theory Key_Runs
  imports Mavlink_Props Child_Tables
begin

text \<open>
  The writers of \<open>keys.tdb\<close> among the processes: a child that saves the signing timestamp from a process of its own,
  and one that saves its counters when it ends. Each works in a transaction, so that any run of the program is a
  sequence of such steps, in any order and for any ports.
\<close>

section \<open>What a step may change\<close>

text \<open>The timestamp may rise, up to \<open>n\<close>; the statistics are free.\<close>

definition entry_kept :: "u64 \<Rightarrow> key_entry \<Rightarrow> key_entry \<Rightarrow> bool" where
  "entry_kept n ke ke' \<longleftrightarrow>
     ke' = ke\<lparr>ke_timestamp := ke_timestamp ke', ke_connections := ke_connections ke', ke_count1 := ke_count1 ke',
              ke_count2 := ke_count2 ke'\<rparr>
     \<and> ke_timestamp ke \<le> ke_timestamp ke' \<and> ke_timestamp ke' \<le> max (ke_timestamp ke) n"

definition keys_kept :: "u64 \<Rightarrow> (u32 \<Rightarrow> key_entry option) \<Rightarrow> (u32 \<Rightarrow> key_entry option) \<Rightarrow> bool" where
  "keys_kept n ks ks' \<longleftrightarrow> (\<forall>p. rel_option (entry_kept n) (ks p) (ks' p))"

lemma entry_kept_refl: "entry_kept n ke ke"
  by (simp add: entry_kept_def)

lemma entry_kept_trans: "entry_kept n a b \<Longrightarrow> entry_kept n b c \<Longrightarrow> entry_kept n a c"
  by (cases a; cases b; cases c) (auto simp: entry_kept_def max_def split: if_splits)

lemma keys_kept_refl: "keys_kept n ks ks"
  by (simp add: keys_kept_def option.rel_refl entry_kept_refl)

lemma keys_kept_trans:
  assumes "keys_kept n a b" and "keys_kept n b c"
  shows "keys_kept n a c"
  unfolding keys_kept_def
proof
  fix p
  have "rel_option (entry_kept n) (a p) (b p)" "rel_option (entry_kept n) (b p) (c p)"
    using assms by (simp_all add: keys_kept_def)
  then show "rel_option (entry_kept n) (a p) (c p)"
    by (cases "a p"; cases "b p"; cases "c p") (auto intro: entry_kept_trans)
qed

lemma keys_kept_update: "ks p = Some ke \<Longrightarrow> entry_kept n ke ke' \<Longrightarrow> keys_kept n ks (ks(p \<mapsto> ke'))"
  by (simp add: keys_kept_def option.rel_refl entry_kept_refl)

section \<open>The steps\<close>

inductive keys_step :: "('p, 'db) ctx \<Rightarrow> u64 \<Rightarrow> 'db \<Rightarrow> 'db \<Rightarrow> bool" for cx n where
  timestamp_saved: "en_db env = cx_api cx \<Longrightarrow> now_mavlink (en_now env) \<le> n \<Longrightarrow>
    tdb_transaction_start (cx_api cx) db = (t, True) \<Longrightarrow>
    keys_step cx n db (save_signing_timestamp (env :: (net, 'db) mav_env) snap db)"
| counts_saved: "tdb_transaction_start (cx_api cx) (ch_db s) = (t, True) \<Longrightarrow>
    keys_step cx n (ch_db s) (save_counts (cx_api cx) malloc_ok opened ke0 (s :: ('p, 'db) child))"

lemma timestamp_step:
  assumes "tdb (en_db env) saved in_txn" and "tdb_transaction_start (en_db env) db = (t, True)"
    and "now_mavlink (en_now env) \<le> n"
  shows "keys_kept n (key_of (en_db env) db) (key_of (en_db env) (save_signing_timestamp env snap db))"
proof (rule save_timestamp_keys [OF assms(1,2), of snap])
  assume "key_of (en_db env) (save_signing_timestamp env snap db) = key_of (en_db env) db"
  then show ?thesis
    by (simp add: keys_kept_refl)
next
  fix ke ts m
  assume old: "key_of (en_db env) db (port_of (fst snap)) = Some ke"
    and r: "fold (\<lambda>c. raise_timestamp (now_mavlink (en_now env)) (snd snap c)) [0..<MAVLINK_COMM_NUM_BUFFERS]
      (ke_timestamp ke, False) = (ts, m)"
    and new: "key_of (en_db env) (save_signing_timestamp env snap db) =
      (key_of (en_db env) db)(port_of (fst snap) \<mapsto> ke\<lparr>ke_timestamp := ts\<rparr>)"
  have "ke_timestamp ke \<le> ts" "ts \<le> max (ke_timestamp ke) (now_mavlink (en_now env))"
    using raise_timestamp_bounds [of "ke_timestamp ke" "now_mavlink (en_now env)" "snd snap"
        "[0..<MAVLINK_COMM_NUM_BUFFERS]" False] r by simp_all
  then have "entry_kept n ke (ke\<lparr>ke_timestamp := ts\<rparr>)"
    using assms(3) by (auto simp: entry_kept_def le_max_iff_disj intro: order_trans)
  then show ?thesis
    unfolding new using old by (intro keys_kept_update)
qed

lemma counts_step:
  assumes "tdb api saved in_txn" and "tdb_transaction_start api (ch_db s) = (t, True)"
  shows "keys_kept n (key_of api (ch_db s)) (key_of api (save_counts api malloc_ok opened ke0 s))"
proof -
  have kt: "key_of api t = key_of api (ch_db s)"
    using tdb.start_ok [OF assms] by (intro tdb.key_of_cong [OF assms(1)]) simp
  obtain found ke where load: "db_load_key api t (lp_port2 (ch_p s)) ke0 = (found, ke)"
    by (rule prod.exhaust)
  consider "\<not> opened \<or> ch_count1 s = 0 \<and> ch_count2 s = 0" | "opened" "ch_count1 s \<noteq> 0 \<or> ch_count2 s \<noteq> 0" "\<not> found"
    | "opened" "ch_count1 s \<noteq> 0 \<or> ch_count2 s \<noteq> 0" "found"
    by blast
  then show ?thesis
  proof cases
    case 1
    then show ?thesis
      by (auto simp: save_counts_def db_open_transaction_def db_open_def keys_kept_refl)
  next
    case 2
    then show ?thesis
      using load assms(2) tdb.key_txn_cancel [OF assms]
      by (auto simp: save_counts_def db_open_transaction_def db_open_def keys_kept_refl)
  next
    case 3
    let ?ke = "counts_added (ch_count1 s) (ch_count2 s) ke"
    have ke: "key_of api (ch_db s) (lp_port2 (ch_p s)) = Some ke"
      using load 3 db_load_key_iff [of api t "lp_port2 (ch_p s)" ke0 ke] kt by simp
    then have wf: "wf_KeyEntry ?ke" "ke_magic ?ke = KEY_MAGIC"
      using wf_key_of [OF ke] ke
      by (auto simp: counts_added_def wf_KeyEntry_def key_of_alt split: option.splits if_splits)
    obtain d ok where save: "db_save_key api malloc_ok t (lp_port2 (ch_p s)) ?ke = (d, ok)"
      by (rule prod.exhaust)
    obtain e com where commit: "tdb_transaction_commit api d = (e, com)"
      by (rule prod.exhaust)
    have "save_counts api malloc_ok opened ke0 s = db_close_commit api d"
      using 3 assms(2) load save by (simp add: save_counts_def counts_added_def db_open_transaction_def db_open_def)
    moreover have "entry_kept n ke ?ke"
      by (simp add: entry_kept_def counts_added_def)
    ultimately show ?thesis
      using tdb.key_txn_commit [OF assms wf save commit] keys_kept_update [of "key_of api (ch_db s)", OF ke]
      by (simp add: keys_kept_refl)
  qed
qed

text \<open>
  C27: What the proxy itself does to \<open>keys.tdb\<close>. In every run of timestamp saves and counter saves, by any number of
  processes and in any order, no record appears or disappears, and of a record only the timestamp and the
  statistics change: secret key, user port, name, flags and retention are those of the start, and the timestamp, which
  protects against replay, never goes back and never gets ahead of the latest clock of a save.
\<close>

theorem key_records_kept:
  assumes "tdb (cx_api cx) saved in_txn" and "(keys_step cx n)\<^sup>*\<^sup>* db db'"
  shows "keys_kept n (key_of (cx_api cx) db) (key_of (cx_api cx) db')"
  using assms(2)
proof (induction rule: rtranclp_induct)
  case base
  then show ?case
    by (rule keys_kept_refl)
next
  case (step y z)
  from step.hyps(2) have "keys_kept n (key_of (cx_api cx) y) (key_of (cx_api cx) z)"
    by cases (use assms(1) timestamp_step counts_step in \<open>metis+\<close>)
  with step.IH show ?case
    by (rule keys_kept_trans)
qed

definition counting_child :: "(unit, mem_db) child" where
  "counting_child = sample_start\<lparr>ch_count1 := 7\<rparr>"

lemma counting_child_start: "\<exists>t. tdb_transaction_start mem_api (ch_db counting_child) = (t, True)"
  by (simp add: counting_child_def sample_start_def child_start_def sample_keys_def mem_empty_def)

lemma counts_close: "opened \<Longrightarrow> ch_count1 s \<noteq> 0 \<Longrightarrow> \<not> mem_txn (save_counts mem_api malloc_ok opened ke0 s)"
  by (auto simp: save_counts_def db_open_transaction_def db_open_def db_close_commit_def db_close_cancel_def db_close_def
      split: prod.splits bool.splits)

lemma key_records_kept_witness:
  "\<exists>db'. (keys_step sample_cx (now_mavlink sample_t))\<^sup>*\<^sup>* sample_keys db'
     \<and> keys_kept (now_mavlink sample_t) (key_of mem_api sample_keys) (key_of mem_api db')"
proof -
  let ?db1 = "save_counts mem_api (\<lambda>_. True) True sample_entry counting_child"
  let ?db2 = "save_signing_timestamp (mav_env_of mem_api (sample_sys sample_t)) (sample_mav, \<lambda>_. None) ?db1"
  have cx: "cx_api sample_cx = mem_api" "ch_db counting_child = sample_keys"
    by (simp_all add: sample_cx_def counting_child_def sample_start_def child_start_def)
  obtain t where "tdb_transaction_start (cx_api sample_cx) (ch_db counting_child) = (t, True)"
    using counting_child_start unfolding cx by auto
  then have one: "keys_step sample_cx (now_mavlink sample_t) sample_keys ?db1"
    using keys_step.counts_saved [of sample_cx counting_child t _ "\<lambda>_. True" True sample_entry] unfolding cx by simp
  have closed: "\<not> mem_txn ?db1"
    by (rule counts_close) (simp_all add: counting_child_def)
  have "keys_step sample_cx (now_mavlink sample_t) ?db1 ?db2"
    by (rule keys_step.timestamp_saved) (use closed cx in \<open>simp_all add: mav_env_of_def sample_sys_def\<close>)
  with one have run: "(keys_step sample_cx (now_mavlink sample_t))\<^sup>*\<^sup>* sample_keys ?db2"
    by simp
  have "tdb (cx_api sample_cx) (\<lambda>db. map_of (mem_saved db)) mem_txn"
    unfolding cx by (rule mem_tdb.tdb_axioms)
  from key_records_kept [OF this run] run show ?thesis
    unfolding cx by blast
qed

end
